(* ===== verification/Prelude.thy ===== *)
theory Prelude
  imports Main "HOL-Library.Word"
begin

text \<open>
  Shared vocabulary of the development: the Python exceptions the modelled code raises,
  the types that name bytes, identifiers and instants, the big-endian integer codec that
  stands for the standard library's \<^verbatim>\<open>struct\<close> and \<^verbatim>\<open>UUID.bytes\<close>, and the generic
  lemmas on lists and results that the component theories use.

  Conventions. A Python function that can raise returns \<open>'e + 'a\<close> with \<open>Inl\<close> for the
  exception. A method that mutates its object takes the object as a record and returns it
  next to the result, also when it raises, because the mutations that precede a raise stay
  visible. Guards of the form \<^verbatim>\<open>type(x) is not T\<close> are discharged by the HOL types, except
  where a caller can supply several types that the code treats differently.
\<close>

named_theorems defs \<open>definitions of small operations that proofs unfold together\<close>

subsection \<open>Exceptions, bytes, identifiers\<close>

datatype py_error =
    PermissionError string
  | ValueError string
  | TypeError string
  | RuntimeError string
  | OverflowError string

type_synonym 'a py = "py_error + 'a"

type_synonym byte = "8 word"
type_synonym bytes = "byte list"

text \<open>A \<^verbatim>\<open>uuid.UUID\<close> is a 128-bit number; its text order is the order of the numbers.\<close>

type_synonym uuid = "128 word"

text \<open>
  Stored instants. \<^verbatim>\<open>utc_storage\<close> writes every instant as fixed-width UTC text with six
  fractional digits, and the tables constrain that shape, so text order is the order of the
  number of microseconds; the model keeps that number.
\<close>

type_synonym instant = int

subsection \<open>Results\<close>

lemma sum_case_Inl_cong [simp]:
  "(case (Inl e :: 'e + 'a) of Inl x \<Rightarrow> f x | Inr y \<Rightarrow> g y) = f e"
  by simp

lemma case_res_eq_Inr:
  "(case r of Inl e \<Rightarrow> Inl e | Inr x \<Rightarrow> f x) = Inr y \<longleftrightarrow> (\<exists>x. r = Inr x \<and> f x = Inr y)"
  by (cases r) auto

text \<open>Sequencing of calls that may raise, and a guard that raises unless its condition holds.\<close>

definition bindE :: "'e + 'a \<Rightarrow> ('a \<Rightarrow> 'e + 'b) \<Rightarrow> 'e + 'b" where
  "bindE r f = (case r of Inl e \<Rightarrow> Inl e | Inr x \<Rightarrow> f x)"

definition require :: "bool \<Rightarrow> 'e \<Rightarrow> 'e + unit" where
  "require b e = (if b then Inr () else Inl e)"

lemma bindE_simps [simp]: "bindE (Inl e) f = Inl e" "bindE (Inr x) f = f x"
  by (simp_all add: bindE_def)

lemma bindE_eq_Inr: "bindE r f = Inr y \<longleftrightarrow> (\<exists>x. r = Inr x \<and> f x = Inr y)"
  by (cases r) simp_all

lemma bindE_eq_Inl: "bindE r f = Inl e \<longleftrightarrow> r = Inl e \<or> (\<exists>x. r = Inr x \<and> f x = Inl e)"
  by (cases r) simp_all

lemma require_eq [simp]:
  "require b e = Inr u \<longleftrightarrow> b" "require b e = Inl e' \<longleftrightarrow> \<not> b \<and> e' = e" "require True e = Inr ()"
  by (auto simp: require_def)

text \<open>A condition on a nullable column.\<close>

definition null_or :: "('a \<Rightarrow> bool) \<Rightarrow> 'a option \<Rightarrow> bool" where
  "null_or P x = (case x of None \<Rightarrow> True | Some y \<Rightarrow> P y)"

lemma null_or_simps [simp]: "null_or P None" "null_or P (Some y) = P y"
  by (simp_all add: null_or_def)

subsection \<open>Big-endian unsigned integers\<close>

text \<open>
  \<^verbatim>\<open>be_bytes k n\<close> is the \<open>k\<close>-byte big-endian image of \<open>n\<close>, what \<^verbatim>\<open>struct.pack\<close> writes for
  \<^verbatim>\<open>>B\<close>, \<^verbatim>\<open>>H\<close>, \<^verbatim>\<open>>I\<close> and \<^verbatim>\<open>UUID.bytes\<close> for sixteen bytes.
\<close>

fun be_bytes :: "nat \<Rightarrow> nat \<Rightarrow> bytes" where
  "be_bytes 0 n = []"
| "be_bytes (Suc k) n = be_bytes k (n div 256) @ [word_of_nat (n mod 256)]"

lemmas be_bytes_numeral = be_bytes.simps(2) [of "pred_numeral k", folded numeral_eq_Suc] for k

definition be_nat :: "bytes \<Rightarrow> nat" where
  "be_nat bs = foldl (\<lambda>acc b. acc * 256 + unat b) 0 bs"

lemma be_nat_Nil [simp]: "be_nat [] = 0"
  by (simp add: be_nat_def)

lemma be_nat_snoc [simp]: "be_nat (bs @ [b]) = be_nat bs * 256 + unat b"
  by (simp add: be_nat_def)

lemma length_be_bytes [simp]: "length (be_bytes k n) = k"
  by (induction k arbitrary: n) auto

lemma unat_byte_of_nat [simp]: "unat (word_of_nat (n mod 256) :: byte) = n mod 256"
  by (simp add: unsigned_of_nat take_bit_eq_mod)

lemma unat_byte_less [simp]: "unat (b :: byte) < 256"
  using unsigned_less [of b] by simp

lemma be_nat_be_bytes: "be_nat (be_bytes k n) = n mod 256 ^ k"
proof (induction k arbitrary: n)
  case 0
  then show ?case by simp
next
  case (Suc k)
  have "be_nat (be_bytes (Suc k) n) = (n div 256 mod 256 ^ k) * 256 + n mod 256"
    by (simp add: Suc.IH)
  also have "\<dots> = n mod (256 * 256 ^ k)"
    by (simp add: mod_mult2_eq ac_simps)
  finally show ?case by simp
qed

lemma be_nat_be_bytes_id: "n < 256 ^ k \<Longrightarrow> be_nat (be_bytes k n) = n"
  by (simp add: be_nat_be_bytes)

lemma be_nat_less: "be_nat bs < 256 ^ length bs"
proof (induction bs rule: rev_induct)
  case Nil
  then show ?case by simp
next
  case (snoc b bs)
  have "be_nat bs * 256 + unat b < be_nat bs * 256 + 256" by simp
  also have "\<dots> = (be_nat bs + 1) * 256" by simp
  also have "\<dots> \<le> 256 ^ length bs * 256"
    using snoc.IH by (intro mult_right_mono) auto
  finally show ?case by simp
qed

lemma be_bytes_be_nat: "length bs = k \<Longrightarrow> be_bytes k (be_nat bs) = bs"
proof (induction bs arbitrary: k rule: rev_induct)
  case Nil
  then show ?case by simp
next
  case (snoc b bs)
  then obtain j where k: "k = Suc j" and j: "length bs = j" by auto
  have d: "(be_nat bs * 256 + unat b) div 256 = be_nat bs"
    by (simp add: div_add1_eq [of "be_nat bs * 256"])
  have m: "(be_nat bs * 256 + unat b) mod 256 = unat b" by (simp add: mod_add_eq)
  show ?case using snoc.IH [OF j] by (simp add: k d m)
qed

subsection \<open>Lists\<close>

lemma take_min_length [simp]: "take (min n (length xs)) xs = take n xs"
  by (simp add: min_def)

lemma drop_min_length [simp]: "drop (min n (length xs)) xs = drop n xs"
  by (simp add: min_def)

lemma count_filter_le: "length (filter P xs) \<le> length xs"
  by simp

lemma sum_list_filter_le:
  "(\<And>x. x \<in> set xs \<Longrightarrow> (0::int) \<le> f x) \<Longrightarrow> sum_list (map f (filter P xs)) \<le> sum_list (map f xs)"
proof (induction xs)
  case (Cons a xs)
  then have "sum_list (map f (filter P xs)) \<le> sum_list (map f xs)" and "0 \<le> f a" by auto
  then show ?case by simp
qed simp

end
