(* ===== verification/Contract_Json.thy ===== *)
theory Contract_Json
  imports Prelude
begin

text \<open>
  The untrusted-JSON ingress of \<^verbatim>\<open>tuntun_contracts/base.py\<close>: the bounded shape scan that
  runs before parsing, the hooks that bound integers and decimals and refuse duplicate keys,
  and the two entry points \<^verbatim>\<open>parse_bounded_json_value\<close> and \<^verbatim>\<open>parse_contract_json\<close>.
  The standard library is modelled: strict UTF-8 decoding, the grammar of \<^verbatim>\<open>json.loads\<close>
  (CPython's C scanner with its hooks) and the exponent range in which \<^verbatim>\<open>Decimal(text)\<close>
  converts instead of raising \<^verbatim>\<open>decimal.InvalidOperation\<close>. Schema validation (pydantic) and
  canonical printing (rfc8785) are third-party code and are parameters.
\<close>

text \<open>A text is the list of its code points.\<close>

type_synonym text_str = "nat list"

definition JCS_MAX_SAFE_INTEGER :: int where
  "JCS_MAX_SAFE_INTEGER = 2 ^ 53 - 1"

definition is_jcs_safe_integer :: "int \<Rightarrow> bool" where
  "is_jcs_safe_integer n \<longleftrightarrow> - JCS_MAX_SAFE_INTEGER \<le> n \<and> n \<le> JCS_MAX_SAFE_INTEGER"

subsection \<open>Strict UTF-8\<close>

definition cont_byte :: "byte \<Rightarrow> bool" where
  "cont_byte b \<longleftrightarrow> 128 \<le> unat b \<and> unat b < 192"

fun utf8_decode :: "bytes \<Rightarrow> text_str option" where
  "utf8_decode [] = Some []"
| "utf8_decode (b # r) =
     (let c = unat b in
      if c < 128 then map_option (Cons c) (utf8_decode r)
      else if c < 194 then None
      else if c < 224 then
        (case r of b1 # r1 \<Rightarrow>
           if cont_byte b1 then map_option (Cons ((c - 192) * 64 + (unat b1 - 128))) (utf8_decode r1)
           else None
         | [] \<Rightarrow> None)
      else if c < 240 then
        (case r of b1 # b2 # r2 \<Rightarrow>
           (let p = (c - 224) * 4096 + (unat b1 - 128) * 64 + (unat b2 - 128) in
            if cont_byte b1 \<and> cont_byte b2 \<and> 2048 \<le> p \<and> \<not> (55296 \<le> p \<and> p < 57344)
            then map_option (Cons p) (utf8_decode r2) else None)
         | _ \<Rightarrow> None)
      else if c < 245 then
        (case r of b1 # b2 # b3 # r3 \<Rightarrow>
           (let p = (c - 240) * 262144 + (unat b1 - 128) * 4096 + (unat b2 - 128) * 64
                    + (unat b3 - 128) in
            if cont_byte b1 \<and> cont_byte b2 \<and> cont_byte b3 \<and> 65536 \<le> p \<and> p \<le> 1114111
            then map_option (Cons p) (utf8_decode r3) else None)
         | _ \<Rightarrow> None)
      else None)"

subsection \<open>The shape scan\<close>

record shape_scan =
  sc_depth :: nat
  sc_containers :: nat
  sc_tokens :: nat
  sc_in_string :: bool
  sc_escaped :: bool

definition shape_init :: shape_scan where
  "shape_init = \<lparr>sc_depth = 0, sc_containers = 0, sc_tokens = 1, sc_in_string = False,
                 sc_escaped = False\<rparr>"

definition shape_step ::
    "nat \<Rightarrow> nat \<Rightarrow> nat \<Rightarrow> nat \<Rightarrow> shape_scan \<Rightarrow> shape_scan option" where
  "shape_step max_depth max_containers max_tokens c s =
     (if sc_in_string s then
        (if sc_escaped s then Some (s\<lparr>sc_escaped := False\<rparr>)
         else if c = 92 then Some (s\<lparr>sc_escaped := True\<rparr>)
         else if c = 34 then Some (s\<lparr>sc_in_string := False\<rparr>)
         else Some s)
      else if c = 34 then Some (s\<lparr>sc_in_string := True\<rparr>)
      else if c = 91 \<or> c = 123 then
        (let s' = s\<lparr>sc_depth := sc_depth s + 1, sc_containers := sc_containers s + 1\<rparr> in
         if sc_depth s' > max_depth \<or> sc_containers s' > max_containers then None else Some s')
      else if c = 93 \<or> c = 125 then
        (if sc_depth s = 0 then None else Some (s\<lparr>sc_depth := sc_depth s - 1\<rparr>))
      else if c = 44 \<or> c = 58 then
        (let s' = s\<lparr>sc_tokens := sc_tokens s + 1\<rparr> in
         if sc_tokens s' > max_tokens then None else Some s')
      else Some s)"

fun shape_run :: "nat \<Rightarrow> nat \<Rightarrow> nat \<Rightarrow> text_str \<Rightarrow> shape_scan \<Rightarrow> shape_scan option" where
  "shape_run md mc mt [] s = Some s"
| "shape_run md mc mt (c # cs) s =
     (case shape_step md mc mt c s of None \<Rightarrow> None | Some s' \<Rightarrow> shape_run md mc mt cs s')"

definition require_bounded_json_shape :: "nat \<Rightarrow> nat \<Rightarrow> nat \<Rightarrow> text_str \<Rightarrow> bool" where
  "require_bounded_json_shape md mc mt cs =
     (case shape_run md mc mt cs shape_init of
        None \<Rightarrow> False
      | Some s \<Rightarrow> \<not> sc_in_string s \<and> sc_depth s = 0)"

subsection \<open>Values and failures\<close>

datatype json =
    JNull
  | JBool bool
  | JInt int
  | JDec bool nat int
  | JStr text_str
  | JList "json list"
  | JObj "(text_str \<times> json) list"

text \<open>
  \<open>Hostile\<close> covers the exceptions the entry point turns into \<^verbatim>\<open>ContractParseError\<close>
  (\<^verbatim>\<open>JSONDecodeError\<close>, \<^verbatim>\<open>_HostileJSONError\<close>); \<open>Decimal_InvalidOperation\<close> is an
  \<^verbatim>\<open>ArithmeticError\<close>, which its handler does not name; \<open>Fuel\<close> is the recursion bound of the
  model and never occurs, as proved below.
\<close>

datatype json_failure = Hostile | Decimal_InvalidOperation | Fuel

subsection \<open>Number hooks\<close>

definition digit :: "nat \<Rightarrow> bool" where
  "digit c \<longleftrightarrow> 48 \<le> c \<and> c \<le> 57"

definition digits_value :: "text_str \<Rightarrow> nat" where
  "digits_value ds = foldl (\<lambda>acc c. acc * 10 + (c - 48)) 0 ds"

definition bounded_json_int :: "bool \<Rightarrow> text_str \<Rightarrow> json_failure + json" where
  "bounded_json_int neg ds =
     (if length ds > 16 then Inl Hostile
      else let n = (if neg then - int (digits_value ds) else int (digits_value ds)) in
        if is_jcs_safe_integer n then Inr (JInt n) else Inl Hostile)"

text \<open>\<^verbatim>\<open>decimal.MAX_EMAX\<close> and \<^verbatim>\<open>decimal.MIN_ETINY\<close> of a 64-bit build.\<close>

definition MAX_EMAX :: int where
  "MAX_EMAX = 999999999999999999"

definition MIN_ETINY :: int where
  "MIN_ETINY = - 1999999999999999997"

definition decimal_digits :: "text_str \<Rightarrow> nat" where
  "decimal_digits ds = (let s = dropWhile (\<lambda>c. c = 48) ds in if s = [] then 1 else length s)"

definition bounded_json_decimal ::
    "nat \<Rightarrow> bool \<Rightarrow> text_str \<Rightarrow> text_str \<Rightarrow> int \<Rightarrow> json_failure + json" where
  "bounded_json_decimal len neg ip fp ex =
     (if len > 64 then Inl Hostile
      else let ds = ip @ fp;
               e = ex - int (length fp);
               adjusted = e + int (decimal_digits ds) - 1 in
        if adjusted > MAX_EMAX \<or> e < MIN_ETINY then Inl Decimal_InvalidOperation
        else if decimal_digits ds > 64 \<or> \<not> (-308 \<le> adjusted \<and> adjusted \<le> 308) then Inl Hostile
        else Inr (JDec neg (digits_value ds) e))"

definition unique_json_object :: "(text_str \<times> json) list \<Rightarrow> json_failure + json" where
  "unique_json_object ps = (if distinct (map fst ps) then Inr (JObj ps) else Inl Hostile)"

subsection \<open>The grammar of \<^verbatim>\<open>json.loads\<close>\<close>

definition ws_char :: "nat \<Rightarrow> bool" where
  "ws_char c \<longleftrightarrow> c = 32 \<or> c = 9 \<or> c = 10 \<or> c = 13"

definition skip_ws :: "text_str \<Rightarrow> text_str" where
  "skip_ws cs = dropWhile ws_char cs"

definition hex_value :: "nat \<Rightarrow> nat option" where
  "hex_value c =
     (if 48 \<le> c \<and> c \<le> 57 then Some (c - 48)
      else if 97 \<le> c \<and> c \<le> 102 then Some (c - 87)
      else if 65 \<le> c \<and> c \<le> 70 then Some (c - 55)
      else None)"

fun hex4 :: "text_str \<Rightarrow> (nat \<times> text_str) option" where
  "hex4 (a # b # c # d # r) =
     (case (hex_value a, hex_value b, hex_value c, hex_value d) of
        (Some w, Some x, Some y, Some z) \<Rightarrow> Some (((w * 16 + x) * 16 + y) * 16 + z, r)
      | _ \<Rightarrow> None)"
| "hex4 _ = None"

definition simple_escape :: "nat \<Rightarrow> nat option" where
  "simple_escape c =
     (if c = 34 \<or> c = 92 \<or> c = 47 then Some c
      else if c = 98 then Some 8 else if c = 102 then Some 12
      else if c = 110 then Some 10 else if c = 114 then Some 13
      else if c = 116 then Some 9 else None)"

text \<open>
  The body of a string after its opening quote, up to and including the closing one. A high
  surrogate escape joins a low surrogate escape that follows it; a lone one stays.
\<close>

definition unicode_escape :: "text_str \<Rightarrow> (nat \<times> text_str) option" where
  "unicode_escape r =
     (case hex4 r of
        None \<Rightarrow> None
      | Some (u, r1) \<Rightarrow>
          if 55296 \<le> u \<and> u \<le> 56319 \<and> take 2 r1 = [92, 117] then
            (case hex4 (drop 2 r1) of
               None \<Rightarrow> None
             | Some (u2, r2) \<Rightarrow>
                 if 56320 \<le> u2 \<and> u2 \<le> 57343
                 then Some (65536 + ((u - 55296) * 1024 + (u2 - 56320)), r2)
                 else Some (u, r1))
          else Some (u, r1))"

fun scan_string :: "nat \<Rightarrow> text_str \<Rightarrow> json_failure + text_str \<times> text_str" where
  "scan_string 0 cs = Inl Fuel"
| "scan_string (Suc f) [] = Inl Hostile"
| "scan_string (Suc f) (c # r) =
     (if c = 34 then Inr ([], r)
      else if c = 92 then
        (case r of
           [] \<Rightarrow> Inl Hostile
         | e # r1 \<Rightarrow>
             (if e = 117 then
                (case unicode_escape r1 of
                   None \<Rightarrow> Inl Hostile
                 | Some (u, r2) \<Rightarrow>
                     (case scan_string f r2 of
                        Inl x \<Rightarrow> Inl x | Inr (s, r3) \<Rightarrow> Inr (u # s, r3)))
              else
                (case simple_escape e of
                   None \<Rightarrow> Inl Hostile
                 | Some u \<Rightarrow>
                     (case scan_string f r1 of
                        Inl x \<Rightarrow> Inl x | Inr (s, r3) \<Rightarrow> Inr (u # s, r3)))))
      else if c < 32 then Inl Hostile
      else (case scan_string f r of Inl x \<Rightarrow> Inl x | Inr (s, r3) \<Rightarrow> Inr (c # s, r3)))"

text \<open>\<open>-?(0|[1-9][0-9]*)\<close>, then an optional fraction, then an optional exponent.\<close>

definition scan_int_part :: "text_str \<Rightarrow> (text_str \<times> text_str) option" where
  "scan_int_part cs =
     (case cs of
        [] \<Rightarrow> None
      | c # r \<Rightarrow>
          if c = 48 then Some ([48], r)
          else if digit c then Some (takeWhile digit cs, dropWhile digit cs)
          else None)"

definition scan_frac :: "text_str \<Rightarrow> text_str \<times> text_str" where
  "scan_frac cs =
     (if take 1 cs = [46] \<and> takeWhile digit (drop 1 cs) \<noteq> []
      then (takeWhile digit (drop 1 cs), dropWhile digit (drop 1 cs))
      else ([], cs))"

definition scan_exp :: "text_str \<Rightarrow> (bool \<times> text_str \<times> text_str) option" where
  "scan_exp cs =
     (case cs of
        [] \<Rightarrow> None
      | e # r \<Rightarrow>
          if e = 101 \<or> e = 69 then
            (let neg = (take 1 r = [45]);
                 r1 = (if take 1 r = [45] \<or> take 1 r = [43] then drop 1 r else r) in
             if takeWhile digit r1 = [] then None
             else Some (neg, takeWhile digit r1, dropWhile digit r1))
          else None)"

definition scan_number :: "text_str \<Rightarrow> json_failure + json \<times> text_str" where
  "scan_number cs =
     (let neg = (take 1 cs = [45]); cs1 = (if neg then drop 1 cs else cs) in
      case scan_int_part cs1 of
        None \<Rightarrow> Inl Hostile
      | Some (ip, r1) \<Rightarrow>
          (let (fp, r2) = scan_frac r1 in
           case scan_exp r2 of
             None \<Rightarrow>
               if fp = [] then map_sum id (\<lambda>v. (v, r2)) (bounded_json_int neg ip)
               else map_sum id (\<lambda>v. (v, r2))
                      (bounded_json_decimal (length cs - length r2) neg ip fp 0)
           | Some (en, ed, r3) \<Rightarrow>
               map_sum id (\<lambda>v. (v, r3))
                 (bounded_json_decimal (length cs - length r3) neg ip fp
                    (if en then - int (digits_value ed) else int (digits_value ed)))))"

definition strip_literal :: "text_str \<Rightarrow> text_str \<Rightarrow> text_str option" where
  "strip_literal l cs = (if take (length l) cs = l then Some (drop (length l) cs) else None)"

definition LIT_null :: text_str where "LIT_null = [110, 117, 108, 108]"
definition LIT_true :: text_str where "LIT_true = [116, 114, 117, 101]"
definition LIT_false :: text_str where "LIT_false = [102, 97, 108, 115, 101]"

text \<open>
  \<^verbatim>\<open>NaN\<close>, \<^verbatim>\<open>Infinity\<close> and \<^verbatim>\<open>-Infinity\<close> reach \<^verbatim>\<open>_reject_json_constant\<close>, which raises the hostile
  error; the number branch gives the same failure for those texts.
\<close>

fun scan_value :: "nat \<Rightarrow> text_str \<Rightarrow> json_failure + json \<times> text_str"
  and scan_elems :: "nat \<Rightarrow> text_str \<Rightarrow> json_failure + json list \<times> text_str"
  and scan_members :: "nat \<Rightarrow> text_str \<Rightarrow> json_failure + (text_str \<times> json) list \<times> text_str" where
  "scan_value 0 cs = Inl Fuel"
| "scan_value (Suc f) cs =
     (case cs of
        [] \<Rightarrow> Inl Hostile
      | c # r \<Rightarrow>
          if c = 34 then map_sum id (\<lambda>(s, r'). (JStr s, r')) (scan_string f r)
          else if c = 123 then
            (if take 1 (skip_ws r) = [125] then Inr (JObj [], drop 1 (skip_ws r))
             else (case scan_members f (skip_ws r) of
                     Inl x \<Rightarrow> Inl x
                   | Inr (ps, r') \<Rightarrow> map_sum id (\<lambda>v. (v, r')) (unique_json_object ps)))
          else if c = 91 then
            (if take 1 (skip_ws r) = [93] then Inr (JList [], drop 1 (skip_ws r))
             else map_sum id (\<lambda>(vs, r'). (JList vs, r')) (scan_elems f (skip_ws r)))
          else (case (strip_literal LIT_null cs, strip_literal LIT_true cs,
                      strip_literal LIT_false cs) of
                  (Some r', _, _) \<Rightarrow> Inr (JNull, r')
                | (None, Some r', _) \<Rightarrow> Inr (JBool True, r')
                | (None, None, Some r') \<Rightarrow> Inr (JBool False, r')
                | (None, None, None) \<Rightarrow> scan_number cs))"
| "scan_elems 0 cs = Inl Fuel"
| "scan_elems (Suc f) cs =
     (case scan_value f cs of
        Inl x \<Rightarrow> Inl x
      | Inr (v, r) \<Rightarrow>
          (case skip_ws r of
             [] \<Rightarrow> Inl Hostile
           | c # r1 \<Rightarrow>
               if c = 93 then Inr ([v], r1)
               else if c = 44 then
                 map_sum id (\<lambda>(vs, r'). (v # vs, r')) (scan_elems f (skip_ws r1))
               else Inl Hostile))"
| "scan_members 0 cs = Inl Fuel"
| "scan_members (Suc f) cs =
     (case cs of
        [] \<Rightarrow> Inl Hostile
      | q # r \<Rightarrow>
          if q \<noteq> 34 then Inl Hostile
          else (case scan_string f r of
                  Inl x \<Rightarrow> Inl x
                | Inr (k, r1) \<Rightarrow>
                    (if take 1 (skip_ws r1) \<noteq> [58] then Inl Hostile
                     else (case scan_value f (skip_ws (drop 1 (skip_ws r1))) of
                             Inl x \<Rightarrow> Inl x
                           | Inr (v, r2) \<Rightarrow>
                               (case skip_ws r2 of
                                  [] \<Rightarrow> Inl Hostile
                                | c # r3 \<Rightarrow>
                                    if c = 125 then Inr ([(k, v)], r3)
                                    else if c = 44 then
                                      map_sum id (\<lambda>(ps, r'). ((k, v) # ps, r'))
                                        (scan_members f (skip_ws r3))
                                    else Inl Hostile)))))"

definition json_loads :: "text_str \<Rightarrow> json_failure + json" where
  "json_loads cs =
     (if take 1 cs = [65279] then Inl Hostile
      else case scan_value (2 * length cs + 1) (skip_ws cs) of
             Inl x \<Rightarrow> Inl x
           | Inr (v, r) \<Rightarrow> if skip_ws r = [] then Inr v else Inl Hostile)"

subsection \<open>Entry points\<close>

datatype parse_failure = ContractParseError | ConfigValueError | Uncaught_InvalidOperation

definition parse_bounded_json_value ::
    "nat \<Rightarrow> nat \<Rightarrow> nat \<Rightarrow> nat \<Rightarrow> bytes \<Rightarrow> parse_failure + json" where
  "parse_bounded_json_value max_bytes max_depth max_containers max_tokens raw =
     (if \<not> (1 \<le> max_bytes \<and> max_bytes \<le> 8388608 \<and> 1 \<le> max_depth \<and> max_depth \<le> 32
            \<and> 1 \<le> max_containers \<and> max_containers \<le> 4096
            \<and> 1 \<le> max_tokens \<and> max_tokens \<le> 16384) then Inl ConfigValueError
      else if \<not> (1 \<le> length raw \<and> length raw \<le> max_bytes) then Inl ContractParseError
      else case utf8_decode raw of
             None \<Rightarrow> Inl ContractParseError
           | Some cs \<Rightarrow>
               if \<not> require_bounded_json_shape max_depth max_containers max_tokens cs
               then Inl ContractParseError
               else (case json_loads cs of
                       Inr v \<Rightarrow> Inr v
                     | Inl Decimal_InvalidOperation \<Rightarrow> Inl Uncaught_InvalidOperation
                     | Inl _ \<Rightarrow> Inl ContractParseError))"

text \<open>
  \<open>validate\<close> is pydantic's \<^verbatim>\<open>model_validate_json(raw, strict=True)\<close> (\<open>None\<close> for its
  \<^verbatim>\<open>ValidationError\<close>) and \<open>canon\<close> is \<^verbatim>\<open>canonical_bytes\<close>.
\<close>

definition parse_contract_json ::
    "(bytes \<Rightarrow> 'm option) \<Rightarrow> ('m \<Rightarrow> bytes) \<Rightarrow> nat \<Rightarrow> bool \<Rightarrow> bytes \<Rightarrow> parse_failure + 'm" where
  "parse_contract_json validate canon max_bytes require_canonical raw =
     (case parse_bounded_json_value max_bytes 32 4096 16384 raw of
        Inl x \<Rightarrow> Inl x
      | Inr _ \<Rightarrow>
          (case validate raw of
             None \<Rightarrow> Inl ContractParseError
           | Some m \<Rightarrow>
               if require_canonical \<and> canon m \<noteq> raw then Inl ContractParseError else Inr m))"

subsection \<open>The recursion bound is never reached\<close>

lemma length_skip_ws [simp]: "length (skip_ws cs) \<le> length cs"
  by (simp add: skip_ws_def length_dropWhile_le)

lemma length_dropWhile_strict: "takeWhile P xs \<noteq> [] \<Longrightarrow> length (dropWhile P xs) < length xs"
  by (cases xs) (auto simp: length_dropWhile_le less_Suc_eq_le split: if_splits)

lemma hex4_length: "hex4 r = Some (u, r1) \<Longrightarrow> length r1 < length r"
  by (induction r rule: hex4.induct) (auto split: option.splits)

lemma unicode_escape_length: "unicode_escape r = Some (u, r1) \<Longrightarrow> length r1 < length r"
  by (auto simp: unicode_escape_def split: option.splits if_splits dest!: hex4_length)

lemma scan_string_length: "scan_string f cs = Inr (s, r) \<Longrightarrow> length r < length cs"
proof (induction f cs arbitrary: s r rule: scan_string.induct)
  case (3 f c cs)
  then show ?case
    by (fastforce split: if_splits list.splits option.splits sum.splits dest: unicode_escape_length)
qed auto

lemma scan_string_no_fuel: "length cs < f \<Longrightarrow> scan_string f cs \<noteq> Inl Fuel"
proof (induction f cs rule: scan_string.induct)
  case (3 f c cs)
  then show ?case
    by (fastforce split: if_splits list.splits option.splits sum.splits dest: unicode_escape_length)
qed auto

lemma scan_number_length:
  assumes "scan_number cs = Inr (v, r)"
  shows "length r < length cs"
proof -
  define cs1 where "cs1 = (if take 1 cs = [45] then drop 1 cs else cs)"
  have le: "length cs1 \<le> length cs" by (simp add: cs1_def)
  obtain ip r1 where ip: "scan_int_part cs1 = Some (ip, r1)"
    using assms by (auto simp: scan_number_def Let_def cs1_def split: option.splits)
  have r1: "length r1 < length cs1"
    using ip length_dropWhile_strict [of digit cs1]
    by (auto simp: scan_int_part_def split: list.splits if_splits)
  obtain fp r2 where fp: "scan_frac r1 = (fp, r2)" by (cases "scan_frac r1")
  have r2: "length r2 \<le> length r1"
    using fp length_dropWhile_le [of digit "drop 1 r1"]
    by (auto simp: scan_frac_def split: if_splits)
  have ex: "length r3 \<le> length r2" if "scan_exp r2 = Some (en, ed, r3)" for en ed r3
    using that by (auto simp: scan_exp_def Let_def split: list.splits if_splits
        intro: le_trans [OF length_dropWhile_le])
  have "r = r2 \<or> (\<exists>en ed. scan_exp r2 = Some (en, ed, r))"
    using assms ip fp
    by (auto simp: scan_number_def Let_def cs1_def map_sum_def
        split: option.splits sum.splits if_splits)
  then show ?thesis using le r1 r2 ex by fastforce
qed

lemma bounded_json_no_fuel [simp]:
  "bounded_json_int neg ds \<noteq> Inl Fuel" "bounded_json_decimal n neg ip fp e \<noteq> Inl Fuel"
  by (simp_all add: bounded_json_int_def bounded_json_decimal_def Let_def)

lemma map_sum_eq_Inl [simp]: "map_sum id g x = Inl e \<longleftrightarrow> x = Inl e"
  by (cases x) auto

lemma scan_number_no_fuel: "scan_number cs \<noteq> Inl Fuel"
  by (simp add: scan_number_def Let_def split: option.split prod.split)

lemma strip_literal_length: "strip_literal l cs = Some r \<Longrightarrow> l \<noteq> [] \<Longrightarrow> length r < length cs"
  by (cases cs) (auto simp: strip_literal_def split: if_splits)

lemma skip_ws_take1: "take 1 (skip_ws r) = [c] \<Longrightarrow> \<exists>r1. skip_ws r = c # r1"
  by (cases "skip_ws r") auto

lemma skip_ws_Cons: "skip_ws r = c # r1 \<Longrightarrow> length r1 < length r"
  using length_skip_ws [of r] by simp

lemma length_skip_ws_drop: "length (skip_ws (drop 1 (skip_ws r))) \<le> length r"
  using length_skip_ws [of r] length_skip_ws [of "drop 1 (skip_ws r)"] unfolding length_drop by linarith

lemma scan_elems_cases:
  assumes "scan_elems (Suc f) cs = Inr (vs, r)"
  obtains (last) v r0 where "scan_value f cs = Inr (v, r0)" "skip_ws r0 = 93 # r" "vs = [v]"
  | (more) v r0 r1 vs' where "scan_value f cs = Inr (v, r0)" "skip_ws r0 = 44 # r1"
      "scan_elems f (skip_ws r1) = Inr (vs', r)" "vs = v # vs'"
proof -
  obtain v r0 c r1 where v: "scan_value f cs = Inr (v, r0)" "skip_ws r0 = c # r1"
    using assms by (simp split: sum.splits list.splits prod.splits)
  from assms v have "c = 93 \<and> vs = [v] \<and> r1 = r
      \<or> c = 44 \<and> (\<exists>vs'. scan_elems f (skip_ws r1) = Inr (vs', r) \<and> vs = v # vs')"
    by (auto simp: map_sum_def split: sum.splits if_splits)
  then show thesis using v last more by blast
qed

lemma scan_members_cases:
  assumes "scan_members (Suc f) cs = Inr (ps, r)"
  obtains (last) q k r1 r2 v r3 where "cs = 34 # q" "scan_string f q = Inr (k, r1)"
      "skip_ws r1 = 58 # r2" "scan_value f (skip_ws r2) = Inr (v, r3)" "skip_ws r3 = 125 # r"
      "ps = [(k, v)]"
  | (more) q k r1 r2 v r3 r4 ps' where "cs = 34 # q" "scan_string f q = Inr (k, r1)"
      "skip_ws r1 = 58 # r2" "scan_value f (skip_ws r2) = Inr (v, r3)" "skip_ws r3 = 44 # r4"
      "scan_members f (skip_ws r4) = Inr (ps', r)" "ps = (k, v) # ps'"
proof -
  obtain c q where c: "cs = c # q" using assms by (cases cs) simp_all
  have "c = 34" by (rule ccontr) (use assms c in simp)
  with c have q: "cs = 34 # q" by simp
  obtain k r1 where k: "scan_string f q = Inr (k, r1)"
    by (cases "scan_string f q") (use assms q in auto)
  have "take 1 (skip_ws r1) = [58]" by (rule ccontr) (use assms q k in simp)
  from skip_ws_take1 [OF this] obtain r2 where b: "skip_ws r1 = 58 # r2" by blast
  obtain v r3 where v: "scan_value f (skip_ws r2) = Inr (v, r3)"
    by (cases "scan_value f (skip_ws r2)") (use assms q k b in auto)
  obtain d r4 where d: "skip_ws r3 = d # r4"
    by (cases "skip_ws r3") (use assms q k b v in simp_all)
  have e: "(if d = 125 then Inr ([(k, v)], r4)
      else if d = 44 then map_sum id (\<lambda>(ps, r'). ((k, v) # ps, r')) (scan_members f (skip_ws r4))
      else Inl Hostile) = Inr (ps, r)"
    using assms by (simp add: q k b v d)
  show thesis
  proof (cases "d = 125")
    case True
    with e show thesis using last [OF q k b v] d by simp
  next
    case False
    with e have "d = 44" by (simp split: if_splits)
    moreover from this e obtain ps' where "scan_members f (skip_ws r4) = Inr (ps', r)" "ps = (k, v) # ps'"
      by (cases "scan_members f (skip_ws r4)") auto
    ultimately show thesis using more [OF q k b v] d by simp
  qed
qed

lemma scan_value_cases:
  assumes "scan_value (Suc f) cs = Inr (v, r)"
  obtains (str) q s where "cs = 34 # q" "scan_string f q = Inr (s, r)" "v = JStr s"
  | (obj0) q where "cs = 123 # q" "skip_ws q = 125 # r" "v = JObj []"
  | (obj) q ps where "cs = 123 # q" "scan_members f (skip_ws q) = Inr (ps, r)" "v = JObj ps"
      "distinct (map fst ps)"
  | (list0) q where "cs = 91 # q" "skip_ws q = 93 # r" "v = JList []"
  | (list) q vs where "cs = 91 # q" "scan_elems f (skip_ws q) = Inr (vs, r)" "v = JList vs"
  | (lit) l where "l \<in> {LIT_null, LIT_true, LIT_false}" "strip_literal l cs = Some r"
      "v \<in> {JNull, JBool True, JBool False}"
  | (num) "scan_number cs = Inr (v, r)"
proof -
  obtain c q where cs: "cs = c # q" using assms by (cases cs) auto
  consider "c = 34" | "c = 123" "take 1 (skip_ws q) = [125]" | "c = 123" "take 1 (skip_ws q) \<noteq> [125]"
    | "c = 91" "take 1 (skip_ws q) = [93]" | "c = 91" "take 1 (skip_ws q) \<noteq> [93]"
    | "c \<noteq> 34" "c \<noteq> 123" "c \<noteq> 91" by blast
  then show thesis
  proof cases
    case 1
    with assms cs have "\<exists>s. scan_string f q = Inr (s, r) \<and> v = JStr s"
      by (auto simp: map_sum_def split: sum.splits)
    with 1 cs str show thesis by blast
  next
    case 2
    then obtain r1 where "skip_ws q = 125 # r1" using skip_ws_take1 by blast
    with 2 assms cs obj0 show thesis by simp
  next
    case 3
    with assms cs have "\<exists>ps. scan_members f (skip_ws q) = Inr (ps, r) \<and> v = JObj ps
        \<and> distinct (map fst ps)"
      by (auto simp: map_sum_def unique_json_object_def split: sum.splits if_splits)
    with 3 cs obj show thesis by blast
  next
    case 4
    then obtain r1 where "skip_ws q = 93 # r1" using skip_ws_take1 by blast
    with 4 assms cs list0 show thesis by simp
  next
    case 5
    with assms cs have "\<exists>vs. scan_elems f (skip_ws q) = Inr (vs, r) \<and> v = JList vs"
      by (auto simp: map_sum_def split: sum.splits)
    with 5 cs list show thesis by blast
  next
    case 6
    with assms cs have "(\<exists>l. l \<in> {LIT_null, LIT_true, LIT_false} \<and> strip_literal l cs = Some r
        \<and> v \<in> {JNull, JBool True, JBool False}) \<or> scan_number cs = Inr (v, r)"
      by (auto split: option.splits)
    with lit num show thesis by blast
  qed
qed

lemma scan_length:
  "scan_value f cs = Inr (v, r) \<Longrightarrow> length r < length cs"
  "scan_elems f cs = Inr (vs, r) \<Longrightarrow> length r < length cs"
  "scan_members f cs = Inr (ps, r) \<Longrightarrow> length r < length cs"
proof (induction f arbitrary: cs v r vs ps)
  case (Suc f)
  {
    case 1
    from this show ?case
    proof (cases rule: scan_value_cases)
      case (str q s)
      from scan_string_length [OF str(2)] show ?thesis by (simp add: str(1))
    next
      case (obj0 q)
      from skip_ws_Cons [OF obj0(2)] show ?thesis by (simp add: obj0(1))
    next
      case (obj q ps)
      from Suc.IH(3) [OF obj(2)] length_skip_ws [of q] show ?thesis unfolding obj(1) list.size by linarith
    next
      case (list0 q)
      from skip_ws_Cons [OF list0(2)] show ?thesis by (simp add: list0(1))
    next
      case (list q vs)
      from Suc.IH(2) [OF list(2)] length_skip_ws [of q] show ?thesis unfolding list(1) list.size by linarith
    next
      case (lit l)
      then have "l \<noteq> []" by (auto simp: LIT_null_def LIT_true_def LIT_false_def)
      from strip_literal_length [OF lit(2) this] show ?thesis .
    next
      case num
      then show ?thesis by (rule scan_number_length)
    qed
  next
    case 2
    from this show ?case
    proof (cases rule: scan_elems_cases)
      case (last v r0)
      from Suc.IH(1) [OF last(1)] skip_ws_Cons [OF last(2)] show ?thesis by linarith
    next
      case (more v r0 r1 vs')
      from Suc.IH(1) [OF more(1)] Suc.IH(2) [OF more(3)] skip_ws_Cons [OF more(2)] length_skip_ws [of r1]
      show ?thesis by linarith
    qed
  next
    case 3
    from this show ?case
    proof (cases rule: scan_members_cases)
      case (last q k r1 r2 v r3)
      from scan_string_length [OF last(2)] skip_ws_Cons [OF last(3)] Suc.IH(1) [OF last(4)]
        length_skip_ws [of r2] skip_ws_Cons [OF last(5)]
      show ?thesis unfolding last(1) list.size by linarith
    next
      case (more q k r1 r2 v r3 r4 ps')
      from scan_string_length [OF more(2)] skip_ws_Cons [OF more(3)] Suc.IH(1) [OF more(4)]
        length_skip_ws [of r2] skip_ws_Cons [OF more(5)] Suc.IH(3) [OF more(6)] length_skip_ws [of r4]
      show ?thesis unfolding more(1) list.size by linarith
    qed
  }
qed simp_all

lemma scan_no_fuel:
  "2 * length cs + 1 \<le> f \<Longrightarrow> scan_value f cs \<noteq> Inl Fuel"
  "2 * length cs + 2 \<le> f \<Longrightarrow> scan_elems f cs \<noteq> Inl Fuel"
  "2 * length cs + 2 \<le> f \<Longrightarrow> scan_members f cs \<noteq> Inl Fuel"
proof (induction f arbitrary: cs)
  case (Suc f)
  {
    case 1
    show ?case
    proof (cases cs)
      case (Cons c q)
      have len: "length cs = Suc (length q)" by (simp add: Cons)
      have "length q < f" using 1 Cons by simp
      note s = scan_string_no_fuel [OF this]
      have "2 * length (skip_ws q) + 2 \<le> f" using 1 length_skip_ws [of q] using len by linarith
      note e = Suc.IH(2) [OF this] and m = Suc.IH(3) [OF this]
      from m have "(case scan_members f (skip_ws q) of Inl x \<Rightarrow> Inl x
          | Inr (ps, r') \<Rightarrow> map_sum id (\<lambda>v. (v, r')) (unique_json_object ps)) \<noteq> Inl Fuel"
        by (auto simp: unique_json_object_def split: sum.split)
      with s e scan_number_no_fuel show ?thesis
        unfolding Cons by (auto split: option.split)
    qed simp
  next
    case 2
    show ?case
    proof (cases "scan_value f cs")
      case (Inl x)
      with Suc.IH(1) [of cs] 2 show ?thesis by simp
    next
      case (Inr p)
      obtain v r where p: "scan_value f cs = Inr (v, r)" using Inr by (cases p) auto
      have "scan_elems f (skip_ws r1) \<noteq> Inl Fuel" if "skip_ws r = c # r1" for c r1
      proof (rule Suc.IH(2))
        show "2 * length (skip_ws r1) + 2 \<le> f"
          using scan_length(1) [OF p] skip_ws_Cons [OF that] length_skip_ws [of r1] 2 by linarith
      qed
      then show ?thesis by (simp add: p split: list.split)
    qed
  next
    case 3
    show ?case
    proof (cases cs)
      case (Cons c q)
      have len: "length cs = Suc (length q)" by (simp add: Cons)
      have "length q < f" using 3 Cons by simp
      note s = scan_string_no_fuel [OF this]
      have v: "scan_value f (skip_ws (drop 1 (skip_ws r1))) \<noteq> Inl Fuel"
        if "scan_string f q = Inr (k, r1)" for k r1
      proof (rule Suc.IH(1))
        have "length (skip_ws (drop 1 (skip_ws r1))) \<le> length r1"
          by (rule length_skip_ws_drop)
        with scan_string_length [OF that] 3
        show "2 * length (skip_ws (drop 1 (skip_ws r1))) + 1 \<le> f" using len by linarith
      qed
      have m: "scan_members f (skip_ws r3) \<noteq> Inl Fuel"
        if "scan_string f q = Inr (k, r1)" "scan_value f (skip_ws (drop 1 (skip_ws r1))) = Inr (w, r2)"
          "skip_ws r2 = d # r3" for k r1 w r2 d r3
      proof (rule Suc.IH(3))
        have "length (skip_ws (drop 1 (skip_ws r1))) \<le> length r1"
          by (rule length_skip_ws_drop)
        with scan_string_length [OF that(1)] scan_length(1) [OF that(2)] skip_ws_Cons [OF that(3)]
          length_skip_ws [of r3] 3
        show "2 * length (skip_ws r3) + 2 \<le> f" using len by linarith
      qed
      show ?thesis
        unfolding Cons using s v m
        by (auto split: sum.split list.split prod.split)
    qed simp
  }
qed simp_all

lemma json_loads_no_fuel: "json_loads cs \<noteq> Inl Fuel"
proof -
  have "scan_value (2 * length cs + 1) (skip_ws cs) \<noteq> Inl Fuel"
    by (rule scan_no_fuel(1)) simp
  then show ?thesis by (auto simp: json_loads_def split: sum.splits)
qed

text \<open>What every value that comes out of the parser satisfies.\<close>

fun json_bounded :: "json \<Rightarrow> bool" where
  "json_bounded (JInt n) = is_jcs_safe_integer n"
| "json_bounded (JDec neg c e) =
     (c < 10 ^ 64 \<and> -308 - 63 \<le> e \<and> e \<le> 308)"
| "json_bounded (JList vs) = (\<forall>v \<in> set vs. json_bounded v)"
| "json_bounded (JObj ps) = (distinct (map fst ps) \<and> (\<forall>p \<in> set ps. json_bounded (snd p)))"
| "json_bounded _ = True"


lemma digits_value_snoc: "digits_value (ds @ [c]) = digits_value ds * 10 + (c - 48)"
  by (simp add: digits_value_def)

lemma digits_value_less: "\<forall>c \<in> set ds. digit c \<Longrightarrow> digits_value ds < 10 ^ length ds"
proof (induction ds rule: rev_induct)
  case (snoc c ds)
  then have "digits_value ds + 1 \<le> 10 ^ length ds" "c - 48 < 10" by (auto simp: digit_def)
  then show ?case by (simp add: digits_value_snoc)
qed (simp add: digits_value_def)

lemma digits_value_strip: "digits_value (dropWhile (\<lambda>c. c = 48) ds) = digits_value ds"
  by (induction ds) (auto simp: digits_value_def)

lemma digits_value_decimal:
  assumes "\<forall>c \<in> set ds. digit c"
  shows "digits_value ds < 10 ^ decimal_digits ds"
proof -
  have "\<forall>c \<in> set (dropWhile (\<lambda>c. c = 48) ds). digit c"
    using assms set_dropWhileD by fast
  from digits_value_less [OF this] digits_value_strip [of ds] show ?thesis
    by (cases "dropWhile (\<lambda>c. c = 48) ds") (simp_all add: decimal_digits_def Let_def)
qed

lemma bounded_json_decimal_bounded:
  assumes "bounded_json_decimal n neg ip fp ex = Inr v" and "\<forall>c \<in> set (ip @ fp). digit c"
  shows "json_bounded v"
proof -
  have pos: "1 \<le> decimal_digits (ip @ fp)"
    by (cases "dropWhile (\<lambda>c. c = 48) (ip @ fp)") (auto simp: decimal_digits_def)
  have "digits_value (ip @ fp) < 10 ^ 64" if "decimal_digits (ip @ fp) \<le> 64"
    using digits_value_decimal [OF assms(2)] power_increasing [OF that, of "10 :: nat"] by linarith
  with pos assms(1) show ?thesis
    by (auto simp: bounded_json_decimal_def Let_def split: if_splits)
qed

lemma bounded_json_int_bounded: "bounded_json_int neg ds = Inr v \<Longrightarrow> json_bounded v"
  by (auto simp: bounded_json_int_def Let_def split: if_splits)

lemma map_sum_eq_Inr: "map_sum id g x = Inr y \<longleftrightarrow> (\<exists>z. x = Inr z \<and> y = g z)"
  by (cases x) auto

lemma scan_number_bounded:
  assumes "scan_number cs = Inr (v, r)"
  shows "json_bounded v"
proof -
  define cs1 where "cs1 = (if take 1 cs = [45] then drop 1 cs else cs)"
  obtain ip r1 where ip: "scan_int_part cs1 = Some (ip, r1)"
    using assms by (auto simp: scan_number_def Let_def cs1_def split: option.splits)
  obtain fp r2 where fp: "scan_frac r1 = (fp, r2)" by (cases "scan_frac r1")
  have d: "\<forall>c \<in> set (ip @ fp). digit c"
  proof -
    have "\<forall>c \<in> set ip. digit c"
      using ip by (auto simp: scan_int_part_def split: list.splits if_splits dest: set_takeWhileD)
        (simp_all add: digit_def)
    moreover have "\<forall>c \<in> set fp. digit c"
      using fp by (auto simp: scan_frac_def split: if_splits dest: set_takeWhileD)
    ultimately show ?thesis by auto
  qed
  have "(\<exists>neg. bounded_json_int neg ip = Inr v) \<or> (\<exists>n neg ex. bounded_json_decimal n neg ip fp ex = Inr v)"
    using assms ip fp
    by (simp add: scan_number_def Let_def cs1_def map_sum_eq_Inr split: option.splits if_splits prod.splits)
      blast+
  then show ?thesis using bounded_json_int_bounded bounded_json_decimal_bounded [OF _ d] by blast
qed

lemma scan_bounded:
  "scan_value f cs = Inr (v, r) \<Longrightarrow> json_bounded v"
  "scan_elems f cs = Inr (vs, r) \<Longrightarrow> \<forall>v \<in> set vs. json_bounded v"
  "scan_members f cs = Inr (ps, r) \<Longrightarrow> \<forall>p \<in> set ps. json_bounded (snd p)"
proof (induction f arbitrary: cs v r vs ps)
  case (Suc f)
  {
    case 1
    from this show ?case
    proof (cases rule: scan_value_cases)
      case (obj q ps)
      with Suc.IH(3) [OF obj(2)] show ?thesis by simp
    next
      case (list q vs)
      with Suc.IH(2) [OF list(2)] show ?thesis by simp
    next
      case num
      then show ?thesis by (rule scan_number_bounded)
    qed auto
  next
    case 2
    from this show ?case
    proof (cases rule: scan_elems_cases)
      case (last v r0)
      with Suc.IH(1) [OF last(1)] show ?thesis by simp
    next
      case (more v r0 r1 vs')
      with Suc.IH(1) [OF more(1)] Suc.IH(2) [OF more(3)] show ?thesis by simp
    qed
  next
    case 3
    from this show ?case
    proof (cases rule: scan_members_cases)
      case (last q k r1 r2 v r3)
      with Suc.IH(1) [OF last(4)] show ?thesis by simp
    next
      case (more q k r1 r2 v r3 r4 ps')
      with Suc.IH(1) [OF more(4)] Suc.IH(3) [OF more(6)] show ?thesis by simp
    qed
  }
qed simp_all

lemma json_loads_bounded: "json_loads cs = Inr v \<Longrightarrow> json_bounded v"
  unfolding json_loads_def by (cases "scan_value (2 * length cs + 1) (skip_ws cs)")
    (auto dest: scan_bounded(1) simp del: scan_value.simps split: if_splits)

subsection \<open>Properties\<close>

text \<open>Evaluation of the parser on numerals, for the concrete inputs below.\<close>

lemmas scan_numeral =
  scan_value.simps(2) [of "pred_numeral k", folded numeral_eq_Suc]
  scan_elems.simps(2) [of "pred_numeral k", folded numeral_eq_Suc]
  scan_members.simps(2) [of "pred_numeral k", folded numeral_eq_Suc] for k

lemmas parser_eval = scan_numeral parse_bounded_json_value_def parse_contract_json_def
  require_bounded_json_shape_def shape_init_def shape_step_def json_loads_def skip_ws_def
  ws_char_def scan_number_def scan_int_part_def scan_frac_def scan_exp_def digit_def
  strip_literal_def LIT_null_def LIT_true_def LIT_false_def bounded_json_int_def
  bounded_json_decimal_def decimal_digits_def digits_value_def MAX_EMAX_def MIN_ETINY_def
  is_jcs_safe_integer_def JCS_MAX_SAFE_INTEGER_def unique_json_object_def Let_def

lemma parse_bounded_json_value_InrD:
  assumes "parse_bounded_json_value mb md mc mt raw = Inr v"
  shows "1 \<le> length raw" "length raw \<le> mb" "mb \<le> 8388608"
    and "\<exists>cs. utf8_decode raw = Some cs \<and> require_bounded_json_shape md mc mt cs
               \<and> json_loads cs = Inr v"
  using assms
  by (auto simp: parse_bounded_json_value_def
      split: if_splits option.splits sum.splits json_failure.splits)

text \<open>
  C23: whatever the bounded ingress returns is a bounded value: the input had between one and
  \<open>max_bytes\<close> bytes of strict UTF-8 and passed the shape scan, every integer in the result is
  in the JCS-safe domain, every decimal has at most 64 digits and an exponent within the
  permitted range, and no object at any depth has a duplicate key.
\<close>

theorem parse_bounded_json_value_bounded:
  assumes "parse_bounded_json_value max_bytes max_depth max_containers max_tokens raw = Inr v"
  shows "json_bounded v \<and> 1 \<le> length raw \<and> length raw \<le> max_bytes
    \<and> (\<exists>cs. utf8_decode raw = Some cs
         \<and> require_bounded_json_shape max_depth max_containers max_tokens cs)"
  using parse_bounded_json_value_InrD [OF assms] json_loads_bounded by blast

theorem parse_bounded_json_value_bounded_witness:
  "parse_bounded_json_value 64 4 8 16 [91, 49, 44, 50, 93] = Inr (JList [JInt 1, JInt 2])
   \<and> json_bounded (JList [JInt 1, JInt 2])"
proof -
  have "parse_bounded_json_value 64 4 8 16 [91, 49, 44, 50, 93] = Inr (JList [JInt 1, JInt 2])"
    by (simp add: parser_eval)
  with parse_bounded_json_value_bounded [OF this] show ?thesis by blast
qed

text \<open>
  the ingress is total: with a valid configuration the recursion of the model never runs
  out, and the outcome is decided by the decoder, the shape scan and the scanner alone. The
  only exception that leaves the function besides the contract error is the decimal one, and
  it leaves exactly when the scanner met a number whose exponent \<^verbatim>\<open>Decimal\<close> cannot represent.
\<close>

theorem parse_bounded_json_value_total:
  "parse_bounded_json_value mb md mc mt raw = Inl Uncaught_InvalidOperation
     \<longleftrightarrow> (1 \<le> mb \<and> mb \<le> 8388608 \<and> 1 \<le> md \<and> md \<le> 32 \<and> 1 \<le> mc \<and> mc \<le> 4096 \<and> 1 \<le> mt \<and> mt \<le> 16384
        \<and> 1 \<le> length raw \<and> length raw \<le> mb
        \<and> (\<exists>cs. utf8_decode raw = Some cs \<and> require_bounded_json_shape md mc mt cs
             \<and> json_loads cs \<noteq> Inl Hostile \<and> (\<nexists>v. json_loads cs = Inr v)))"
proof -
  have "json_loads cs = Inl Decimal_InvalidOperation
      \<longleftrightarrow> json_loads cs \<noteq> Inl Hostile \<and> (\<nexists>v. json_loads cs = Inr v)" for cs
    using json_loads_no_fuel [of cs] by (cases "json_loads cs") (auto, metis json_failure.exhaust)
  then show ?thesis
    by (auto simp: parse_bounded_json_value_def json_loads_no_fuel
        split: if_splits option.splits sum.splits json_failure.splits)
qed

text \<open>The text \<^verbatim>\<open>1e1000000000000000000\<close>.\<close>

definition huge_exponent_text :: bytes where
  "huge_exponent_text =
     [49, 101, 49, 48, 48, 48, 48, 48, 48, 48, 48, 48, 48, 48, 48, 48, 48, 48, 48, 48, 48]"

text \<open>
  a twenty-one byte number whose exponent exceeds the range of \<^verbatim>\<open>Decimal\<close> makes the bounded
  ingress raise \<^verbatim>\<open>decimal.InvalidOperation\<close> and not \<^verbatim>\<open>ContractParseError\<close>; the schema
  parser passes the exception on, whatever the schema.
\<close>

theorem parse_contract_json_uncaught_decimal:
  "parse_contract_json validate canon 65536 rc huge_exponent_text = Inl Uncaught_InvalidOperation"
proof -
  have "parse_bounded_json_value 65536 32 4096 16384 huge_exponent_text
      = Inl Uncaught_InvalidOperation"
    by (simp add: parser_eval huge_exponent_text_def)
  then show ?thesis by (simp add: parse_contract_json_def)
qed

lemma parse_contract_json_InrD:
  assumes "parse_contract_json validate canon mb rc raw = Inr m"
  shows "validate raw = Some m" "rc \<longrightarrow> canon m = raw" "1 \<le> length raw" "length raw \<le> mb"
  using assms parse_bounded_json_value_InrD
  by (auto simp: parse_contract_json_def split: sum.splits option.splits if_splits)

text \<open>
  with \<^verbatim>\<open>require_canonical\<close> every message has one accepted encoding: two byte strings that
  are accepted as the same model are the same byte string, so nothing can be smuggled in an
  alternative spelling of a signed or hashed contract.
\<close>

theorem parse_contract_json_canonical_unique:
  assumes "parse_contract_json validate canon mb True raw = Inr m"
    and "parse_contract_json validate canon mb' True raw' = Inr m"
  shows "raw = raw'"
  using parse_contract_json_InrD(2) [OF assms(1)] parse_contract_json_InrD(2) [OF assms(2)] by simp

theorem parse_contract_json_canonical_unique_witness:
  "parse_contract_json (\<lambda>r. Some r) (\<lambda>m. m) 64 True [123, 125] = Inr [123, 125]
   \<and> ([123, 125] :: bytes) = [123, 125]"
proof -
  have "parse_contract_json (\<lambda>r. Some r) (\<lambda>m. m) 64 True [123, 125] = Inr [123, 125]"
    by (simp add: parser_eval)
  with parse_contract_json_canonical_unique [OF this this] show ?thesis by blast
qed

end
