(* ===== verification/Framing.thy ===== *)
theory Framing
  imports Contract_Json
begin

text \<open>
  The frame vocabulary and codec of \<^verbatim>\<open>tuntun_contracts/poc/framing.py\<close>: the enumerations, the
  control message with the payload rule of its validator, the validated frame records and the
  two encoders. Canonical printing (\<open>canon\<close>) and pydantic's field validation (\<open>schema\<close>) are
  parameters; the validator the repository adds to the schema, \<open>exact_payload_for_kind\<close>, is
  modelled and runs after it.
\<close>

subsection \<open>Constants\<close>

definition MAGIC :: bytes where "MAGIC = [84, 84, 80, 84]"
definition PROTOCOL_VERSION :: nat where "PROTOCOL_VERSION = 1"
definition PREFIX_BYTES :: nat where "PREFIX_BYTES = 4 + 1 + 1 + 2 + 4 + 4 + 16"
definition MAX_CONTROL_BYTES :: nat where "MAX_CONTROL_BYTES = 4096"
definition MAX_PCM_BYTES :: nat where "MAX_PCM_BYTES = 65536"
definition MAX_FEED_BYTES :: nat where "MAX_FEED_BYTES = 65536"
definition MAX_FRAMES_PER_FEED :: nat where "MAX_FRAMES_PER_FEED = 64"
definition UINT32_MAX :: int where "UINT32_MAX = 2 ^ 32 - 1"

subsection \<open>Enumerations\<close>

datatype frame_kind = CONTROL | PCM

definition frame_kind_value :: "frame_kind \<Rightarrow> nat" where
  "frame_kind_value k = (case k of CONTROL \<Rightarrow> 1 | PCM \<Rightarrow> 2)"

definition frame_kind_of :: "nat \<Rightarrow> frame_kind option" where
  "frame_kind_of n = (if n = 1 then Some CONTROL else if n = 2 then Some PCM else None)"

datatype control_kind =
    SESSION_OPEN | SESSION_READY | PTT_START | PTT_SUBMIT | HEARTBEAT
  | CAPTURE_START | CAPTURE_END | PLAYBACK_START | PLAYBACK_END
  | STOP | CANCEL | ABORT | SAFETY_RECEIPT | SAFETY_ACK | ERROR

datatype ptt_input_mode = REACHY_LOCAL | CORE_TERMINAL_TOGGLE

datatype stream_direction = EDGE_TO_CORE | CORE_TO_EDGE

datatype guard_disposition = ACCEPTED | LATE_DISCARDED

datatype ptt_error_reason =
    R_PROTOCOL_REJECTED | R_TURN_CANCELLED | R_CAPTURE_FAILED | R_PROVIDER_FAILED
  | R_PLAYBACK_FAILED | R_CLEANUP_INCOMPLETE | R_PEER_CLOSED | R_SESSION_TIMEOUT

datatype ptt_session_outcome =
    O_COMPLETED | O_CANCELLED | O_PEER_CLOSED | O_PROTOCOL_REJECTED | O_CAPTURE_FAILED
  | O_PROVIDER_FAILED | O_PLAYBACK_FAILED | O_CLEANUP_INCOMPLETE | O_SESSION_TIMEOUT

datatype frame_error_code =
    CLOSED | FEED_TOO_LARGE | TOO_MANY_FRAMES | INVALID_PREFIX | INVALID_LENGTH
  | INVALID_CONTROL | TURN_MISMATCH | TRUNCATED | INVALID_SEQUENCE | INVALID_DIRECTION
  | INVALID_ORDER | PCM_LIMIT | DURATION_LIMIT | RATE_LIMIT | INVALID_CLOCK

text \<open>What can leave the frame functions: the protocol error, or the exception of the JSON
  ingress that no handler names.\<close>

datatype frame_exc = FrameProtocolError frame_error_code | Escaped_InvalidOperation

subsection \<open>Messages\<close>

datatype sample_format = Float32_le | S16le
datatype channel_layout = Mono | Stereo | Reachy_native

record audio_format =
  sample_format :: sample_format
  sample_rate_hz :: int
  channels :: int
  interleaved :: bool
  channel_layout :: channel_layout

definition TRANSPORT_AUDIO_FORMAT :: audio_format where
  "TRANSPORT_AUDIO_FORMAT =
     \<lparr>sample_format = S16le, sample_rate_hz = 16000, channels = 1, interleaved = False,
      channel_layout = Mono\<rparr>"

record ptt_safety_receipt =
  pr_turn_id :: uuid
  new_capture_rejected :: bool
  recording_stopped :: bool
  playback_stopped :: bool
  motion_stopped :: bool
  audio_reactive_disabled :: bool
  owned_buffers_cleared :: bool

definition is_complete :: "ptt_safety_receipt \<Rightarrow> bool" where
  "is_complete r \<longleftrightarrow>
     new_capture_rejected r \<and> recording_stopped r \<and> playback_stopped r \<and> motion_stopped r
     \<and> audio_reactive_disabled r \<and> owned_buffers_cleared r"

datatype ptt_payload =
    EmptyPayload
  | SessionPayload ptt_input_mode
  | StartPayload audio_format
  | SafetyPayload ptt_safety_receipt
  | AckPayload bool
  | ErrorPayload ptt_error_reason

record ptt_control =
  c_kind :: control_kind
  c_turn_id :: uuid
  c_payload :: ptt_payload

definition payload_type_ok :: "control_kind \<Rightarrow> ptt_payload \<Rightarrow> bool" where
  "payload_type_ok k p =
     (case k of
        SESSION_OPEN \<Rightarrow> (case p of SessionPayload _ \<Rightarrow> True | _ \<Rightarrow> False)
      | SESSION_READY \<Rightarrow> (case p of SessionPayload _ \<Rightarrow> True | _ \<Rightarrow> False)
      | CAPTURE_START \<Rightarrow> (case p of StartPayload _ \<Rightarrow> True | _ \<Rightarrow> False)
      | PLAYBACK_START \<Rightarrow> (case p of StartPayload _ \<Rightarrow> True | _ \<Rightarrow> False)
      | SAFETY_RECEIPT \<Rightarrow> (case p of SafetyPayload _ \<Rightarrow> True | _ \<Rightarrow> False)
      | SAFETY_ACK \<Rightarrow> (case p of AckPayload _ \<Rightarrow> True | _ \<Rightarrow> False)
      | ABORT \<Rightarrow> (case p of ErrorPayload _ \<Rightarrow> True | _ \<Rightarrow> False)
      | ERROR \<Rightarrow> (case p of ErrorPayload _ \<Rightarrow> True | _ \<Rightarrow> False)
      | _ \<Rightarrow> p = EmptyPayload)"

definition exact_payload_for_kind :: "ptt_control \<Rightarrow> bool" where
  "exact_payload_for_kind c \<longleftrightarrow>
     payload_type_ok (c_kind c) (c_payload c)
     \<and> (case c_payload c of SafetyPayload r \<Rightarrow> pr_turn_id r = c_turn_id c | _ \<Rightarrow> True)"

text \<open>The factories; construction runs the validator (\<open>None\<close> is its \<^verbatim>\<open>ValidationError\<close>).\<close>

definition mk_control :: "control_kind \<Rightarrow> uuid \<Rightarrow> ptt_payload \<Rightarrow> ptt_control option" where
  "mk_control k t p =
     (let c = \<lparr>c_kind = k, c_turn_id = t, c_payload = p\<rparr> in
      if exact_payload_for_kind c then Some c else None)"

definition session_open :: "uuid \<Rightarrow> ptt_input_mode \<Rightarrow> ptt_control option" where
  "session_open t m = mk_control SESSION_OPEN t (SessionPayload m)"

definition session_ready :: "uuid \<Rightarrow> ptt_input_mode \<Rightarrow> ptt_control option" where
  "session_ready t m = mk_control SESSION_READY t (SessionPayload m)"

definition ptt_start :: "uuid \<Rightarrow> ptt_control option" where
  "ptt_start t = mk_control PTT_START t EmptyPayload"

definition ptt_submit :: "uuid \<Rightarrow> ptt_control option" where
  "ptt_submit t = mk_control PTT_SUBMIT t EmptyPayload"

definition heartbeat :: "uuid \<Rightarrow> ptt_control option" where
  "heartbeat t = mk_control HEARTBEAT t EmptyPayload"

definition capture_start :: "uuid \<Rightarrow> audio_format \<Rightarrow> ptt_control option" where
  "capture_start t f = mk_control CAPTURE_START t (StartPayload f)"

definition capture_end :: "uuid \<Rightarrow> ptt_control option" where
  "capture_end t = mk_control CAPTURE_END t EmptyPayload"

definition playback_start :: "uuid \<Rightarrow> audio_format \<Rightarrow> ptt_control option" where
  "playback_start t f = mk_control PLAYBACK_START t (StartPayload f)"

definition playback_end :: "uuid \<Rightarrow> ptt_control option" where
  "playback_end t = mk_control PLAYBACK_END t EmptyPayload"

definition stop :: "uuid \<Rightarrow> ptt_control option" where
  "stop t = mk_control STOP t EmptyPayload"

definition cancel :: "uuid \<Rightarrow> ptt_control option" where
  "cancel t = mk_control CANCEL t EmptyPayload"

definition abort_control :: "uuid \<Rightarrow> ptt_error_reason \<Rightarrow> ptt_control option" where
  "abort_control t r = mk_control ABORT t (ErrorPayload r)"

definition safety_receipt :: "uuid \<Rightarrow> ptt_safety_receipt \<Rightarrow> ptt_control option" where
  "safety_receipt t r = mk_control SAFETY_RECEIPT t (SafetyPayload r)"

definition safety_ack :: "uuid \<Rightarrow> bool \<Rightarrow> ptt_control option" where
  "safety_ack t a = mk_control SAFETY_ACK t (AckPayload a)"

definition error_control :: "uuid \<Rightarrow> ptt_error_reason \<Rightarrow> ptt_control option" where
  "error_control t r = mk_control ERROR t (ErrorPayload r)"


text \<open>\<^verbatim>\<open>PttControl.model_validate_json\<close>: the schema's fields, then the validator.\<close>

definition ptt_validate :: "(bytes \<Rightarrow> ptt_control option) \<Rightarrow> bytes \<Rightarrow> ptt_control option" where
  "ptt_validate schema raw =
     (case schema raw of
        None \<Rightarrow> None
      | Some c \<Rightarrow> if exact_payload_for_kind c then Some c else None)"

subsection \<open>Frames\<close>

definition require_sequence :: "int \<Rightarrow> frame_error_code + unit" where
  "require_sequence s = (if 0 \<le> s \<and> s \<le> UINT32_MAX then Inr () else Inl INVALID_SEQUENCE)"

definition payload_length_ok :: "frame_kind \<Rightarrow> nat \<Rightarrow> bool" where
  "payload_length_ok k n =
     (case k of
        CONTROL \<Rightarrow> 1 \<le> n \<and> n \<le> MAX_CONTROL_BYTES
      | PCM \<Rightarrow> 1 \<le> n \<and> n \<le> MAX_PCM_BYTES \<and> n mod 2 = 0)"

record frame_header =
  fh_turn_id :: uuid
  fh_sequence :: int
  fh_kind :: frame_kind
  fh_payload_length :: nat

definition FrameHeader :: "uuid \<Rightarrow> int \<Rightarrow> frame_kind \<Rightarrow> nat \<Rightarrow> frame_error_code + frame_header" where
  "FrameHeader t s k n =
     (case require_sequence s of
        Inl e \<Rightarrow> Inl e
      | Inr _ \<Rightarrow>
          if payload_length_ok k n
          then Inr \<lparr>fh_turn_id = t, fh_sequence = s, fh_kind = k, fh_payload_length = n\<rparr>
          else Inl INVALID_LENGTH)"

datatype wire_frame =
    ControlFrame (wf_turn_id: uuid) (wf_sequence: int) (wf_control: ptt_control)
  | PcmFrame (wf_turn_id: uuid) (wf_sequence: int) (wf_pcm: bytes)

definition mk_ControlFrame :: "uuid \<Rightarrow> int \<Rightarrow> ptt_control \<Rightarrow> frame_error_code + wire_frame" where
  "mk_ControlFrame t s c =
     (case require_sequence s of
        Inl e \<Rightarrow> Inl e
      | Inr _ \<Rightarrow> if c_turn_id c \<noteq> t then Inl TURN_MISMATCH else Inr (ControlFrame t s c))"

definition mk_PcmFrame :: "uuid \<Rightarrow> int \<Rightarrow> bytes \<Rightarrow> frame_error_code + wire_frame" where
  "mk_PcmFrame t s p =
     (case require_sequence s of
        Inl e \<Rightarrow> Inl e
      | Inr _ \<Rightarrow>
          if \<not> (1 \<le> length p \<and> length p \<le> MAX_PCM_BYTES) then Inl INVALID_LENGTH
          else if length p mod 2 \<noteq> 0 then Inl INVALID_LENGTH
          else Inr (PcmFrame t s p))"

subsection \<open>Encoders\<close>

definition pack_prefix :: "frame_kind \<Rightarrow> int \<Rightarrow> nat \<Rightarrow> uuid \<Rightarrow> frame_error_code + bytes" where
  "pack_prefix k s n t =
     (case require_sequence s of
        Inl e \<Rightarrow> Inl e
      | Inr _ \<Rightarrow>
          Inr (MAGIC @ be_bytes 1 PROTOCOL_VERSION @ be_bytes 1 (frame_kind_value k) @ be_bytes 2 0
               @ be_bytes 4 (nat s) @ be_bytes 4 n @ be_bytes 16 (unat t)))"

definition encode_control_frame ::
    "(ptt_control \<Rightarrow> bytes) \<Rightarrow> int \<Rightarrow> ptt_control \<Rightarrow> frame_error_code + bytes" where
  "encode_control_frame canon s c =
     (let payload = canon c in
      if \<not> (1 \<le> length payload \<and> length payload \<le> MAX_CONTROL_BYTES) then Inl INVALID_LENGTH
      else case pack_prefix CONTROL s (length payload) (c_turn_id c) of
             Inl e \<Rightarrow> Inl e
           | Inr p \<Rightarrow> Inr (p @ payload))"

definition encode_pcm_frame :: "uuid \<Rightarrow> int \<Rightarrow> bytes \<Rightarrow> frame_error_code + bytes" where
  "encode_pcm_frame t s pcm =
     (if \<not> (1 \<le> length pcm \<and> length pcm \<le> MAX_PCM_BYTES) \<or> length pcm mod 2 \<noteq> 0
      then Inl INVALID_LENGTH
      else case pack_prefix PCM s (length pcm) t of
             Inl e \<Rightarrow> Inl e
           | Inr p \<Rightarrow> Inr (p @ pcm))"

end
