(* ===== verification/Frame_Decoder.thy ===== *)
theory Frame_Decoder
  imports Framing
begin

text \<open>
  The incremental decoder \<^verbatim>\<open>FrameDecoder\<close> of \<^verbatim>\<open>framing.py\<close>. The object is the record
  \<open>frame_decoder\<close>; every method returns its result or exception next to the object it leaves.
  The abstract specification \<open>stream_run\<close> reads frames off one byte string, and the decoder is
  proved to implement it whatever the chunking.
\<close>

subsection \<open>The decoder\<close>

record frame_decoder =
  fd_buffer :: bytes
  fd_header :: "frame_header option"
  fd_closed :: bool

definition decoder_init :: frame_decoder where
  "decoder_init = \<lparr>fd_buffer = [], fd_header = None, fd_closed = False\<rparr>"

definition poison :: "frame_decoder \<Rightarrow> frame_decoder" where
  "poison d = d\<lparr>fd_buffer := [], fd_header := None, fd_closed := True\<rparr>"

definition parse_prefix :: "bytes \<Rightarrow> frame_error_code + frame_header" where
  "parse_prefix b =
     (if length b \<noteq> PREFIX_BYTES then Inl INVALID_PREFIX
      else
        let magic = take 4 b;
            version = be_nat (take 1 (drop 4 b));
            raw_kind = be_nat (take 1 (drop 5 b));
            flags = be_nat (take 2 (drop 6 b));
            sequence = be_nat (take 4 (drop 8 b));
            payload_length = be_nat (take 4 (drop 12 b));
            raw_turn = take 16 (drop 16 b) in
        if magic \<noteq> MAGIC \<or> version \<noteq> PROTOCOL_VERSION \<or> flags \<noteq> 0 then Inl INVALID_PREFIX
        else case frame_kind_of raw_kind of
               None \<Rightarrow> Inl INVALID_PREFIX
             | Some kind \<Rightarrow>
                 if \<not> payload_length_ok kind payload_length then Inl INVALID_LENGTH
                 else FrameHeader (word_of_nat (be_nat raw_turn)) (int sequence) kind payload_length)"

text \<open>
  \<open>pc\<close> stands for \<^verbatim>\<open>parse_contract_json(PttControl, payload, max_bytes=MAX_CONTROL_BYTES,
  require_canonical=True)\<close>; \<open>control_parser\<close> below is that function. The handler names
  \<^verbatim>\<open>ContractParseError\<close>, \<^verbatim>\<open>ValueError\<close> and \<^verbatim>\<open>TypeError\<close>.
\<close>

type_synonym control_parser = "bytes \<Rightarrow> parse_failure + ptt_control"

definition control_parser ::
    "(bytes \<Rightarrow> ptt_control option) \<Rightarrow> (ptt_control \<Rightarrow> bytes) \<Rightarrow> control_parser" where
  "control_parser schema canon =
     parse_contract_json (ptt_validate schema) canon MAX_CONTROL_BYTES True"

definition lift_code :: "frame_error_code + 'a \<Rightarrow> frame_exc + 'a" where
  "lift_code r = (case r of Inl c \<Rightarrow> Inl (FrameProtocolError c) | Inr x \<Rightarrow> Inr x)"

definition complete_frame :: "control_parser \<Rightarrow> frame_header \<Rightarrow> bytes \<Rightarrow> frame_exc + wire_frame" where
  "complete_frame pc h payload =
     (if fh_kind h = PCM
      then lift_code (mk_PcmFrame (fh_turn_id h) (fh_sequence h) payload)
      else case pc payload of
             Inl ContractParseError \<Rightarrow> Inl (FrameProtocolError INVALID_CONTROL)
           | Inl ConfigValueError \<Rightarrow> Inl (FrameProtocolError INVALID_CONTROL)
           | Inl Uncaught_InvalidOperation \<Rightarrow> Inl Escaped_InvalidOperation
           | Inr control \<Rightarrow>
               if c_turn_id control \<noteq> fh_turn_id h then Inl (FrameProtocolError TURN_MISMATCH)
               else lift_code (mk_ControlFrame (fh_turn_id h) (fh_sequence h) control))"

text \<open>
  The first half of the loop body: fill the prefix when no header is pending. The result is the
  header (\<open>None\<close>: the prefix is still short), the buffer and the pending bytes. The buffer never
  exceeds what is needed (\<open>decoder_ok\<close> below), so the subtraction is that of the code.
\<close>

definition fill_prefix ::
    "frame_decoder \<Rightarrow> bytes \<Rightarrow> frame_error_code + frame_header option \<times> bytes \<times> bytes" where
  "fill_prefix d pending =
     (case fd_header d of
        Some h \<Rightarrow> Inr (Some h, fd_buffer d, pending)
      | None \<Rightarrow>
          (let needed = PREFIX_BYTES - length (fd_buffer d);
               consumed = min needed (length pending);
               buffer = fd_buffer d @ take consumed pending;
               pending = drop consumed pending in
           if length buffer < PREFIX_BYTES then Inr (None, buffer, pending)
           else case parse_prefix buffer of
                  Inl e \<Rightarrow> Inl e
                | Inr h \<Rightarrow> Inr (Some h, [], pending)))"

lemma payload_length_ok_pos: "payload_length_ok k n \<Longrightarrow> 0 < n"
  by (auto simp: payload_length_ok_def split: frame_kind.splits)

lemma parse_prefix_length_ok:
  "parse_prefix b = Inr h \<Longrightarrow> payload_length_ok (fh_kind h) (fh_payload_length h)"
  by (auto simp: parse_prefix_def FrameHeader_def Let_def split: if_splits option.splits sum.splits)

lemma parse_prefix_pos: "parse_prefix b = Inr h \<Longrightarrow> fh_payload_length h \<noteq> 0"
  using payload_length_ok_pos [OF parse_prefix_length_ok] by blast

lemma fill_prefix_shrinks:
  assumes "fill_prefix d pending = Inr (h', buffer, rest)" and "pending \<noteq> []"
  shows "length rest \<le> length pending"
    and "h' = None \<Longrightarrow> length rest < length pending"
    and "fd_header d = None \<Longrightarrow> h' = Some h \<Longrightarrow>
      length rest < length pending \<or> buffer = [] \<and> 0 < fh_payload_length h"
  using assms
  by (auto simp: fill_prefix_def Let_def PREFIX_BYTES_def dest: parse_prefix_pos
      split: option.splits if_splits sum.splits)

text \<open>
  One iteration of the loop: \<open>Inl\<close> is an exception next to the object it leaves (only
  \<^verbatim>\<open>FrameProtocolError\<close> is caught and poisons), \<open>Inr\<close> the state of the next iteration.
\<close>

definition feed_step ::
    "control_parser \<Rightarrow> frame_decoder \<Rightarrow> bytes \<Rightarrow> wire_frame list
       \<Rightarrow> (frame_exc \<times> frame_decoder) + (frame_decoder \<times> bytes \<times> wire_frame list)" where
  "feed_step pc d pending staged =
     (case fill_prefix d pending of
        Inl e \<Rightarrow> Inl (FrameProtocolError e, poison d)
      | Inr (None, buffer, rest) \<Rightarrow> Inr (d\<lparr>fd_buffer := buffer\<rparr>, rest, staged)
      | Inr (Some h, buffer, rest) \<Rightarrow>
          (let needed = fh_payload_length h - length buffer;
               consumed = min needed (length rest);
               buffer' = buffer @ take consumed rest;
               rest' = drop consumed rest;
               d' = d\<lparr>fd_header := Some h, fd_buffer := buffer'\<rparr> in
           if length buffer' < fh_payload_length h then Inr (d', rest', staged)
           else case complete_frame pc h buffer' of
                  Inl (FrameProtocolError c) \<Rightarrow> Inl (FrameProtocolError c, poison d)
                | Inl Escaped_InvalidOperation \<Rightarrow> Inl (Escaped_InvalidOperation, d')
                | Inr frame \<Rightarrow>
                    if length (staged @ [frame]) > MAX_FRAMES_PER_FEED
                    then Inl (FrameProtocolError TOO_MANY_FRAMES, poison d)
                    else Inr (d\<lparr>fd_header := None, fd_buffer := []\<rparr>, rest', staged @ [frame])))"

lemma feed_payload_shrinks:
  assumes "fill_prefix d pending = Inr (Some h, buffer, rest)" and "pending \<noteq> []"
  shows "2 * (length rest - (fh_payload_length h - length buffer))
           < 2 * length pending + (if fd_header d = None then 0 else 1)"
    and "length (buffer @ take (fh_payload_length h - length buffer) rest) < fh_payload_length h \<Longrightarrow>
         2 * (length rest - (fh_payload_length h - length buffer)) + 1
           < 2 * length pending + (if fd_header d = None then 0 else 1)"
proof -
  show a: "2 * (length rest - (fh_payload_length h - length buffer))
           < 2 * length pending + (if fd_header d = None then 0 else 1)"
  proof (cases "fd_header d")
    case None
    have le: "length rest \<le> length pending" and pos: "0 < length pending"
      using fill_prefix_shrinks(1) [OF assms] assms(2) by simp_all
    from fill_prefix_shrinks(3) [OF assms None refl]
    have "length rest - (fh_payload_length h - length buffer) < length pending"
      using le pos by (cases "length rest") auto
    with None show ?thesis by simp
  next
    case (Some g)
    with fill_prefix_shrinks(1) [OF assms] show ?thesis by auto
  qed
  assume "length (buffer @ take (fh_payload_length h - length buffer) rest)
           < fh_payload_length h"
  then have "length rest < fh_payload_length h - length buffer" by auto
  moreover have "2 \<le> 2 * length pending" using assms(2) by (cases pending) simp_all
  ultimately show "2 * (length rest - (fh_payload_length h - length buffer)) + 1
           < 2 * length pending + (if fd_header d = None then 0 else 1)" by simp
qed

lemma feed_step_Some:
  assumes "fill_prefix d pending = Inr (Some h, buffer, rest)"
  shows "feed_step pc d pending staged =
     (let n = fh_payload_length h; k = n - length buffer; buffer' = buffer @ take k rest;
          d' = d\<lparr>fd_header := Some h, fd_buffer := buffer'\<rparr> in
      if length buffer' < n then Inr (d', drop k rest, staged)
      else case complete_frame pc h buffer' of
             Inl (FrameProtocolError c) \<Rightarrow> Inl (FrameProtocolError c, poison d)
           | Inl Escaped_InvalidOperation \<Rightarrow> Inl (Escaped_InvalidOperation, d')
           | Inr frame \<Rightarrow>
               if length staged \<ge> MAX_FRAMES_PER_FEED
               then Inl (FrameProtocolError TOO_MANY_FRAMES, poison d)
               else Inr (d\<lparr>fd_header := None, fd_buffer := []\<rparr>, drop k rest, staged @ [frame]))"
  by (simp only: feed_step_def assms sum.case prod.case option.case Let_def take_min_length
      drop_min_length length_append_singleton less_Suc_eq_le)

definition feed_measure :: "frame_decoder \<Rightarrow> bytes \<Rightarrow> nat" where
  "feed_measure d pending = 2 * length pending + (if fd_header d = None then 0 else 1)"

lemma feed_step_shrinks:
  assumes "feed_step pc d pending staged = Inr (d', pending', staged')" and ne: "pending \<noteq> []"
  shows "feed_measure d' pending' < feed_measure d pending"
proof -
  obtain h' buffer rest where f: "fill_prefix d pending = Inr (h', buffer, rest)"
    using assms by (auto simp: feed_step_def split: sum.splits)
  show ?thesis
  proof (cases h')
    case None
    note f = f [unfolded None]
    from f have "fd_header d = None" by (auto simp: fill_prefix_def split: option.splits)
    with fill_prefix_shrinks(2) [OF f ne refl] assms(1) f show ?thesis
      by (auto simp: feed_step_def feed_measure_def)
  next
    case (Some h)
    note f = f [unfolded Some]
    define k where "k = fh_payload_length h - length buffer"
    note step = assms(1) [unfolded feed_step_Some [OF f] Let_def, folded k_def]
    note shrinks = feed_payload_shrinks [OF f ne, folded k_def]
    show ?thesis
    proof (cases "length (buffer @ take k rest) < fh_payload_length h")
      case True
      then have "d' = d\<lparr>fd_header := Some h, fd_buffer := buffer @ take k rest\<rparr>" "pending' = drop k rest"
        using step by simp_all
      then show ?thesis using shrinks(2) True by (simp add: feed_measure_def)
    next
      case False
      then have "d' = d\<lparr>fd_header := None, fd_buffer := []\<rparr>" "pending' = drop k rest"
        using step by (simp_all split: sum.splits frame_exc.splits if_splits)
      then show ?thesis using shrinks(1) by (simp add: feed_measure_def)
    qed
  qed
qed

function feed_loop ::
    "control_parser \<Rightarrow> frame_decoder \<Rightarrow> bytes \<Rightarrow> wire_frame list
       \<Rightarrow> (frame_exc + wire_frame list) \<times> frame_decoder" where
  "feed_loop pc d pending staged =
     (if pending = [] then (Inr staged, d)
      else case feed_step pc d pending staged of
             Inl (e, d') \<Rightarrow> (Inl e, d')
           | Inr (d', pending', staged') \<Rightarrow> feed_loop pc d' pending' staged')"
  by pat_completeness auto
termination
  by (relation "measure (\<lambda>(pc, d, pending, staged). feed_measure d pending)")
    (auto dest: feed_step_shrinks)

declare feed_loop.simps [simp del]

definition feed ::
    "control_parser \<Rightarrow> frame_decoder \<Rightarrow> bytes \<Rightarrow> (frame_exc + wire_frame list) \<times> frame_decoder" where
  "feed pc d data =
     (if fd_closed d then (Inl (FrameProtocolError CLOSED), d)
      else if length data > MAX_FEED_BYTES then (Inl (FrameProtocolError FEED_TOO_LARGE), poison d)
      else if data = [] then (Inr [], d)
      else feed_loop pc d data [])"

definition decoder_finish :: "frame_decoder \<Rightarrow> (frame_exc + unit) \<times> frame_decoder" where
  "decoder_finish d =
     (if fd_closed d then (Inl (FrameProtocolError CLOSED), d)
      else if fd_header d \<noteq> None \<or> fd_buffer d \<noteq> []
      then (Inl (FrameProtocolError TRUNCATED), poison d)
      else (Inr (), d\<lparr>fd_closed := True\<rparr>))"

definition decoder_abort :: "frame_decoder \<Rightarrow> frame_decoder" where
  "decoder_abort d = d\<lparr>fd_buffer := [], fd_header := None, fd_closed := True\<rparr>"

subsection \<open>The prefix codec\<close>

definition header_ok :: "frame_header \<Rightarrow> bool" where
  "header_ok h \<longleftrightarrow> 0 \<le> fh_sequence h \<and> fh_sequence h \<le> UINT32_MAX
     \<and> payload_length_ok (fh_kind h) (fh_payload_length h)"

definition header_bytes :: "frame_header \<Rightarrow> bytes" where
  "header_bytes h =
     MAGIC @ be_bytes 1 PROTOCOL_VERSION @ be_bytes 1 (frame_kind_value (fh_kind h)) @ be_bytes 2 0
     @ be_bytes 4 (nat (fh_sequence h)) @ be_bytes 4 (fh_payload_length h)
     @ be_bytes 16 (unat (fh_turn_id h))"

lemma length_header_bytes [simp]: "length (header_bytes h) = PREFIX_BYTES"
  by (simp add: header_bytes_def MAGIC_def PREFIX_BYTES_def)

lemma pack_prefix_header_bytes:
  "pack_prefix k s n t = Inr b \<longleftrightarrow> 0 \<le> s \<and> s \<le> UINT32_MAX
     \<and> b = header_bytes \<lparr>fh_turn_id = t, fh_sequence = s, fh_kind = k, fh_payload_length = n\<rparr>"
  by (auto simp: pack_prefix_def require_sequence_def header_bytes_def)

lemma payload_length_ok_less: "payload_length_ok k n \<Longrightarrow> n < 256 ^ 4"
  by (auto simp: payload_length_ok_def MAX_CONTROL_BYTES_def MAX_PCM_BYTES_def split: frame_kind.splits)

lemma unat_uuid_less: "unat (t :: uuid) < 256 ^ 16"
  using unsigned_less [of t] by simp

lemma frame_kind_of_value [simp]: "frame_kind_of (frame_kind_value k) = Some k"
  by (cases k) (simp_all add: frame_kind_of_def frame_kind_value_def)

lemma frame_kind_of_eq_Some: "frame_kind_of n = Some k \<longleftrightarrow> n = frame_kind_value k"
  by (cases k) (auto simp: frame_kind_of_def frame_kind_value_def split: if_splits)

lemma parse_prefix_header_bytes:
  assumes "header_ok h"
  shows "parse_prefix (header_bytes h) = Inr h"
proof -
  have s: "be_nat (be_bytes 4 (nat (fh_sequence h))) = nat (fh_sequence h)"
    using assms by (intro be_nat_be_bytes_id) (simp add: header_ok_def UINT32_MAX_def nat_less_iff)
  have n: "be_nat (be_bytes 4 (fh_payload_length h)) = fh_payload_length h"
    using assms by (intro be_nat_be_bytes_id payload_length_ok_less [of "fh_kind h"]) (simp add: header_ok_def)
  have t: "be_nat (be_bytes 16 (unat (fh_turn_id h))) = unat (fh_turn_id h)"
    by (intro be_nat_be_bytes_id unat_uuid_less)
  have k: "be_nat (be_bytes 1 (frame_kind_value (fh_kind h))) = frame_kind_value (fh_kind h)"
    by (intro be_nat_be_bytes_id) (simp add: frame_kind_value_def split: frame_kind.split)
  have v: "be_nat (be_bytes 1 PROTOCOL_VERSION) = PROTOCOL_VERSION"
    by (intro be_nat_be_bytes_id) (simp add: PROTOCOL_VERSION_def)
  have z: "be_nat (be_bytes 2 0) = 0" by (intro be_nat_be_bytes_id) simp
  have mg: "length MAGIC = 4" by (simp add: MAGIC_def)
  have f: "take 4 (header_bytes h) = MAGIC"
    "take 1 (drop 4 (header_bytes h)) = be_bytes 1 PROTOCOL_VERSION"
    "take 1 (drop 5 (header_bytes h)) = be_bytes 1 (frame_kind_value (fh_kind h))"
    "take 2 (drop 6 (header_bytes h)) = be_bytes 2 0"
    "take 4 (drop 8 (header_bytes h)) = be_bytes 4 (nat (fh_sequence h))"
    "take 4 (drop 12 (header_bytes h)) = be_bytes 4 (fh_payload_length h)"
    "take 16 (drop 16 (header_bytes h)) = be_bytes 16 (unat (fh_turn_id h))"
    by (simp_all add: header_bytes_def mg del: be_bytes.simps)
  show ?thesis
    unfolding parse_prefix_def Let_def f s n t k v z
    using assms by (simp add: header_ok_def FrameHeader_def require_sequence_def)
qed

lemma prefix_split:
  assumes "length b = PREFIX_BYTES"
  shows "b = take 4 b @ take 1 (drop 4 b) @ take 1 (drop 5 b) @ take 2 (drop 6 b) @ take 4 (drop 8 b)
              @ take 4 (drop 12 b) @ take 16 (drop 16 b)"
proof -
  have step: "take k (drop n b) @ drop (n + k) b = drop n b" for n k
    by (metis append_take_drop_id drop_drop add.commute)
  have "take 16 (drop 16 b) = drop 16 b" using assms by (simp add: PREFIX_BYTES_def)
  then show ?thesis
    using step [of 4 12] step [of 4 8] step [of 2 6] step [of 1 5] step [of 1 4] by simp
qed

lemma parse_prefix_inverse:
  assumes "parse_prefix b = Inr h"
  shows "b = header_bytes h" and "header_ok h"
proof -
  define t s n where "t = take 16 (drop 16 b)" and "s = take 4 (drop 8 b)" and "n = take 4 (drop 12 b)"
  have len: "length b = PREFIX_BYTES"
    and m: "take 4 b = MAGIC" and v: "be_nat (take 1 (drop 4 b)) = PROTOCOL_VERSION"
    and z: "be_nat (take 2 (drop 6 b)) = 0"
    using assms by (auto simp: parse_prefix_def Let_def split: if_splits)
  then obtain k where k: "frame_kind_of (be_nat (take 1 (drop 5 b))) = Some k"
    and ok: "payload_length_ok k (be_nat n)"
    and h0: "FrameHeader (word_of_nat (be_nat t)) (int (be_nat s)) k (be_nat n) = Inr h"
    using assms by (auto simp: parse_prefix_def Let_def t_def s_def n_def split: if_splits option.splits)
  have lens: "length t = 16" "length s = 4" "length n = 4" "length (take 1 (drop 4 b)) = 1"
      "length (take 1 (drop 5 b)) = 1" "length (take 2 (drop 6 b)) = 2"
    using len by (simp_all add: t_def s_def n_def PREFIX_BYTES_def)
  have h: "h = \<lparr>fh_turn_id = word_of_nat (be_nat t), fh_sequence = int (be_nat s), fh_kind = k,
                fh_payload_length = be_nat n\<rparr>" "int (be_nat s) \<le> UINT32_MAX"
    using h0 by (auto simp: FrameHeader_def require_sequence_def split: if_splits)
  show "header_ok h" using h ok by (simp add: header_ok_def)
  have ut: "unat (word_of_nat (be_nat t) :: uuid) = be_nat t"
    using be_nat_less [of t] lens(1) by (simp add: unsigned_of_nat take_bit_eq_mod)
  have "be_bytes 1 PROTOCOL_VERSION = take 1 (drop 4 b)" "be_bytes 2 0 = take 2 (drop 6 b)"
    "be_bytes 1 (frame_kind_value k) = take 1 (drop 5 b)"
    using be_bytes_be_nat [OF lens(4)] be_bytes_be_nat [OF lens(5)] be_bytes_be_nat [OF lens(6)] v z k
    unfolding frame_kind_of_eq_Some by simp_all
  then show "b = header_bytes h"
    using prefix_split [OF len] be_bytes_be_nat [OF lens(1)] be_bytes_be_nat [OF lens(2)]
      be_bytes_be_nat [OF lens(3)]
    by (simp add: h header_bytes_def ut m flip: t_def s_def n_def del: be_bytes.simps)
qed

subsection \<open>The abstract stream\<close>

datatype stream_item = Short | Bad frame_exc | Got wire_frame bytes

definition stream_next :: "control_parser \<Rightarrow> bytes \<Rightarrow> stream_item" where
  "stream_next pc bs =
     (if length bs < PREFIX_BYTES then Short
      else case parse_prefix (take PREFIX_BYTES bs) of
             Inl e \<Rightarrow> Bad (FrameProtocolError e)
           | Inr h \<Rightarrow>
               (let body = drop PREFIX_BYTES bs; n = fh_payload_length h in
                if length body < n then Short
                else case complete_frame pc h (take n body) of
                       Inl e \<Rightarrow> Bad e
                     | Inr frame \<Rightarrow> Got frame (drop n body)))"

lemma stream_next_shrinks: "stream_next pc bs = Got f rest \<Longrightarrow> length rest < length bs"
  by (auto simp: stream_next_def Let_def PREFIX_BYTES_def split: if_splits sum.splits)

function stream_run ::
    "control_parser \<Rightarrow> wire_frame list \<Rightarrow> bytes \<Rightarrow> frame_exc + wire_frame list \<times> bytes" where
  "stream_run pc staged bs =
     (case stream_next pc bs of
        Short \<Rightarrow> Inr (staged, bs)
      | Bad e \<Rightarrow> Inl e
      | Got frame rest \<Rightarrow>
          if length staged \<ge> MAX_FRAMES_PER_FEED then Inl (FrameProtocolError TOO_MANY_FRAMES)
          else stream_run pc (staged @ [frame]) rest)"
  by pat_completeness auto
termination
  by (relation "measure (\<lambda>(pc, staged, bs). length bs)") (auto dest: stream_next_shrinks)

declare stream_run.simps [simp del]

definition decoder_ok :: "frame_decoder \<Rightarrow> bool" where
  "decoder_ok d \<longleftrightarrow> \<not> fd_closed d
     \<and> (case fd_header d of
          None \<Rightarrow> length (fd_buffer d) < PREFIX_BYTES
        | Some h \<Rightarrow> header_ok h \<and> length (fd_buffer d) < fh_payload_length h)"

definition held_bytes :: "frame_decoder \<Rightarrow> bytes" where
  "held_bytes d =
     (case fd_header d of None \<Rightarrow> fd_buffer d | Some h \<Rightarrow> header_bytes h @ fd_buffer d)"

lemma stream_next_header:
  assumes "header_ok h"
  shows "stream_next pc (header_bytes h @ body) =
     (if length body < fh_payload_length h then Short
      else case complete_frame pc h (take (fh_payload_length h) body) of
             Inl e \<Rightarrow> Bad e
           | Inr frame \<Rightarrow> Got frame (drop (fh_payload_length h) body))"
  using parse_prefix_header_bytes [OF assms] by (simp add: stream_next_def Let_def)

lemma fill_prefix_held:
  assumes "decoder_ok d" and "pending \<noteq> []"
  shows "fill_prefix d pending = Inl e \<Longrightarrow>
      stream_next pc (held_bytes d @ pending) = Bad (FrameProtocolError e)"
    and "fill_prefix d pending = Inr (None, buffer, rest) \<Longrightarrow>
      fd_header d = None \<and> rest = [] \<and> buffer = fd_buffer d @ pending \<and> length buffer < PREFIX_BYTES"
    and "fill_prefix d pending = Inr (Some h, buffer, rest) \<Longrightarrow>
      header_ok h \<and> length buffer < fh_payload_length h
      \<and> header_bytes h @ buffer @ rest = held_bytes d @ pending"
proof -
  define k where "k = PREFIX_BYTES - length (fd_buffer d)"
  have split: "fd_buffer d @ take k pending = take PREFIX_BYTES (held_bytes d @ pending)"
      "drop k pending = drop PREFIX_BYTES (held_bytes d @ pending)" if "fd_header d = None"
    using that assms(1) by (auto simp: held_bytes_def decoder_ok_def k_def)
  show "stream_next pc (held_bytes d @ pending) = Bad (FrameProtocolError e)"
    if e: "fill_prefix d pending = Inl e"
  proof -
    have n: "fd_header d = None" using e by (auto simp: fill_prefix_def split: option.splits)
    then have "parse_prefix (take PREFIX_BYTES (held_bytes d @ pending)) = Inl e"
        "\<not> length (held_bytes d @ pending) < PREFIX_BYTES"
      using e split [OF n] by (auto simp: fill_prefix_def Let_def held_bytes_def k_def [symmetric]
          split: if_splits sum.splits)
    then show ?thesis by (simp add: stream_next_def)
  qed
  show "fd_header d = None \<and> rest = [] \<and> buffer = fd_buffer d @ pending \<and> length buffer < PREFIX_BYTES"
    if "fill_prefix d pending = Inr (None, buffer, rest)"
    using that by (auto simp: fill_prefix_def Let_def split: option.splits if_splits sum.splits)
  show "header_ok h \<and> length buffer < fh_payload_length h
      \<and> header_bytes h @ buffer @ rest = held_bytes d @ pending"
    if a: "fill_prefix d pending = Inr (Some h, buffer, rest)"
  proof (cases "fd_header d")
    case None
    then have p: "parse_prefix (take PREFIX_BYTES (held_bytes d @ pending)) = Inr h"
      and b: "buffer = []" and r: "rest = drop PREFIX_BYTES (held_bytes d @ pending)"
      using a split by (auto simp: fill_prefix_def Let_def k_def [symmetric]
          split: if_splits sum.splits)
    have "header_bytes h @ rest = held_bytes d @ pending"
      unfolding r parse_prefix_inverse(1) [OF p, symmetric] by (rule append_take_drop_id)
    then show ?thesis
      using b parse_prefix_inverse(2) [OF p] parse_prefix_pos [OF p] by simp
  next
    case (Some g)
    then show ?thesis using a assms(1) by (auto simp: fill_prefix_def decoder_ok_def held_bytes_def)
  qed
qed

lemma stream_run_Short: "stream_next pc bs = Short \<Longrightarrow> stream_run pc staged bs = Inr (staged, bs)"
  by (subst stream_run.simps) simp

lemma stream_run_Bad: "stream_next pc bs = Bad e \<Longrightarrow> stream_run pc staged bs = Inl e"
  by (subst stream_run.simps) simp

lemma stream_run_Got:
  "stream_next pc bs = Got f rest \<Longrightarrow> stream_run pc staged bs =
     (if length staged \<ge> MAX_FRAMES_PER_FEED then Inl (FrameProtocolError TOO_MANY_FRAMES)
      else stream_run pc (staged @ [f]) rest)"
  by (subst stream_run.simps) simp

lemma decoder_ok_Short: "decoder_ok d \<Longrightarrow> stream_next pc (held_bytes d) = Short"
  using stream_next_header [of _ pc]
  by (auto simp: decoder_ok_def held_bytes_def stream_next_def [of pc "fd_buffer d"] split: option.splits)

lemma poison_poison [simp]: "poison (poison d) = poison d"
  by (simp add: poison_def)

lemma decoder_ok_empty [simp]:
  "decoder_ok d \<Longrightarrow> decoder_ok (d\<lparr>fd_header := None, fd_buffer := []\<rparr>)"
  "held_bytes (d\<lparr>fd_header := None, fd_buffer := []\<rparr>) = []"
  by (simp_all add: decoder_ok_def held_bytes_def PREFIX_BYTES_def)

lemma feed_step_payload:
  assumes ok: "decoder_ok d" and f: "fill_prefix d pending = Inr (Some h, buffer, rest)"
    and h: "header_ok h" "length buffer < fh_payload_length h"
    and bs: "held_bytes d @ pending = header_bytes h @ buffer @ rest"
  shows "case feed_step pc d pending staged of
      Inl (e, d') \<Rightarrow> stream_run pc staged (held_bytes d @ pending) = Inl e
        \<and> (e \<noteq> Escaped_InvalidOperation \<longrightarrow> d' = poison d')
    | Inr (d', pending', staged') \<Rightarrow> decoder_ok d'
        \<and> stream_run pc staged' (held_bytes d' @ pending') = stream_run pc staged (held_bytes d @ pending)"
proof -
  define n where "n = fh_payload_length h"
  define k where "k = n - length buffer"
  define buffer' where "buffer' = buffer @ take k rest"
  note nx = stream_next_header [OF h(1), of pc "buffer @ rest", folded n_def bs]
  note step = feed_step_Some [OF f, of pc staged, unfolded Let_def, folded n_def, folded k_def,
      folded buffer'_def]
  show ?thesis
  proof (cases "length buffer' < n")
    case True
    have "held_bytes (d\<lparr>fd_header := Some h, fd_buffer := buffer'\<rparr>) @ drop k rest = held_bytes d @ pending"
      by (simp add: held_bytes_def [of "fd_buffer_update _ _"] buffer'_def bs)
    with True ok h show ?thesis by (simp add: step decoder_ok_def n_def)
  next
    case False
    then have b: "buffer' = take n (buffer @ rest)" "drop k rest = drop n (buffer @ rest)"
        "\<not> length (buffer @ rest) < n"
      using h(2) by (auto simp: n_def k_def buffer'_def)
    show ?thesis
    proof (cases "complete_frame pc h buffer'")
      case (Inl e)
      with nx b have "stream_next pc (held_bytes d @ pending) = Bad e" by simp
      with Inl False show ?thesis by (cases e) (simp_all add: step stream_run_Bad)
    next
      case (Inr frame)
      with nx b have got: "stream_next pc (held_bytes d @ pending) = Got frame (drop k rest)" by simp
      from Inr False ok show ?thesis by (simp add: step stream_run_Got [OF got])
    qed
  qed
qed

lemma feed_step_refines:
  assumes ok: "decoder_ok d" and ne: "pending \<noteq> []"
  shows "case feed_step pc d pending staged of
      Inl (e, d') \<Rightarrow> stream_run pc staged (held_bytes d @ pending) = Inl e
        \<and> (e \<noteq> Escaped_InvalidOperation \<longrightarrow> d' = poison d')
    | Inr (d', pending', staged') \<Rightarrow> decoder_ok d'
        \<and> stream_run pc staged' (held_bytes d' @ pending') = stream_run pc staged (held_bytes d @ pending)"
proof -
  note held = fill_prefix_held [OF ok ne]
  consider (bad) e where "fill_prefix d pending = Inl e"
    | (short) buffer rest where "fill_prefix d pending = Inr (None, buffer, rest)"
    | (ready) h buffer rest where "fill_prefix d pending = Inr (Some h, buffer, rest)"
    by (metis sum.exhaust_sel prod_cases3 option.exhaust)
  then show ?thesis
  proof cases
    case bad
    then show ?thesis using held(1) [OF bad, of pc] by (simp add: feed_step_def stream_run_Bad)
  next
    case short
    with held(2) [OF short] ok show ?thesis
      by (auto simp: feed_step_def decoder_ok_def held_bytes_def)
  next
    case ready
    show ?thesis by (rule feed_step_payload [OF ok ready]) (use held(3) [OF ready] in simp_all)
  qed
qed

lemma feed_loop_refines:
  "decoder_ok d \<Longrightarrow>
     (case feed_loop pc d pending staged of
        (Inr st, d') \<Rightarrow> decoder_ok d' \<and> stream_run pc staged (held_bytes d @ pending) = Inr (st, held_bytes d')
      | (Inl e, d') \<Rightarrow> stream_run pc staged (held_bytes d @ pending) = Inl e
          \<and> (e \<noteq> Escaped_InvalidOperation \<longrightarrow> d' = poison d'))"
proof (induction pc d pending staged rule: feed_loop.induct)
  case (1 pc d pending staged)
  show ?case
  proof (cases "pending = []")
    case True
    with 1(2) show ?thesis
      by (simp add: feed_loop.simps stream_run_Short [OF decoder_ok_Short])
  next
    case False
    show ?thesis
    proof (cases "feed_step pc d pending staged")
      case (Inl a)
      with False feed_step_refines [OF 1(2) False, of pc staged] show ?thesis
        by (cases a) (simp add: feed_loop.simps [of pc d pending])
    next
      case (Inr a)
      obtain d' p' s' where a: "a = (d', p', s')" by (cases a)
      with feed_step_refines [OF 1(2) False, of pc staged] Inr
      have ok: "decoder_ok d'"
        and e: "stream_run pc s' (held_bytes d' @ p') = stream_run pc staged (held_bytes d @ pending)"
        by simp_all
      from 1(1) [OF False Inr a [symmetric] refl ok, unfolded e] show ?thesis
        using False Inr a by (simp add: feed_loop.simps [of pc d pending])
    qed
  qed
qed

subsection \<open>Chunks and staging\<close>

lemma held_bytes_inj:
  assumes "decoder_ok d" and "decoder_ok d'" and eq: "held_bytes d = held_bytes d'"
  shows "d = d'"
proof -
  have len: "length (held_bytes x) < PREFIX_BYTES \<longleftrightarrow> fd_header x = None" if "decoder_ok x" for x
    using that by (auto simp: held_bytes_def decoder_ok_def split: option.splits)
  show ?thesis
  proof (cases "fd_header d")
    case None
    then have "fd_header d' = None" using len assms by metis
    with None assms show ?thesis by (simp add: held_bytes_def decoder_ok_def)
  next
    case (Some h)
    then obtain h' where h': "fd_header d' = Some h'" using len assms by (metis option.exhaust)
    have ok: "header_ok h" "header_ok h'" using assms Some h' by (simp_all add: decoder_ok_def)
    have "header_bytes h @ fd_buffer d = header_bytes h' @ fd_buffer d'"
      using eq Some h' by (simp add: held_bytes_def)
    then have "header_bytes h = header_bytes h'" "fd_buffer d = fd_buffer d'" by simp_all
    moreover from this ok have "h = h'" using parse_prefix_header_bytes by (metis sum.inject(2))
    ultimately show ?thesis using Some h' assms by (simp add: decoder_ok_def)
  qed
qed

lemma stream_next_append:
  shows "stream_next pc bs = Bad e \<Longrightarrow> stream_next pc (bs @ y) = Bad e"
    and "stream_next pc bs = Got f rest \<Longrightarrow> stream_next pc (bs @ y) = Got f (rest @ y)"
  by (auto simp: stream_next_def Let_def split: if_splits sum.splits)


lemma stream_run_extends: "stream_run pc st x = Inr (st', left) \<Longrightarrow> \<exists>gs. st' = st @ gs"
proof (induction pc st x rule: stream_run.induct)
  case (1 pc st x)
  then show ?case
    by (cases "stream_next pc x")
      (fastforce simp: stream_run_Short stream_run_Bad stream_run_Got split: if_splits)+
qed


lemma feed_InrD:
  assumes "decoder_ok d" and "feed pc d data = (Inr fs, d')"
  shows "decoder_ok d'" and "stream_run pc [] (held_bytes d @ data) = Inr (fs, held_bytes d')"
    and "length data \<le> MAX_FEED_BYTES"
  using assms feed_loop_refines [OF assms(1), of pc "[]" data] stream_run_Short [OF decoder_ok_Short [OF assms(1)]]
  by (auto simp: feed_def split: if_splits)


fun feed_all ::
    "control_parser \<Rightarrow> frame_decoder \<Rightarrow> bytes list \<Rightarrow> (frame_exc + wire_frame list) \<times> frame_decoder" where
  "feed_all pc d [] = (Inr [], d)"
| "feed_all pc d (x # xs) =
     (case feed pc d x of
        (Inl e, d') \<Rightarrow> (Inl e, d')
      | (Inr fs, d') \<Rightarrow>
          (case feed_all pc d' xs of
             (Inl e, d'') \<Rightarrow> (Inl e, d'')
           | (Inr gs, d'') \<Rightarrow> (Inr (fs @ gs), d'')))"

lemma feed_all_Cons_InrD:
  assumes "feed_all pc d (x # xs) = (Inr fs, d')"
  obtains f1 f2 d1 where "feed pc d x = (Inr f1, d1)" "feed_all pc d1 xs = (Inr f2, d')" "fs = f1 @ f2"
  using assms by (auto split: prod.splits sum.splits)


subsection \<open>Encoding and decoding\<close>

definition encode_frame :: "(ptt_control \<Rightarrow> bytes) \<Rightarrow> wire_frame \<Rightarrow> frame_error_code + bytes" where
  "encode_frame canon fr =
     (case fr of
        ControlFrame t s c \<Rightarrow> encode_control_frame canon s c
      | PcmFrame t s pcm \<Rightarrow> encode_pcm_frame t s pcm)"

text \<open>
  What the round trip needs of the third-party codec, for one control message: the canonical
  text is within the limits of the JSON ingress and validates to the message it prints.
\<close>

definition control_codec_ok ::
    "(bytes \<Rightarrow> ptt_control option) \<Rightarrow> (ptt_control \<Rightarrow> bytes) \<Rightarrow> ptt_control \<Rightarrow> bool" where
  "control_codec_ok schema canon c \<longleftrightarrow>
     schema (canon c) = Some c
     \<and> \<not> Sum_Type.isl (parse_bounded_json_value MAX_CONTROL_BYTES 32 4096 16384 (canon c))"

definition frame_codec_ok ::
    "(bytes \<Rightarrow> ptt_control option) \<Rightarrow> (ptt_control \<Rightarrow> bytes) \<Rightarrow> wire_frame \<Rightarrow> bool" where
  "frame_codec_ok schema canon fr =
     (case fr of
        ControlFrame t s c \<Rightarrow> t = c_turn_id c \<and> exact_payload_for_kind c \<and> control_codec_ok schema canon c
      | PcmFrame t s pcm \<Rightarrow> True)"

definition frame_turn_ok :: "wire_frame \<Rightarrow> bool" where
  "frame_turn_ok fr =
     (case fr of ControlFrame t s c \<Rightarrow> t = c_turn_id c | PcmFrame t s pcm \<Rightarrow> True)"

lemma stream_next_encode:
  assumes enc: "encode_frame canon fr = Inr b" and ok: "frame_codec_ok schema canon fr"
  shows "stream_next (control_parser schema canon) (b @ rest) = Got fr rest"
proof (cases fr)
  case (PcmFrame t s pcm)
  define h where "h = \<lparr>fh_turn_id = t, fh_sequence = s, fh_kind = PCM, fh_payload_length = length pcm\<rparr>"
  have b: "b = header_bytes h @ pcm" and h: "header_ok h" and
      c: "complete_frame pc h pcm = Inr fr" for pc
    using enc PcmFrame
    by (auto simp: encode_frame_def encode_pcm_frame_def pack_prefix_header_bytes h_def header_ok_def
        complete_frame_def mk_PcmFrame_def require_sequence_def lift_code_def payload_length_ok_def
        split: if_splits sum.splits)
  have "fh_payload_length h = length pcm" by (simp add: h_def)
  then show ?thesis unfolding b append_assoc stream_next_header [OF h] by (simp add: c)
next
  case (ControlFrame t s c)
  define h where "h = \<lparr>fh_turn_id = t, fh_sequence = s, fh_kind = CONTROL,
                       fh_payload_length = length (canon c)\<rparr>"
  have p: "control_parser schema canon (canon c) = Inr c" and t: "t = c_turn_id c"
    using ok ControlFrame
    by (auto simp: frame_codec_ok_def control_codec_ok_def control_parser_def parse_contract_json_def
        ptt_validate_def split: sum.splits)
  have b: "b = header_bytes h @ canon c" and h: "header_ok h"
    and c: "complete_frame (control_parser schema canon) h (canon c) = Inr fr"
    using enc ControlFrame p t
    by (auto simp: encode_frame_def encode_control_frame_def pack_prefix_header_bytes h_def header_ok_def
        complete_frame_def mk_ControlFrame_def require_sequence_def lift_code_def payload_length_ok_def Let_def
        split: if_splits sum.splits)
  have "fh_payload_length h = length (canon c)" by (simp add: h_def)
  then show ?thesis unfolding b append_assoc stream_next_header [OF h] by (simp add: c)
qed

lemma header_pack:
  assumes "header_ok h"
  shows "pack_prefix (fh_kind h) (fh_sequence h) (fh_payload_length h) (fh_turn_id h) = Inr (header_bytes h)"
  using assms by (simp add: pack_prefix_def require_sequence_def header_bytes_def header_ok_def)

lemma encode_header:
  assumes h: "header_ok h" and len: "length p = fh_payload_length h"
  shows "fh_kind h = PCM \<Longrightarrow> encode_pcm_frame (fh_turn_id h) (fh_sequence h) p = Inr (header_bytes h @ p)"
    and "fh_kind h = CONTROL \<Longrightarrow> canon m = p \<Longrightarrow> c_turn_id m = fh_turn_id h \<Longrightarrow>
      encode_control_frame canon (fh_sequence h) m = Inr (header_bytes h @ p)"
  using h header_pack [OF h] len
  by (simp_all add: encode_pcm_frame_def encode_control_frame_def header_ok_def payload_length_ok_def)

lemma stream_next_decode:
  assumes "stream_next (control_parser schema canon) bs = Got fr rest"
  shows "\<exists>b. encode_frame canon fr = Inr b \<and> frame_turn_ok fr \<and> bs = b @ rest"
proof -
  let ?pc = "control_parser schema canon"
  obtain h where p: "parse_prefix (take PREFIX_BYTES bs) = Inr h"
    using assms by (auto simp: stream_next_def split: if_splits sum.splits)
  define n body where "n = fh_payload_length h" and "body = drop PREFIX_BYTES bs"
  have bs: "bs = header_bytes h @ body"
    unfolding body_def parse_prefix_inverse(1) [OF p, symmetric] by simp
  note h = parse_prefix_inverse(2) [OF p]
  have c: "complete_frame ?pc h (take n body) = Inr fr" and rest: "rest = drop n body"
    and len: "length (take n body) = n"
    using assms unfolding bs stream_next_header [OF h]
    by (auto simp: n_def split: if_splits sum.splits)
  have "encode_frame canon fr = Inr (header_bytes h @ take n body) \<and> frame_turn_ok fr"
  proof (cases "fh_kind h")
    case PCM
    with c have fr: "fr = PcmFrame (fh_turn_id h) (fh_sequence h) (take n body)"
      by (auto simp: complete_frame_def lift_code_def mk_PcmFrame_def split: sum.splits if_splits)
    show ?thesis using encode_header(1) [OF h len [unfolded n_def] PCM]
      by (simp add: fr encode_frame_def frame_turn_ok_def n_def)
  next
    case CONTROL
    with c obtain m where m: "control_parser schema canon (take n body) = Inr m"
      and t: "c_turn_id m = fh_turn_id h" and fr: "fr = ControlFrame (fh_turn_id h) (fh_sequence h) m"
      by (auto simp: complete_frame_def lift_code_def mk_ControlFrame_def split: sum.splits if_splits parse_failure.splits)
    have cm: "canon m = take n body"
      using parse_contract_json_InrD(2) [OF m [unfolded control_parser_def]] by simp
    show ?thesis using encode_header(2) [where canon = canon and m = m, OF h len [unfolded n_def] CONTROL cm [unfolded n_def] t]
      by (simp add: fr encode_frame_def frame_turn_ok_def n_def t)
  qed
  then show ?thesis by (simp add: bs rest)
qed

abbreviation encodes :: "(ptt_control \<Rightarrow> bytes) \<Rightarrow> wire_frame \<Rightarrow> bytes \<Rightarrow> bool" where
  "encodes canon fr b \<equiv> encode_frame canon fr = Inr b"

lemma stream_run_decode:
  "stream_run (control_parser schema canon) st bs = Inr (st @ fs, left) \<Longrightarrow>
     \<exists>bss. list_all2 (encodes canon) fs bss \<and> bs = concat bss @ left"
proof (induction "control_parser schema canon" st bs arbitrary: fs rule: stream_run.induct)
  case (1 st bs)
  let ?pc = "control_parser schema canon"
  show ?case
  proof (cases "stream_next ?pc bs")
    case Short
    with 1(2) show ?thesis by (simp add: stream_run_Short)
  next
    case (Bad e)
    with 1(2) show ?thesis by (simp add: stream_run_Bad)
  next
    case (Got f rest)
    with 1(2) have l: "\<not> length st \<ge> MAX_FRAMES_PER_FEED"
      and r: "stream_run ?pc (st @ [f]) rest = Inr (st @ fs, left)"
      by (auto simp: stream_run_Got split: if_splits)
    obtain gs where gs: "st @ fs = (st @ [f]) @ gs" using stream_run_extends [OF r] by auto
    from 1(1) [OF Got l r [unfolded gs]] obtain bss where
      b: "list_all2 (encodes canon) gs bss" "rest = concat bss @ left" by blast
    from stream_next_decode [OF Got] obtain b0 where "encodes canon f b0" "bs = b0 @ rest" by blast
    with b gs show ?thesis by (intro exI [of _ "b0 # bss"]) simp
  qed
qed

lemma feed_all_decode:
  "decoder_ok d \<Longrightarrow> feed_all (control_parser schema canon) d xs = (Inr fs, d') \<Longrightarrow>
     decoder_ok d' \<and> (\<exists>bss. list_all2 (encodes canon) fs bss
       \<and> held_bytes d @ concat xs = concat bss @ held_bytes d')"
proof (induction xs arbitrary: d fs)
  case Nil
  then show ?case by (auto intro: exI [of _ "[]"])
next
  case (Cons x xs)
  from Cons(3) obtain f1 f2 d1 where
    f: "feed (control_parser schema canon) d x = (Inr f1, d1)"
      "feed_all (control_parser schema canon) d1 xs = (Inr f2, d')" "fs = f1 @ f2"
    by (rule feed_all_Cons_InrD)
  note d1 = feed_InrD [OF Cons(2) f(1)]
  from stream_run_decode [of schema canon "[]" "held_bytes d @ x" f1 "held_bytes d1"] d1(2) obtain b1 where
    b1: "list_all2 (encodes canon) f1 b1" "held_bytes d @ x = concat b1 @ held_bytes d1" by auto
  from Cons.IH [OF d1(1) f(2)] obtain b2 where "decoder_ok d'"
    and b2: "list_all2 (encodes canon) f2 b2" "held_bytes d1 @ concat xs = concat b2 @ held_bytes d'" by blast
  have "held_bytes d @ concat (x # xs) = concat b1 @ held_bytes d1 @ concat xs"
    using b1(2) by (metis append_assoc concat.simps(2))
  also have "\<dots> = concat (b1 @ b2) @ held_bytes d'" using b2(2) by simp
  finally show ?case
    using \<open>decoder_ok d'\<close> list_all2_appendI [OF b1(1) b2(1)] f(3) by blast
qed

lemma stream_run_prefix:
  assumes "list_all2 (encodes canon) frs bss" and "\<forall>fr \<in> set frs. frame_codec_ok schema canon fr"
    and "x @ y = concat bss" and "length st + length frs \<le> MAX_FRAMES_PER_FEED"
  shows "\<exists>f1 f2 bss2 left. frs = f1 @ f2 \<and> list_all2 (encodes canon) f2 bss2 \<and> left @ y = concat bss2
     \<and> stream_run (control_parser schema canon) st x = Inr (st @ f1, left)"
  using assms
proof (induction frs bss arbitrary: st x rule: list_all2_induct)
  case Nil
  then have "stream_next (control_parser schema canon) x = Short"
    by (simp add: stream_next_def PREFIX_BYTES_def)
  with Nil show ?case by (intro exI [of _ "[]"]) (simp add: stream_run_Short)
next
  case (Cons fr frs b bss)
  let ?pc = "control_parser schema canon"
  from stream_next_encode [OF Cons(1), of schema "concat bss"] Cons(4,5)
  have g: "stream_next ?pc (x @ y) = Got fr (concat bss)" by simp
  show ?case
  proof (cases "stream_next ?pc x")
    case Short
    with Cons(1,2,5) show ?thesis
      by (intro exI [of _ "[]"] exI [of _ "fr # frs"] exI [of _ "b # bss"] exI [of _ x])
        (simp add: stream_run_Short)
  next
    case (Bad e)
    from stream_next_append(1) [OF this, of y] g show ?thesis by simp
  next
    case (Got f rest)
    from stream_next_append(2) [OF this, of y] g have r: "f = fr" "rest @ y = concat bss" by simp_all
    from Cons(3) [OF _ r(2), of "st @ [fr]"] Cons(4,6) obtain f1 f2 bss2 left where
      "frs = f1 @ f2" "list_all2 (encodes canon) f2 bss2" "left @ y = concat bss2"
      "stream_run ?pc (st @ [fr]) rest = Inr ((st @ [fr]) @ f1, left)" by auto
    with Got r Cons(6) show ?thesis
      by (intro exI [of _ "fr # f1"] exI [of _ f2] exI [of _ bss2] exI [of _ left])
        (simp add: stream_run_Got)
  qed
qed

lemma decoder_ok_init [simp]: "decoder_ok decoder_init" "held_bytes decoder_init = []"
  by (simp_all add: decoder_ok_def decoder_init_def held_bytes_def PREFIX_BYTES_def)

lemma held_bytes_empty: "decoder_ok d \<Longrightarrow> held_bytes d = [] \<Longrightarrow> d = decoder_init"
  using held_bytes_inj [of d decoder_init] by simp

lemma feed_run:
  assumes "decoder_ok d" and "length x \<le> MAX_FEED_BYTES"
    and "stream_run pc [] (held_bytes d @ x) = Inr (fs, left)"
  obtains d' where "feed pc d x = (Inr fs, d')" "decoder_ok d'" "held_bytes d' = left"
proof (cases "x = []")
  case True
  then show thesis using assms that stream_run_Short [OF decoder_ok_Short [OF assms(1)], of pc "[]"]
    by (auto simp: feed_def decoder_ok_def)
next
  case False
  obtain r d' where l: "feed_loop pc d x [] = (r, d')" by (cases "feed_loop pc d x []")
  with feed_loop_refines [OF assms(1), of pc "[]" x] assms(3)
  have "r = Inr fs" "decoder_ok d'" "held_bytes d' = left" by (cases r; simp)+
  then show thesis using that l assms(1,2) False by (simp add: feed_def decoder_ok_def)
qed

lemma feed_all_encode:
  assumes "decoder_ok d" and "list_all2 (encodes canon) frs bss"
    and "\<forall>fr \<in> set frs. frame_codec_ok schema canon fr"
    and "held_bytes d @ concat xs = concat bss" and "length frs \<le> MAX_FRAMES_PER_FEED"
    and "\<forall>x \<in> set xs. length x \<le> MAX_FEED_BYTES"
  shows "feed_all (control_parser schema canon) d xs = (Inr frs, decoder_init)"
  using assms
proof (induction xs arbitrary: d frs bss)
  case Nil
  have short: "stream_next (control_parser schema canon) (concat bss) = Short"
    using decoder_ok_Short [OF Nil(1)] Nil(4) by simp
  have "frs = [] \<and> bss = []"
  proof (cases frs)
    case (Cons fr frs')
    with Nil(2) obtain b bss' where "bss = b # bss'" "encodes canon fr b" by (auto simp: list_all2_Cons1)
    with stream_next_encode [of canon fr b schema "concat bss'"] Nil(3) Cons short show ?thesis by simp
  qed (use Nil(2) in simp)
  then show ?case using held_bytes_empty [OF Nil(1)] Nil(4) by simp
next
  case (Cons x xs)
  from stream_run_prefix [OF Cons(3,4), of "held_bytes d @ x" "concat xs" "[]"] Cons(5,6)
  obtain f1 f2 bss2 left where f: "frs = f1 @ f2" "list_all2 (encodes canon) f2 bss2"
    "left @ concat xs = concat bss2"
    "stream_run (control_parser schema canon) [] (held_bytes d @ x) = Inr (f1, left)" by auto
  from feed_run [OF Cons(2) _ f(4)] Cons(7) obtain d' where
    "feed (control_parser schema canon) d x = (Inr f1, d')" "decoder_ok d'" "held_bytes d' = left" by auto
  with Cons.IH [OF _ f(2), of d'] f Cons(4,6,7) show ?case by auto
qed

subsection \<open>Properties\<close>

text \<open>
  C2: round trip under any chunking. Up to 64 frames are encoded one after the other and the
  bytes are cut into feeds at arbitrary points, each within the feed limit; the decoder returns
  exactly those frames in order and ends in its initial state, holding nothing.
\<close>

theorem decode_encode_roundtrip:
  assumes "list_all2 (\<lambda>fr b. encode_frame canon fr = Inr b) frs bss"
    and "\<forall>fr \<in> set frs. frame_codec_ok schema canon fr"
    and "concat chunks = concat bss" and "length frs \<le> MAX_FRAMES_PER_FEED"
    and "\<forall>x \<in> set chunks. length x \<le> MAX_FEED_BYTES"
  shows "feed_all (control_parser schema canon) decoder_init chunks = (Inr frs, decoder_init)"
  using feed_all_encode [OF decoder_ok_init(1) assms(1,2)] assms(3-5) by simp

definition example_control :: ptt_control where
  "example_control = \<lparr>c_kind = HEARTBEAT, c_turn_id = 7, c_payload = EmptyPayload\<rparr>"

definition example_header :: "byte \<Rightarrow> byte \<Rightarrow> byte \<Rightarrow> bytes" where
  "example_header k s n =
     [84, 84, 80, 84, 1, k, 0, 0, 0, 0, 0, s, 0, 0, 0, n, 0, 0, 0, 0, 0, 0, 0, 0, 0, 0, 0, 0, 0, 0, 0, 7]"

lemma example_encodings:
  "encode_frame (\<lambda>_. [123, 125]) (ControlFrame 7 0 example_control) = Inr (example_header 1 0 2 @ [123, 125])"
  "encode_frame (\<lambda>_. [123, 125]) (PcmFrame 7 1 [9, 8]) = Inr (example_header 2 1 2 @ [9, 8])"
  by (simp_all add: encode_frame_def encode_control_frame_def encode_pcm_frame_def pack_prefix_def
      require_sequence_def UINT32_MAX_def MAX_CONTROL_BYTES_def MAX_PCM_BYTES_def MAGIC_def PROTOCOL_VERSION_def
      frame_kind_value_def example_control_def example_header_def be_bytes_numeral)

lemma example_codec_ok:
  "frame_codec_ok (\<lambda>_. Some example_control) (\<lambda>_. [123, 125]) (ControlFrame 7 0 example_control)"
  by (simp add: frame_codec_ok_def control_codec_ok_def example_control_def exact_payload_for_kind_def
      payload_type_ok_def MAX_CONTROL_BYTES_def parser_eval)

theorem decode_encode_roundtrip_witness:
  "feed_all (control_parser (\<lambda>_. Some example_control) (\<lambda>_. [123, 125])) decoder_init
     [example_header 1 0 2 @ [123], [125] @ example_header 2 1 2, [9, 8]]
   = (Inr [ControlFrame 7 0 example_control, PcmFrame 7 1 [9, 8]], decoder_init)"
proof (rule decode_encode_roundtrip)
  show "list_all2 (\<lambda>fr b. encode_frame (\<lambda>_. [123, 125]) fr = Inr b)
      [ControlFrame 7 0 example_control, PcmFrame 7 1 [9, 8]]
      [example_header 1 0 2 @ [123, 125], example_header 2 1 2 @ [9, 8]]"
    by (simp add: example_encodings)
  show "\<forall>fr \<in> set [ControlFrame 7 0 example_control, PcmFrame 7 1 [9, 8]].
      frame_codec_ok (\<lambda>_. Some example_control) (\<lambda>_. [123, 125]) fr"
    using example_codec_ok by (simp add: frame_codec_ok_def [of _ _ "PcmFrame _ _ _"])
qed (simp_all add: example_header_def MAX_FRAMES_PER_FEED_def MAX_FEED_BYTES_def)

text \<open>
  C17: nothing but canonical encodings decodes. Whenever a run of feeds succeeds, the bytes fed
  are the concatenation of the encodings of the frames returned, followed by the bytes the
  decoder still holds; so a frame has exactly one accepted spelling and no byte is skipped.
\<close>

theorem decode_sound:
  assumes "feed_all (control_parser schema canon) decoder_init chunks = (Inr frs, d')"
  shows "decoder_ok d' \<and> (\<exists>bss. list_all2 (\<lambda>fr b. encode_frame canon fr = Inr b) frs bss
    \<and> concat chunks = concat bss @ held_bytes d')"
  using feed_all_decode [OF decoder_ok_init(1) assms] by simp

theorem decode_sound_witness:
  "\<exists>bss. list_all2 (\<lambda>fr b. encode_frame (\<lambda>_. [123, 125]) fr = Inr b)
     [ControlFrame 7 0 example_control] bss \<and> concat [example_header 1 0 2 @ [123, 125]] = concat bss"
proof -
  have "feed_all (control_parser (\<lambda>_. Some example_control) (\<lambda>_. [123, 125])) decoder_init
      [example_header 1 0 2 @ [123, 125]] = (Inr [ControlFrame 7 0 example_control], decoder_init)"
    by (rule feed_all_encode [where bss = "[example_header 1 0 2 @ [123, 125]]"])
      (simp_all add: example_encodings example_codec_ok example_header_def MAX_FRAMES_PER_FEED_def
        MAX_FEED_BYTES_def)
  from decode_sound [OF this] show ?thesis by simp
qed



lemma stream_run_limit:
  "stream_run pc st x = Inr (st', left) \<Longrightarrow> length st \<le> MAX_FRAMES_PER_FEED \<Longrightarrow>
     length st' \<le> MAX_FRAMES_PER_FEED"
proof (induction pc st x rule: stream_run.induct)
  case (1 pc st x)
  then show ?case
    by (cases "stream_next pc x") (auto simp: stream_run_Short stream_run_Bad stream_run_Got split: if_splits)
qed

lemma decoder_ok_bounded: "decoder_ok d \<Longrightarrow> length (fd_buffer d) < MAX_PCM_BYTES"
  by (auto simp: decoder_ok_def header_ok_def payload_length_ok_def PREFIX_BYTES_def MAX_PCM_BYTES_def
      MAX_CONTROL_BYTES_def split: option.splits frame_kind.splits)

text \<open>
  C20: the decoder is fail-closed and bounded. From any state it can be in, a feed either raises
  the protocol error, and then the object holds no byte, is closed and answers every later feed
  with \<^verbatim>\<open>CLOSED\<close>; or the JSON ingress let its own exception through; or the feed succeeds with at
  most 64 frames and the object is again in a proper state, holding less than one frame.
\<close>

theorem feed_fail_closed:
  assumes "decoder_ok d" and "feed pc d data = (r, d')"
  shows "case r of
      Inl (FrameProtocolError c) \<Rightarrow> d' = poison d'
        \<and> (\<forall>data'. feed pc d' data' = (Inl (FrameProtocolError CLOSED), d'))
    | Inl Escaped_InvalidOperation \<Rightarrow> data \<noteq> []
    | Inr frs \<Rightarrow> decoder_ok d' \<and> length frs \<le> MAX_FRAMES_PER_FEED
        \<and> length (fd_buffer d') < MAX_PCM_BYTES"
proof (cases r)
  case (Inl e)
  have "fd_closed d'" if "d' = poison d'" by (subst that) (simp add: poison_def)
  with feed_loop_refines [OF assms(1), of pc "[]" data] assms Inl show ?thesis
    by (cases e) (auto simp: feed_def decoder_ok_def split: if_splits)
next
  case (Inr frs)
  note f = feed_InrD [OF assms(1) assms(2) [unfolded Inr]]
  with Inr stream_run_limit [OF f(2)] decoder_ok_bounded [OF f(1)] show ?thesis by simp
qed

theorem feed_fail_closed_witness:
  "feed (control_parser (\<lambda>_. None) (\<lambda>_. [])) decoder_init (replicate 65537 0)
     = (Inl (FrameProtocolError FEED_TOO_LARGE), poison decoder_init)
   \<and> feed (control_parser (\<lambda>_. None) (\<lambda>_. [])) (poison decoder_init) [1]
     = (Inl (FrameProtocolError CLOSED), poison decoder_init)"
proof -
  have f: "feed (control_parser (\<lambda>_. None) (\<lambda>_. [])) decoder_init (replicate 65537 0)
     = (Inl (FrameProtocolError FEED_TOO_LARGE), poison decoder_init)"
    by (simp add: feed_def decoder_init_def MAX_FEED_BYTES_def)
  with feed_fail_closed [OF decoder_ok_init(1) f] show ?thesis by simp
qed




text \<open>
  \<^verbatim>\<open>finish\<close> succeeds exactly at a frame boundary; a truncated stream raises \<^verbatim>\<open>TRUNCATED\<close> and
  poisons the decoder, and after either outcome the decoder takes no more bytes.
\<close>

theorem decoder_finish_boundary:
  assumes "decoder_ok d"
  shows "decoder_finish d =
      (if held_bytes d = [] then (Inr (), d\<lparr>fd_closed := True\<rparr>)
       else (Inl (FrameProtocolError TRUNCATED), poison d))
    \<and> feed pc (snd (decoder_finish d)) data = (Inl (FrameProtocolError CLOSED), snd (decoder_finish d))"
proof -
  have "held_bytes d = [] \<longleftrightarrow> fd_header d = None \<and> fd_buffer d = []"
    using length_header_bytes [of "the (fd_header d)"]
    by (auto simp: held_bytes_def PREFIX_BYTES_def split: option.splits simp del: length_header_bytes)
  with assms show ?thesis by (auto simp: decoder_finish_def decoder_ok_def feed_def poison_def)
qed

theorem decoder_finish_boundary_witness:
  "decoder_ok decoder_init \<and> decoder_finish decoder_init = (Inr (), decoder_init\<lparr>fd_closed := True\<rparr>)"
  using decoder_finish_boundary [OF decoder_ok_init(1)] by simp

end
