(* ===== verification/Float64.thy ===== *)
theory Float64
  imports Prelude "HOL-Library.Log_Nat"
begin

text \<open>
  Python's \<^verbatim>\<open>float\<close>, an IEEE 754 binary64. Every finite double is a whole multiple of
  \<open>2 ^ -1074\<close>, so a finite double is kept as that whole number: comparison is comparison of
  integers and subtraction is the exact difference rounded to 53 significant bits, ties to
  even. Rounding past the largest finite double gives a number above every finite double
  where the hardware gives infinity, which compares the same way.
\<close>

type_synonym double = int

definition double_of_units :: "int \<Rightarrow> double" where
  "double_of_units n = n * 2 ^ 1074"

text \<open>Half-to-even division by a power of two.\<close>

definition div_half_even :: "int \<Rightarrow> int \<Rightarrow> int" where
  "div_half_even n d =
     (let q = n div d; r = n mod d
      in if 2 * r < d \<or> (2 * r = d \<and> even q) then q else q + 1)"

definition double_shift :: "int \<Rightarrow> nat" where
  "double_shift n = nat (bitlen \<bar>n\<bar> - 53)"

definition round_double :: "int \<Rightarrow> double" where
  "round_double n = (let k = double_shift n in div_half_even n (2 ^ k) * 2 ^ k)"

definition double_sub :: "double \<Rightarrow> double \<Rightarrow> double" where
  "double_sub a b = round_double (a - b)"

text \<open>The numbers a caller may pass as a clock reading.\<close>

datatype py_number = PyInt int | PyFloat double | PyNan | PyInf bool

definition max_double :: double where
  "max_double = (2 ^ 53 - 1) * 2 ^ 2045"

text \<open>\<^verbatim>\<open>float(n)\<close> of a Python integer; \<open>None\<close> is its \<^verbatim>\<open>OverflowError\<close>.\<close>

definition float_of_int :: "int \<Rightarrow> double option" where
  "float_of_int n =
     (let r = round_double (double_of_units n) in if \<bar>r\<bar> \<le> max_double then Some r else None)"

subsection \<open>Rounding is monotone and exact on 53 bits\<close>

lemma div_half_even_bounds:
  assumes "0 < d"
  shows "n div d \<le> div_half_even n d" and "div_half_even n d \<le> n div d + 1"
  by (auto simp: div_half_even_def Let_def)

lemma div_half_even_mono:
  assumes d: "0 < d" and le: "m \<le> n"
  shows "div_half_even m d \<le> div_half_even n d"
proof (cases "m div d = n div d")
  case True
  have m: "m = (m div d) * d + m mod d" and n: "n = (n div d) * d + n mod d" by simp_all
  have "m mod d \<le> n mod d" using le True m n by (metis add_le_cancel_left)
  then show ?thesis using True by (auto simp: div_half_even_def Let_def)
next
  case False
  then have "m div d + 1 \<le> n div d"
    using zdiv_mono1 [OF le d] by linarith
  with div_half_even_bounds(2) [OF d, of m] div_half_even_bounds(1) [OF d, of n]
  show ?thesis by linarith
qed

lemma div_half_even_mult [simp]: "0 < d \<Longrightarrow> div_half_even (q * d) d = q"
  by (simp add: div_half_even_def Let_def)

lemma round_double_small: "\<bar>n\<bar> < 2 ^ 53 \<Longrightarrow> round_double n = n"
proof -
  assume a: "\<bar>n\<bar> < 2 ^ 53"
  have "bitlen \<bar>n\<bar> \<le> 53"
    using a bitlen_le_iff_power [of "\<bar>n\<bar>" 53] by simp
  then have "double_shift n = 0" by (simp add: double_shift_def)
  then show ?thesis
    using div_half_even_mult [of 1 n] by (simp add: round_double_def)
qed

lemma double_shift_dvd_le:
  assumes "2 ^ double_shift n dvd c" and "n \<le> c"
  shows "round_double n \<le> c"
proof -
  from assms(1) obtain q where c: "c = q * 2 ^ double_shift n" by (metis dvdE mult.commute)
  have "div_half_even n (2 ^ double_shift n) \<le> div_half_even c (2 ^ double_shift n)"
    by (rule div_half_even_mono) (use assms(2) in auto)
  then show ?thesis by (simp add: round_double_def Let_def c)
qed

lemma double_shift_dvd_ge:
  assumes "2 ^ double_shift n dvd c" and "c \<le> n"
  shows "c \<le> round_double n"
proof -
  from assms(1) obtain q where c: "c = q * 2 ^ double_shift n" by (metis dvdE mult.commute)
  have "div_half_even c (2 ^ double_shift n) \<le> div_half_even n (2 ^ double_shift n)"
    by (rule div_half_even_mono) (use assms(2) in auto)
  then show ?thesis by (simp add: round_double_def Let_def c)
qed

lemma double_shift_large:
  assumes "0 < double_shift n"
  shows "2 ^ (52 + double_shift n) \<le> \<bar>n\<bar>"
proof -
  have "nat (bitlen \<bar>n\<bar>) - 1 = 52 + double_shift n"
    using assms by (simp add: double_shift_def nat_eq_iff)
  then show ?thesis
    using assms bitlen_ge_iff_power [of "bitlen \<bar>n\<bar>" "\<bar>n\<bar>"] by (simp add: double_shift_def)
qed

lemma double_shift_less:
  assumes "double_shift n < k"
  shows "\<bar>n\<bar> < 2 ^ (52 + k)"
  using assms bitlen_le_iff_power [of "\<bar>n\<bar>" "52 + k"]
  by (auto simp: double_shift_def nat_add_distrib)

lemma round_double_mono:
  assumes le: "m \<le> n"
  shows "round_double m \<le> round_double n"
proof (cases "double_shift m" "double_shift n" rule: linorder_cases)
  case equal
  then show ?thesis
    using div_half_even_mono [of "2 ^ double_shift n" m n] le
    by (simp add: round_double_def Let_def)
next
  case less
  define c :: int where "c = 2 ^ (52 + double_shift n)"
  have m: "\<bar>m\<bar> < c" and n: "c \<le> \<bar>n\<bar>"
    using double_shift_less [OF less] double_shift_large [of n] less by (simp_all add: c_def)
  then have "c \<le> n" using le by linarith
  moreover have "2 ^ double_shift m dvd c" "2 ^ double_shift n dvd c"
    using less by (simp_all add: c_def le_imp_power_dvd)
  ultimately show ?thesis
    using double_shift_dvd_le [of m c] double_shift_dvd_ge [of n c] m by linarith
next
  case greater
  define c :: int where "c = 2 ^ (52 + double_shift m)"
  have n: "\<bar>n\<bar> < c" and m: "c \<le> \<bar>m\<bar>"
    using double_shift_less [OF greater] double_shift_large [of m] greater by (simp_all add: c_def)
  then have "m \<le> - c" using le by linarith
  moreover have "2 ^ double_shift m dvd - c" "2 ^ double_shift n dvd - c"
    using greater by (simp_all add: c_def le_imp_power_dvd)
  ultimately show ?thesis
    using double_shift_dvd_le [of m "- c"] double_shift_dvd_ge [of n "- c"] n by linarith
qed

lemma double_sub_mono: "a \<le> a' \<Longrightarrow> double_sub a b \<le> double_sub a' b"
  by (simp add: double_sub_def round_double_mono)

lemma double_sub_exact: "\<bar>a - b\<bar> < 2 ^ 53 \<Longrightarrow> double_sub a b = a - b"
  by (simp add: double_sub_def round_double_small)

end
