(* ===== verification/Ptt_Guard.thy ===== *)
theory Ptt_Guard
  imports Framing Float64
begin

text \<open>
  The session supervisor \<^verbatim>\<open>PttDuplexGuard\<close> of \<^verbatim>\<open>framing.py\<close>. The object is the record
  \<open>ptt_guard\<close>; its methods are actions that return a result or an error code together with the
  object they leave, composed with \<open>bindG\<close> where the code calls one method after another.
  \<open>_fail\<close> is \<open>failG\<close>: it aborts and closes the object before it raises. Clock readings are
  doubles, with the rounding of \<^verbatim>\<open>now - 1.0\<close> and \<^verbatim>\<open>now - wall_started_at\<close> (theory \<open>Float64\<close>).
\<close>

subsection \<open>State\<close>

definition MAX_TRANSPORT_PCM_FRAME_BYTES :: nat where "MAX_TRANSPORT_PCM_FRAME_BYTES = 6400"
definition MAX_DIRECTION_BYTES :: nat where "MAX_DIRECTION_BYTES = 8388608"
definition MAX_MEDIA_SAMPLES :: nat where "MAX_MEDIA_SAMPLES = 16000 * 90"
definition MAX_MEDIA_WALL_SECONDS :: double where "MAX_MEDIA_WALL_SECONDS = double_of_units 90"
definition MAX_PCM_FRAMES_PER_SECOND :: nat where "MAX_PCM_FRAMES_PER_SECOND = 50"

datatype duplex_state =
    WAIT_SESSION_OPEN | WAIT_SESSION_READY | READY | ARMING | ARMING_SUBMIT_PENDING | CAPTURING
  | CAPTURE_SUBMIT_PENDING | CAPTURE_CLOSED | PLAYING | PLAYBACK_CLOSED | CLEANUP_REQUIRED
  | RECEIPT_RECEIVED | ACKNOWLEDGED | ABORTED

record media_stats =
  byte_count :: nat
  sample_count :: nat
  wall_started_at :: "double option"
  frame_times :: "double list"
  ended :: bool

definition media_init :: media_stats where
  "media_init = \<lparr>byte_count = 0, sample_count = 0, wall_started_at = None, frame_times = [],
                 ended = False\<rparr>"

record ptt_guard =
  g_turn_id :: uuid
  g_input_mode :: ptt_input_mode
  g_state :: duplex_state
  g_late_state :: duplex_state
  g_next_sequence :: "stream_direction \<Rightarrow> int"
  g_media :: "stream_direction \<Rightarrow> media_stats"
  g_last_now :: "double option"
  g_closed :: bool
  g_outcome :: ptt_session_outcome
  g_cleanup_latched :: bool
  g_receipt_complete :: "bool option"
  g_ptt_started :: bool
  g_ptt_submitted :: bool

definition guard_init :: "uuid \<Rightarrow> ptt_input_mode \<Rightarrow> ptt_guard" where
  "guard_init t m =
     \<lparr>g_turn_id = t, g_input_mode = m, g_state = WAIT_SESSION_OPEN, g_late_state = WAIT_SESSION_OPEN,
      g_next_sequence = (\<lambda>_. 0), g_media = (\<lambda>_. media_init), g_last_now = None, g_closed = False,
      g_outcome = O_COMPLETED, g_cleanup_latched = False, g_receipt_complete = None,
      g_ptt_started = False, g_ptt_submitted = False\<rparr>"

subsection \<open>Actions\<close>

type_synonym 'a guard_action = "ptt_guard \<Rightarrow> (frame_error_code + 'a) \<times> ptt_guard"

definition retG :: "'a \<Rightarrow> 'a guard_action" where
  "retG x g = (Inr x, g)"

definition bindG :: "'a guard_action \<Rightarrow> ('a \<Rightarrow> 'b guard_action) \<Rightarrow> 'b guard_action" where
  "bindG m f g = (case m g of (Inl e, g') \<Rightarrow> (Inl e, g') | (Inr x, g') \<Rightarrow> f x g')"

definition failG :: "frame_error_code \<Rightarrow> 'a guard_action" where
  "failG c g = (Inl c, g\<lparr>g_state := ABORTED, g_closed := True\<rparr>)"

definition guard_require_open :: "unit guard_action" where
  "guard_require_open g = (if g_closed g then (Inl CLOSED, g) else (Inr (), g))"

subsection \<open>Kind sets\<close>

definition CORE_CONTROL_KINDS :: "control_kind set" where
  "CORE_CONTROL_KINDS = {SESSION_OPEN, PTT_START, PTT_SUBMIT, HEARTBEAT, PLAYBACK_START,
     PLAYBACK_END, ABORT, SAFETY_ACK, ERROR}"

definition EDGE_CONTROL_KINDS :: "control_kind set" where
  "EDGE_CONTROL_KINDS = {SESSION_READY, CAPTURE_START, CAPTURE_END, STOP, CANCEL, SAFETY_RECEIPT,
     ERROR}"

definition CLEANUP_KINDS :: "control_kind set" where
  "CLEANUP_KINDS = {STOP, CANCEL, ABORT, ERROR}"

definition LATE_CONTROL_KINDS :: "control_kind set" where
  "LATE_CONTROL_KINDS = {SESSION_READY, PTT_START, PTT_SUBMIT, HEARTBEAT, CAPTURE_START,
     CAPTURE_END, PLAYBACK_START, PLAYBACK_END}"

definition reason_outcome :: "ptt_error_reason \<Rightarrow> ptt_session_outcome" where
  "reason_outcome r =
     (case r of
        R_PROTOCOL_REJECTED \<Rightarrow> O_PROTOCOL_REJECTED
      | R_TURN_CANCELLED \<Rightarrow> O_CANCELLED
      | R_CAPTURE_FAILED \<Rightarrow> O_CAPTURE_FAILED
      | R_PROVIDER_FAILED \<Rightarrow> O_PROVIDER_FAILED
      | R_PLAYBACK_FAILED \<Rightarrow> O_PLAYBACK_FAILED
      | R_CLEANUP_INCOMPLETE \<Rightarrow> O_CLEANUP_INCOMPLETE
      | R_PEER_CLOSED \<Rightarrow> O_PEER_CLOSED
      | R_SESSION_TIMEOUT \<Rightarrow> O_SESSION_TIMEOUT)"

subsection \<open>Validation\<close>

definition validate_clock :: "py_number \<Rightarrow> double guard_action" where
  "validate_clock now g =
     (let normalized = (case now of
            PyInt n \<Rightarrow> (case float_of_int n of
                None \<Rightarrow> None
              | Some r \<Rightarrow> if r \<noteq> double_of_units n then None else Some r)
          | PyFloat r \<Rightarrow> Some r
          | PyNan \<Rightarrow> None
          | PyInf _ \<Rightarrow> None) in
      case normalized of
        None \<Rightarrow> failG INVALID_CLOCK g
      | Some r \<Rightarrow>
          if (case g_last_now g of None \<Rightarrow> False | Some l \<Rightarrow> r < l) then failG INVALID_CLOCK g
          else (Inr r, g\<lparr>g_last_now := Some r\<rparr>))"

definition validate_frame :: "stream_direction \<Rightarrow> wire_frame \<Rightarrow> unit guard_action" where
  "validate_frame direction frame g =
     (if wf_turn_id frame \<noteq> g_turn_id g then failG TURN_MISMATCH g
      else let expected = g_next_sequence g direction in
        if wf_sequence frame \<noteq> expected \<or> expected > UINT32_MAX then failG INVALID_SEQUENCE g
        else case frame of
               PcmFrame _ _ _ \<Rightarrow> (Inr (), g)
             | ControlFrame _ _ control \<Rightarrow>
                 if c_kind control
                      \<notin> (if direction = CORE_TO_EDGE then CORE_CONTROL_KINDS else EDGE_CONTROL_KINDS)
                 then failG INVALID_DIRECTION g
                 else (Inr (), g))"

definition advance_sequence :: "stream_direction \<Rightarrow> ptt_guard \<Rightarrow> ptt_guard" where
  "advance_sequence direction g =
     g\<lparr>g_next_sequence := (g_next_sequence g)(direction := g_next_sequence g direction + 1)\<rparr>"

subsection \<open>Media accounting\<close>

definition set_media :: "stream_direction \<Rightarrow> media_stats \<Rightarrow> ptt_guard \<Rightarrow> ptt_guard" where
  "set_media direction stats g = g\<lparr>g_media := (g_media g)(direction := stats)\<rparr>"

definition start_media :: "stream_direction \<Rightarrow> double \<Rightarrow> unit guard_action" where
  "start_media direction now g =
     (let stats = g_media g direction in
      if wall_started_at stats \<noteq> None \<or> ended stats then failG INVALID_ORDER g
      else (Inr (), set_media direction (stats\<lparr>wall_started_at := Some now\<rparr>) g))"

definition require_wall :: "stream_direction \<Rightarrow> double \<Rightarrow> media_stats guard_action" where
  "require_wall direction now g =
     (let stats = g_media g direction in
      case wall_started_at stats of
        None \<Rightarrow> failG INVALID_ORDER g
      | Some started \<Rightarrow>
          if ended stats then failG INVALID_ORDER g
          else if double_sub now started > MAX_MEDIA_WALL_SECONDS then failG DURATION_LIMIT g
          else (Inr stats, g))"

definition expire_frames :: "double \<Rightarrow> double list \<Rightarrow> double list" where
  "expire_frames cutoff = dropWhile (\<lambda>t. t < cutoff)"

text \<open>The expired times are removed from the shared queue also when the rate limit then fails.\<close>

definition admit_pcm :: "stream_direction \<Rightarrow> bytes \<Rightarrow> double \<Rightarrow> unit guard_action" where
  "admit_pcm direction pcm now =
     bindG (require_wall direction now) (\<lambda>stats g.
       let pcm_bytes = length pcm; samples = pcm_bytes div 2 in
       if pcm_bytes > MAX_TRANSPORT_PCM_FRAME_BYTES then failG PCM_LIMIT g
       else if byte_count stats + pcm_bytes > MAX_DIRECTION_BYTES then failG PCM_LIMIT g
       else if sample_count stats + samples > MAX_MEDIA_SAMPLES then failG DURATION_LIMIT g
       else
         let times = expire_frames (double_sub now (double_of_units 1)) (frame_times stats) in
         if length times \<ge> MAX_PCM_FRAMES_PER_SECOND
         then failG RATE_LIMIT (set_media direction (stats\<lparr>frame_times := times\<rparr>) g)
         else (Inr (), set_media direction
                 (stats\<lparr>byte_count := byte_count stats + pcm_bytes,
                        sample_count := sample_count stats + samples,
                        frame_times := times @ [now]\<rparr>) g))"

definition end_media :: "stream_direction \<Rightarrow> double \<Rightarrow> unit guard_action" where
  "end_media direction now =
     bindG (require_wall direction now) (\<lambda>stats g.
       if sample_count stats = 0 then failG INVALID_ORDER g
       else (Inr (), set_media direction (stats\<lparr>ended := True\<rparr>) g))"

definition require_transport_start :: "ptt_control \<Rightarrow> unit guard_action" where
  "require_transport_start control g =
     (case c_payload control of
        StartPayload f \<Rightarrow> if f \<noteq> TRANSPORT_AUDIO_FORMAT then failG INVALID_CONTROL g else (Inr (), g)
      | _ \<Rightarrow> failG INVALID_CONTROL g)"

subsection \<open>Cleanup and control\<close>

definition latch_cleanup :: "ptt_control \<Rightarrow> ptt_guard \<Rightarrow> ptt_guard" where
  "latch_cleanup control g =
     (let g1 = (if g_state g \<notin> {CLEANUP_REQUIRED, RECEIPT_RECEIVED}
                then g\<lparr>g_late_state := g_state g\<rparr> else g);
          g2 = (if \<not> g_cleanup_latched g1 then
                  (if c_kind control \<in> {STOP, CANCEL} then g1\<lparr>g_outcome := O_CANCELLED\<rparr>
                   else case c_payload control of
                          ErrorPayload r \<Rightarrow> g1\<lparr>g_outcome := reason_outcome r\<rparr>
                        | _ \<Rightarrow> g1)\<lparr>g_cleanup_latched := True\<rparr>
                else g1) in
      if g_state g2 \<noteq> RECEIPT_RECEIVED then g2\<lparr>g_state := CLEANUP_REQUIRED\<rparr> else g2)"

definition to_state :: "duplex_state \<Rightarrow> guard_disposition guard_action" where
  "to_state s g = (Inr ACCEPTED, g\<lparr>g_state := s\<rparr>)"

definition begin_media :: "ptt_control \<Rightarrow> stream_direction \<Rightarrow> double \<Rightarrow> duplex_state
    \<Rightarrow> guard_disposition guard_action" where
  "begin_media control direction now s =
     bindG (require_transport_start control) (\<lambda>_.
     bindG (start_media direction now) (\<lambda>_. to_state s))"

definition session_control :: "ptt_control \<Rightarrow> bool \<Rightarrow> duplex_state
    \<Rightarrow> guard_disposition guard_action" where
  "session_control control expected s g =
     (if \<not> expected then failG INVALID_ORDER g
      else case c_payload control of
             SessionPayload mode \<Rightarrow>
               if mode \<noteq> g_input_mode g then failG INVALID_ORDER g else to_state s g
           | _ \<Rightarrow> failG INVALID_CONTROL g)"

definition receive_receipt :: "ptt_control \<Rightarrow> guard_disposition guard_action" where
  "receive_receipt control g =
     (case c_payload control of
        SafetyPayload receipt \<Rightarrow>
          (Inr ACCEPTED, g\<lparr>g_receipt_complete := Some (is_complete receipt), g_state := RECEIPT_RECEIVED\<rparr>)
      | _ \<Rightarrow> failG INVALID_CONTROL g)"

definition accept_normal_control ::
    "stream_direction \<Rightarrow> ptt_control \<Rightarrow> double \<Rightarrow> guard_disposition guard_action" where
  "accept_normal_control direction control now g =
     (let kind = c_kind control in
      if kind \<in> CLEANUP_KINDS then (Inr ACCEPTED, latch_cleanup control g)
      else if kind = HEARTBEAT then
        (if g_state g \<notin> {WAIT_SESSION_READY, READY, ARMING, ARMING_SUBMIT_PENDING, CAPTURING,
              CAPTURE_SUBMIT_PENDING, CAPTURE_CLOSED, PLAYING, PLAYBACK_CLOSED}
         then failG INVALID_ORDER g else (Inr ACCEPTED, g))
      else
        (case g_state g of
           WAIT_SESSION_OPEN \<Rightarrow>
             session_control control (kind = SESSION_OPEN \<and> direction = CORE_TO_EDGE) WAIT_SESSION_READY g
         | WAIT_SESSION_READY \<Rightarrow>
             session_control control (kind = SESSION_READY \<and> direction = EDGE_TO_CORE) READY g
         | READY \<Rightarrow>
             if g_input_mode g = CORE_TERMINAL_TOGGLE \<and> kind = PTT_START
             then to_state ARMING (g\<lparr>g_ptt_started := True\<rparr>)
             else if g_input_mode g = REACHY_LOCAL \<and> kind = CAPTURE_START
             then begin_media control EDGE_TO_CORE now CAPTURING g
             else failG INVALID_ORDER g
         | ARMING \<Rightarrow>
             if kind = PTT_SUBMIT then to_state ARMING_SUBMIT_PENDING (g\<lparr>g_ptt_submitted := True\<rparr>)
             else if kind = CAPTURE_START then begin_media control EDGE_TO_CORE now CAPTURING g
             else failG INVALID_ORDER g
         | ARMING_SUBMIT_PENDING \<Rightarrow>
             if kind \<noteq> CAPTURE_START then failG INVALID_ORDER g
             else begin_media control EDGE_TO_CORE now CAPTURE_SUBMIT_PENDING g
         | CAPTURING \<Rightarrow>
             if kind = PTT_SUBMIT \<and> g_input_mode g = CORE_TERMINAL_TOGGLE
             then to_state CAPTURE_SUBMIT_PENDING (g\<lparr>g_ptt_submitted := True\<rparr>)
             else if kind = CAPTURE_END \<and> g_input_mode g = REACHY_LOCAL
             then bindG (end_media EDGE_TO_CORE now) (\<lambda>_. to_state CAPTURE_CLOSED) g
             else failG INVALID_ORDER g
         | CAPTURE_SUBMIT_PENDING \<Rightarrow>
             if kind \<noteq> CAPTURE_END then failG INVALID_ORDER g
             else bindG (end_media EDGE_TO_CORE now) (\<lambda>_. to_state CAPTURE_CLOSED) g
         | CAPTURE_CLOSED \<Rightarrow>
             if kind \<noteq> PLAYBACK_START then failG INVALID_ORDER g
             else begin_media control CORE_TO_EDGE now PLAYING g
         | PLAYING \<Rightarrow>
             if kind \<noteq> PLAYBACK_END then failG INVALID_ORDER g
             else bindG (end_media CORE_TO_EDGE now) (\<lambda>_. to_state PLAYBACK_CLOSED) g
         | PLAYBACK_CLOSED \<Rightarrow>
             if kind \<noteq> SAFETY_RECEIPT then failG INVALID_ORDER g
             else receive_receipt control g
         | _ \<Rightarrow> failG INVALID_ORDER g))"

definition pcm_state_ok :: "stream_direction \<Rightarrow> duplex_state \<Rightarrow> bool" where
  "pcm_state_ok direction s \<longleftrightarrow>
     s \<in> {if direction = EDGE_TO_CORE then CAPTURING else PLAYING, CAPTURE_SUBMIT_PENDING}
     \<and> \<not> (direction = CORE_TO_EDGE \<and> s = CAPTURE_SUBMIT_PENDING)"

definition accept_pcm :: "stream_direction \<Rightarrow> duplex_state \<Rightarrow> bytes \<Rightarrow> double \<Rightarrow> guard_disposition
    \<Rightarrow> guard_disposition guard_action" where
  "accept_pcm direction s pcm now disposition g =
     (if \<not> pcm_state_ok direction s then failG INVALID_ORDER g
      else bindG (admit_pcm direction pcm now) (\<lambda>_. retG disposition) g)"

definition TERMINAL_STATES :: "duplex_state set" where
  "TERMINAL_STATES = {CLEANUP_REQUIRED, RECEIPT_RECEIVED, ACKNOWLEDGED, ABORTED}"

definition accept_late_progress ::
    "stream_direction \<Rightarrow> wire_frame \<Rightarrow> double \<Rightarrow> guard_disposition guard_action" where
  "accept_late_progress direction frame now g =
     (case frame of
        PcmFrame _ _ pcm \<Rightarrow> accept_pcm direction (g_late_state g) pcm now LATE_DISCARDED g
      | ControlFrame _ _ control \<Rightarrow>
          if c_kind control \<notin> LATE_CONTROL_KINDS then failG INVALID_ORDER g
          else
            let cleanup_state = g_state g in
            bindG (accept_normal_control direction control now) (\<lambda>_ g1.
              if g_state g1 \<in> TERMINAL_STATES then failG INVALID_ORDER g1
              else (Inr LATE_DISCARDED, g1\<lparr>g_late_state := g_state g1, g_state := cleanup_state\<rparr>))
              (g\<lparr>g_state := g_late_state g\<rparr>))"

definition receive_ack :: "ptt_control \<Rightarrow> guard_disposition guard_action" where
  "receive_ack control g =
     (case (c_payload control, g_receipt_complete g) of
        (AckPayload accepted, Some receipt_complete) \<Rightarrow>
          if accepted \<and> \<not> receipt_complete then failG INVALID_ORDER g
          else (Inr ACCEPTED,
                (if \<not> accepted then g\<lparr>g_outcome := O_CLEANUP_INCOMPLETE\<rparr> else g)\<lparr>g_state := ACKNOWLEDGED\<rparr>)
      | _ \<Rightarrow> failG INVALID_CONTROL g)"

definition accept_cleanup_phase ::
    "stream_direction \<Rightarrow> wire_frame \<Rightarrow> double \<Rightarrow> guard_disposition guard_action" where
  "accept_cleanup_phase direction frame now g =
     (case frame of
        PcmFrame _ _ _ \<Rightarrow> accept_late_progress direction frame now g
      | ControlFrame _ _ control \<Rightarrow>
          if c_kind control \<in> CLEANUP_KINDS then (Inr ACCEPTED, latch_cleanup control g)
          else if c_kind control = SAFETY_RECEIPT \<and> g_state g = CLEANUP_REQUIRED
          then receive_receipt control g
          else if c_kind control = SAFETY_ACK \<and> g_state g = RECEIPT_RECEIVED
          then receive_ack control g
          else accept_late_progress direction frame now g)"

record guarded_frame =
  gf_direction :: stream_direction
  gf_frame :: wire_frame
  gf_disposition :: guard_disposition

definition dispatch :: "stream_direction \<Rightarrow> wire_frame \<Rightarrow> double \<Rightarrow> guard_disposition guard_action" where
  "dispatch direction frame now g =
     (if g_state g = ACKNOWLEDGED then failG INVALID_ORDER g
      else if g_state g \<in> {CLEANUP_REQUIRED, RECEIPT_RECEIVED}
      then accept_cleanup_phase direction frame now g
      else case frame of
             PcmFrame _ _ pcm \<Rightarrow> accept_pcm direction (g_state g) pcm now ACCEPTED g
           | ControlFrame _ _ control \<Rightarrow> accept_normal_control direction control now g)"

definition accept :: "stream_direction \<Rightarrow> wire_frame \<Rightarrow> py_number \<Rightarrow> guarded_frame guard_action" where
  "accept direction frame now =
     bindG guard_require_open (\<lambda>_.
     bindG (validate_clock now) (\<lambda>normalized_now.
     bindG (validate_frame direction frame) (\<lambda>_.
     bindG (dispatch direction frame normalized_now) (\<lambda>disposition g.
       let g1 = (if g_state g \<notin> TERMINAL_STATES then g\<lparr>g_late_state := g_state g\<rparr> else g) in
       (Inr \<lparr>gf_direction = direction, gf_frame = frame, gf_disposition = disposition\<rparr>,
        advance_sequence direction g1)))))"

definition guard_finish :: "ptt_session_outcome guard_action" where
  "guard_finish =
     bindG guard_require_open (\<lambda>_ g.
       if g_state g \<noteq> ACKNOWLEDGED then failG INVALID_ORDER g
       else (Inr (g_outcome g), g\<lparr>g_closed := True\<rparr>))"

definition guard_abort :: "ptt_guard \<Rightarrow> ptt_guard" where
  "guard_abort g = g\<lparr>g_state := ABORTED, g_closed := True\<rparr>"

subsection \<open>Composition\<close>

lemma bindG_eq_Inr: "bindG m f g = (Inr y, g') \<longleftrightarrow> (\<exists>x g1. m g = (Inr x, g1) \<and> f x g1 = (Inr y, g'))"
  by (auto simp: bindG_def split: prod.splits sum.splits)

lemma bindG_eq_Inl:
  "bindG m f g = (Inl e, g') \<longleftrightarrow> m g = (Inl e, g') \<or> (\<exists>x g1. m g = (Inr x, g1) \<and> f x g1 = (Inl e, g'))"
  by (auto simp: bindG_def split: prod.splits sum.splits)

lemma failG_eq [simp]:
  "failG c g \<noteq> (Inr x, g')"
  "failG c g = (Inl e, g') \<longleftrightarrow> e = c \<and> g' = g\<lparr>g_state := ABORTED, g_closed := True\<rparr>"
  by (auto simp: failG_def)

subsection \<open>Accounting invariant\<close>

definition media_ok :: "media_stats \<Rightarrow> bool" where
  "media_ok m \<longleftrightarrow> byte_count m = 2 * sample_count m \<and> byte_count m \<le> MAX_DIRECTION_BYTES
     \<and> sample_count m \<le> MAX_MEDIA_SAMPLES \<and> length (frame_times m) \<le> MAX_PCM_FRAMES_PER_SECOND"

definition media_done :: "media_stats \<Rightarrow> bool" where
  "media_done m \<longleftrightarrow> ended m \<and> 0 < sample_count m"

definition media_running :: "media_stats \<Rightarrow> bool" where
  "media_running m \<longleftrightarrow> wall_started_at m \<noteq> None \<and> \<not> ended m"

text \<open>What each progress state says about the two directions.\<close>

definition phase_ok :: "duplex_state \<Rightarrow> (stream_direction \<Rightarrow> media_stats) \<Rightarrow> bool" where
  "phase_ok s media =
     (let capture = media EDGE_TO_CORE; playback = media CORE_TO_EDGE in
      case s of
        CAPTURING \<Rightarrow> media_running capture \<and> playback = media_init
      | CAPTURE_SUBMIT_PENDING \<Rightarrow> media_running capture \<and> playback = media_init
      | CAPTURE_CLOSED \<Rightarrow> media_done capture \<and> playback = media_init
      | PLAYING \<Rightarrow> media_done capture \<and> media_running playback
      | PLAYBACK_CLOSED \<Rightarrow> media_done capture \<and> media_done playback
      | CLEANUP_REQUIRED \<Rightarrow> False | RECEIPT_RECEIVED \<Rightarrow> False | ACKNOWLEDGED \<Rightarrow> False | ABORTED \<Rightarrow> False
      | _ \<Rightarrow> capture = media_init \<and> playback = media_init)"

lemma media_ok_init [simp]: "media_ok media_init"
  by (simp add: media_ok_def media_init_def)

lemma admit_pcm_InrD:
  assumes "admit_pcm direction pcm now g = (Inr u, g')" and "even (length pcm)"
  shows "\<exists>m'. g' = set_media direction m' g \<and> media_running (g_media g direction) \<and> media_running m'
      \<and> (media_ok (g_media g direction) \<longrightarrow> media_ok m')
      \<and> sample_count m' = sample_count (g_media g direction) + length pcm div 2
      \<and> frame_times m' = expire_frames (double_sub now (double_of_units 1)) (frame_times (g_media g direction)) @ [now]
      \<and> length (frame_times m') \<le> MAX_PCM_FRAMES_PER_SECOND
      \<and> length pcm \<le> MAX_TRANSPORT_PCM_FRAME_BYTES"
  using assms
  by (auto simp: admit_pcm_def bindG_eq_Inr require_wall_def Let_def media_running_def media_ok_def
      split: option.splits if_splits)

lemma end_media_InrD:
  assumes "end_media direction now g = (Inr u, g')"
  shows "media_running (g_media g direction) \<and> 0 < sample_count (g_media g direction)
    \<and> g' = set_media direction ((g_media g direction)\<lparr>ended := True\<rparr>) g"
  using assms
  by (auto simp: end_media_def bindG_eq_Inr require_wall_def Let_def media_running_def
      split: option.splits if_splits)

lemma begin_media_InrD:
  assumes "begin_media c direction now s g = (Inr d, g')"
  shows "d = ACCEPTED \<and> c_payload c = StartPayload TRANSPORT_AUDIO_FORMAT
    \<and> g' = (set_media direction ((g_media g direction)\<lparr>wall_started_at := Some now\<rparr>) g)\<lparr>g_state := s\<rparr>"
  using assms
  by (auto simp: begin_media_def bindG_eq_Inr require_transport_start_def start_media_def to_state_def Let_def
      split: ptt_payload.splits if_splits)

text \<open>
  The fields a progress control message may change, and what it may make of them.
\<close>

definition progress_step :: "ptt_guard \<Rightarrow> ptt_guard \<Rightarrow> bool" where
  "progress_step g g' \<longleftrightarrow>
     g_turn_id g' = g_turn_id g \<and> g_input_mode g' = g_input_mode g \<and> g_late_state g' = g_late_state g
     \<and> g_next_sequence g' = g_next_sequence g \<and> g_last_now g' = g_last_now g
     \<and> g_closed g' = g_closed g \<and> g_outcome g' = g_outcome g
     \<and> g_cleanup_latched g' = g_cleanup_latched g
     \<and> (if g_state g' = RECEIPT_RECEIVED
        then g_state g = PLAYBACK_CLOSED \<and> g_media g' = g_media g \<and> g_receipt_complete g' \<noteq> None
        else phase_ok (g_state g') (g_media g') \<and> g_receipt_complete g' = g_receipt_complete g
          \<and> (\<forall>x. frame_times (g_media g' x) = frame_times (g_media g x)
                 \<and> sample_count (g_media g' x) = sample_count (g_media g x))
          \<and> ((\<forall>x. media_ok (g_media g x)) \<longrightarrow> (\<forall>x. media_ok (g_media g' x))))"

lemma accept_normal_control_progress:
  assumes "accept_normal_control direction c now g = (Inr d, g')" and "c_kind c \<notin> CLEANUP_KINDS"
    and "phase_ok (g_state g) (g_media g)"
  shows "d = ACCEPTED \<and> progress_step g g'"
proof (cases "c_kind c = HEARTBEAT")
  case True
  with assms show ?thesis
    by (auto simp: accept_normal_control_def Let_def progress_step_def phase_ok_def split: if_splits)
next
  case False
  note simps = accept_normal_control_def Let_def progress_step_def phase_ok_def session_control_def
    to_state_def receive_receipt_def bindG_eq_Inr
  from assms False show ?thesis
    by (cases "g_state g")
      (auto simp: simps media_init_def media_running_def media_done_def media_ok_def set_media_def
        dest!: begin_media_InrD end_media_InrD
        split: if_splits ptt_payload.splits)
qed

subsection \<open>The session invariant\<close>

definition phase :: "ptt_guard \<Rightarrow> duplex_state" where
  "phase g = (if g_state g \<in> TERMINAL_STATES then g_late_state g else g_state g)"

definition outcome_ok :: "ptt_guard \<Rightarrow> bool" where
  "outcome_ok g \<longleftrightarrow>
     (g_state g \<notin> TERMINAL_STATES \<longrightarrow>
        g_late_state g = g_state g \<and> \<not> g_cleanup_latched g \<and> g_receipt_complete g = None)
     \<and> (g_state g = CLEANUP_REQUIRED \<longrightarrow> g_cleanup_latched g)
     \<and> (if g_cleanup_latched g then g_outcome g \<noteq> O_COMPLETED
        else g_outcome g = (if g_state g = ACKNOWLEDGED then g_outcome g else O_COMPLETED)
          \<and> (g_state g \<in> {RECEIPT_RECEIVED, ACKNOWLEDGED} \<longrightarrow> g_late_state g = PLAYBACK_CLOSED))
     \<and> (g_state g \<in> {RECEIPT_RECEIVED, ACKNOWLEDGED} \<longrightarrow> g_receipt_complete g \<noteq> None)
     \<and> (g_state g = ACKNOWLEDGED \<longrightarrow> g_outcome g = O_CLEANUP_INCOMPLETE \<or> g_receipt_complete g = Some True)"

definition guard_inv :: "ptt_guard \<Rightarrow> bool" where
  "guard_inv g \<longleftrightarrow>
     (g_state g \<noteq> ABORTED \<longrightarrow>
        phase_ok (phase g) (g_media g) \<and> (\<forall>x. media_ok (g_media g x)) \<and> outcome_ok g)"

definition frame_valid :: "wire_frame \<Rightarrow> bool" where
  "frame_valid frame =
     (case frame of
        ControlFrame t s c \<Rightarrow> mk_ControlFrame t s c = Inr frame \<and> exact_payload_for_kind c
      | PcmFrame t s pcm \<Rightarrow> mk_PcmFrame t s pcm = Inr frame)"

lemma frame_valid_pcm: "frame_valid (PcmFrame t s pcm) \<Longrightarrow> even (length pcm) \<and> 0 < length pcm"
  by (auto simp: frame_valid_def mk_PcmFrame_def split: sum.splits if_splits)

lemma reason_outcome_not_completed [simp]: "reason_outcome r \<noteq> O_COMPLETED"
  by (simp add: reason_outcome_def split: ptt_error_reason.split)

text \<open>The last bookkeeping of \<open>accept\<close>.\<close>

definition sync_late :: "ptt_guard \<Rightarrow> ptt_guard" where
  "sync_late g = (if g_state g \<notin> TERMINAL_STATES then g\<lparr>g_late_state := g_state g\<rparr> else g)"

lemma latch_cleanup_eq:
  assumes "c_kind c \<in> CLEANUP_KINDS" and "exact_payload_for_kind c"
  obtains out where "out \<noteq> O_COMPLETED" and "latch_cleanup c g =
    g\<lparr>g_late_state := (if g_state g \<in> {CLEANUP_REQUIRED, RECEIPT_RECEIVED} then g_late_state g else g_state g),
      g_outcome := (if g_cleanup_latched g then g_outcome g else out), g_cleanup_latched := True,
      g_state := (if g_state g = RECEIPT_RECEIVED then RECEIPT_RECEIVED else CLEANUP_REQUIRED)\<rparr>"
proof (cases "c_kind c \<in> {STOP, CANCEL}")
  case True
  then show thesis using that [of O_CANCELLED] by (auto simp: latch_cleanup_def Let_def)
next
  case False
  then obtain r where "c_payload c = ErrorPayload r"
    using assms by (auto simp: CLEANUP_KINDS_def exact_payload_for_kind_def payload_type_ok_def
        split: ptt_payload.splits)
  with False show thesis using that [of "reason_outcome r"] by (auto simp: latch_cleanup_def Let_def)
qed

lemma latch_cleanup_inv:
  assumes "guard_inv g" and "g_state g \<notin> {ACKNOWLEDGED, ABORTED}" and "c_kind c \<in> CLEANUP_KINDS"
    and "exact_payload_for_kind c"
  shows "guard_inv (latch_cleanup c g)" and "g_state (latch_cleanup c g) \<in> {CLEANUP_REQUIRED, RECEIPT_RECEIVED}"
    and "g_media (latch_cleanup c g) = g_media g"
proof -
  obtain out where out: "out \<noteq> O_COMPLETED" and eq: "latch_cleanup c g =
    g\<lparr>g_late_state := (if g_state g \<in> {CLEANUP_REQUIRED, RECEIPT_RECEIVED} then g_late_state g else g_state g),
      g_outcome := (if g_cleanup_latched g then g_outcome g else out), g_cleanup_latched := True,
      g_state := (if g_state g = RECEIPT_RECEIVED then RECEIPT_RECEIVED else CLEANUP_REQUIRED)\<rparr>"
    using latch_cleanup_eq [OF assms(3,4)] by metis
  show "g_state (latch_cleanup c g) \<in> {CLEANUP_REQUIRED, RECEIPT_RECEIVED}"
    "g_media (latch_cleanup c g) = g_media g" by (simp_all add: eq)
  have n: "g_state g \<noteq> ABORTED" "g_state g \<noteq> ACKNOWLEDGED" using assms(2) by simp_all
  note inv = assms(1) [unfolded guard_inv_def outcome_ok_def phase_def TERMINAL_STATES_def]
  show "guard_inv (latch_cleanup c g)"
    using inv n out
    by (cases "g_state g = RECEIPT_RECEIVED"; cases "g_state g = CLEANUP_REQUIRED")
      (simp_all add: eq guard_inv_def outcome_ok_def phase_def TERMINAL_STATES_def split: if_splits)
qed

lemma phase_ok_pcm:
  "phase_ok p media \<Longrightarrow> pcm_state_ok direction p \<Longrightarrow> media_running m \<Longrightarrow> phase_ok p (media(direction := m))"
  by (cases direction) (auto simp: phase_ok_def pcm_state_ok_def Let_def)

lemma set_media_inv:
  assumes "guard_inv g" and "media_ok m" and "phase_ok (phase g) (g_media g) \<Longrightarrow> phase_ok (phase g) ((g_media g)(d := m))"
  shows "guard_inv (set_media d m g)"
  using assms by (auto simp: guard_inv_def set_media_def phase_def outcome_ok_def)

lemma sync_late_inv: "guard_inv g \<Longrightarrow> guard_inv (sync_late g)"
  by (auto simp: guard_inv_def sync_late_def phase_def outcome_ok_def)

lemma accept_pcm_inv:
  assumes inv: "guard_inv g" and st: "g_state g \<noteq> ABORTED" and ev: "even (length pcm)"
    and a: "accept_pcm direction (phase g) pcm now disposition g = (Inr d, g')"
  shows "guard_inv g' \<and> g_state g' = g_state g \<and> d = disposition"
proof -
  have p: "pcm_state_ok direction (phase g)" and "d = disposition"
    and "admit_pcm direction pcm now g = (Inr (), g')"
    using a by (auto simp: accept_pcm_def bindG_eq_Inr retG_def split: if_splits)
  with admit_pcm_InrD [OF _ ev] obtain m' where g': "g' = set_media direction m' g"
    "media_running m'" "media_ok (g_media g direction) \<longrightarrow> media_ok m'" by metis
  have "media_ok m'" using g'(3) inv st by (simp add: guard_inv_def)
  from set_media_inv [OF inv this] phase_ok_pcm [OF _ p g'(2)] g'(1) \<open>d = disposition\<close>
  show ?thesis by (simp add: set_media_def)
qed

lemma progress_step_inv:
  assumes inv: "guard_inv g" and st: "g_state g \<notin> TERMINAL_STATES" and step: "progress_step g g'"
  shows "guard_inv (sync_late g') \<and> g_state g' \<noteq> ABORTED"
proof -
  have i: "phase_ok (g_state g) (g_media g)" "\<forall>x. media_ok (g_media g x)" "g_late_state g = g_state g"
    "\<not> g_cleanup_latched g" "g_receipt_complete g = None" "g_outcome g = O_COMPLETED"
    using inv st by (auto simp: guard_inv_def outcome_ok_def phase_def TERMINAL_STATES_def split: if_splits)
  have eq: "g_late_state g' = g_late_state g" "g_cleanup_latched g' = g_cleanup_latched g"
    "g_outcome g' = g_outcome g" using step by (simp_all add: progress_step_def)
  show ?thesis
  proof (cases "g_state g' = RECEIPT_RECEIVED")
    case True
    with step i eq show ?thesis
      by (simp add: progress_step_def guard_inv_def sync_late_def outcome_ok_def phase_def TERMINAL_STATES_def)
  next
    case False
    then have "phase_ok (g_state g') (g_media g')" using step by (simp add: progress_step_def)
    moreover from this have "g_state g' \<notin> TERMINAL_STATES"
      by (auto simp: phase_ok_def TERMINAL_STATES_def)
    ultimately show ?thesis using step i eq False
      by (simp add: progress_step_def guard_inv_def sync_late_def outcome_ok_def phase_def TERMINAL_STATES_def)
  qed
qed

lemma accept_normal_control_inv:
  assumes inv: "guard_inv g" and st: "g_state g \<notin> TERMINAL_STATES" and v: "exact_payload_for_kind c"
    and a: "accept_normal_control direction c now g = (Inr d, g')"
  shows "guard_inv (sync_late g') \<and> g_state g' \<noteq> ABORTED \<and> d = ACCEPTED"
proof (cases "c_kind c \<in> CLEANUP_KINDS")
  case True
  then have "g' = latch_cleanup c g" "d = ACCEPTED" using a by (auto simp: accept_normal_control_def)
  with latch_cleanup_inv [OF inv _ True v] st show ?thesis
    by (auto simp: TERMINAL_STATES_def intro: sync_late_inv)
next
  case False
  have "phase_ok (g_state g) (g_media g)"
    using inv st by (auto simp: guard_inv_def phase_def TERMINAL_STATES_def)
  from accept_normal_control_progress [OF a False this] progress_step_inv [OF inv st]
  show ?thesis by blast
qed

lemma accept_late_progress_inv:
  assumes inv: "guard_inv g" and st: "g_state g \<in> {CLEANUP_REQUIRED, RECEIPT_RECEIVED}"
    and v: "frame_valid frame" and a: "accept_late_progress direction frame now g = (Inr d, g')"
  shows "guard_inv g' \<and> g_state g' = g_state g \<and> d = LATE_DISCARDED"
proof (cases frame)
  case (PcmFrame t s pcm)
  have ev: "even (length pcm)" using frame_valid_pcm v PcmFrame by blast
  have ph: "phase g = g_late_state g" "g_state g \<noteq> ABORTED" using st by (auto simp: phase_def TERMINAL_STATES_def)
  from a PcmFrame have "accept_pcm direction (phase g) pcm now LATE_DISCARDED g = (Inr d, g')"
    by (simp add: accept_late_progress_def ph)
  from accept_pcm_inv [OF inv ph(2) ev this] show ?thesis by blast
next
  case (ControlFrame t s c)
  define g0 where "g0 = g\<lparr>g_state := g_late_state g\<rparr>"
  from a ControlFrame obtain d1 g1 where k: "c_kind c \<in> LATE_CONTROL_KINDS"
    and n: "accept_normal_control direction c now g0 = (Inr d1, g1)" "g_state g1 \<notin> TERMINAL_STATES"
    and g': "g' = g1\<lparr>g_late_state := g_state g1, g_state := g_state g\<rparr>" "d = LATE_DISCARDED"
    by (auto simp: accept_late_progress_def bindG_eq_Inr Let_def g0_def split: if_splits)
  have "c_kind c \<notin> CLEANUP_KINDS" using k by (auto simp: LATE_CONTROL_KINDS_def CLEANUP_KINDS_def)
  moreover have i: "phase_ok (g_late_state g) (g_media g)" "\<forall>x. media_ok (g_media g x)" "outcome_ok g"
    using inv st by (auto simp: guard_inv_def phase_def TERMINAL_STATES_def)
  ultimately have "progress_step g0 g1"
    using accept_normal_control_progress [OF n(1)] by (simp add: g0_def)
  then have p: "phase_ok (g_state g1) (g_media g1)" "\<forall>x. media_ok (g_media g1 x)"
    "g_cleanup_latched g1 = g_cleanup_latched g" "g_outcome g1 = g_outcome g"
    "g_receipt_complete g1 = g_receipt_complete g"
    using n(2) i(2) by (auto simp: progress_step_def g0_def TERMINAL_STATES_def split: if_splits)
  have "g_state g1 = PLAYBACK_CLOSED" if "g_late_state g = PLAYBACK_CLOSED"
    using that n by (auto simp: g0_def accept_normal_control_def receive_receipt_def Let_def
        CLEANUP_KINDS_def LATE_CONTROL_KINDS_def TERMINAL_STATES_def split: if_splits ptt_payload.splits)
      (use k in \<open>auto simp: LATE_CONTROL_KINDS_def\<close>)
  with p i(3) st show ?thesis
    by (auto simp: g' guard_inv_def phase_def outcome_ok_def TERMINAL_STATES_def split: if_splits)
qed

lemma receive_receipt_inv:
  assumes "guard_inv g" and "g_state g = CLEANUP_REQUIRED" and "receive_receipt c g = (Inr d, g')"
  shows "guard_inv g' \<and> g_state g' = RECEIPT_RECEIVED"
  using assms
  by (auto simp: receive_receipt_def guard_inv_def phase_def outcome_ok_def TERMINAL_STATES_def
      split: ptt_payload.splits if_splits)

lemma receive_ack_inv:
  assumes "guard_inv g" and "g_state g = RECEIPT_RECEIVED" and "receive_ack c g = (Inr d, g')"
  shows "guard_inv g' \<and> g_state g' = ACKNOWLEDGED"
proof -
  obtain ok r where "c_payload c = AckPayload ok" "g_receipt_complete g = Some r" "\<not> (ok \<and> \<not> r)"
    and "g' = (if \<not> ok then g\<lparr>g_outcome := O_CLEANUP_INCOMPLETE\<rparr> else g)\<lparr>g_state := ACKNOWLEDGED\<rparr>"
    using assms(3) by (auto simp: receive_ack_def split: ptt_payload.splits option.splits if_splits)
  with assms(1,2) show ?thesis
    by (cases ok) (auto simp: guard_inv_def phase_def outcome_ok_def TERMINAL_STATES_def split: if_splits)
qed

lemma accept_cleanup_phase_inv:
  assumes inv: "guard_inv g" and st: "g_state g \<in> {CLEANUP_REQUIRED, RECEIPT_RECEIVED}"
    and v: "frame_valid frame" and a: "accept_cleanup_phase direction frame now g = (Inr d, g')"
  shows "guard_inv g' \<and> g_state g' \<noteq> ABORTED"
proof -
  have ne: "g_state g \<noteq> ABORTED" using st by auto
  show ?thesis
  proof (cases frame)
    case (PcmFrame t s pcm)
    then show ?thesis using a accept_late_progress_inv [OF inv st v, of direction now d g'] ne
      by (simp add: accept_cleanup_phase_def)
  next
    case (ControlFrame t s k)
    then have e: "exact_payload_for_kind k" using v by (simp add: frame_valid_def)
    consider (latch) "c_kind k \<in> CLEANUP_KINDS" "g' = latch_cleanup k g"
      | (receipt) "g_state g = CLEANUP_REQUIRED" "receive_receipt k g = (Inr d, g')"
      | (ack) "g_state g = RECEIPT_RECEIVED" "receive_ack k g = (Inr d, g')"
      | (late) "accept_late_progress direction frame now g = (Inr d, g')"
      using a by (auto simp: ControlFrame accept_cleanup_phase_def split: if_splits)
    then show ?thesis
    proof cases
      case latch
      have "g_state g \<notin> {ACKNOWLEDGED, ABORTED}" using st by auto
      from latch_cleanup_inv(1,2) [OF inv this latch(1) e] latch(2) show ?thesis by auto
    next
      case receipt
      from receive_receipt_inv [OF inv this] show ?thesis by simp
    next
      case ack
      from receive_ack_inv [OF inv this] show ?thesis by simp
    next
      case late
      from accept_late_progress_inv [OF inv st v this] ne show ?thesis by simp
    qed
  qed
qed

lemma dispatch_inv:
  assumes inv: "guard_inv g" and st: "g_state g \<noteq> ABORTED" and v: "frame_valid frame"
    and a: "dispatch direction frame now g = (Inr d, g')"
  shows "guard_inv (sync_late g') \<and> g_state g' \<noteq> ABORTED"
proof -
  consider (late) "g_state g \<in> {CLEANUP_REQUIRED, RECEIPT_RECEIVED}" | (normal) "g_state g \<notin> TERMINAL_STATES"
    using a st by (auto simp: dispatch_def TERMINAL_STATES_def split: if_splits)
  then show ?thesis
  proof cases
    case normal
    then have ph: "phase g = g_state g" by (simp add: phase_def)
    show ?thesis
    proof (cases frame)
      case (PcmFrame t s pcm)
      with normal a have "accept_pcm direction (phase g) pcm now ACCEPTED g = (Inr d, g')"
        by (auto simp: dispatch_def ph TERMINAL_STATES_def)
      from accept_pcm_inv [OF inv st _ this] frame_valid_pcm v PcmFrame st show ?thesis
        by (auto intro: sync_late_inv)
    next
      case (ControlFrame t s c)
      with normal a have "accept_normal_control direction c now g = (Inr d, g')"
        by (auto simp: dispatch_def TERMINAL_STATES_def)
      from accept_normal_control_inv [OF inv normal _ this] v ControlFrame show ?thesis
        by (simp add: frame_valid_def)
    qed
  next
    case late
    then have c: "accept_cleanup_phase direction frame now g = (Inr d, g')"
      using a by (auto simp: dispatch_def)
    from accept_cleanup_phase_inv [OF inv late v this]
    show ?thesis using sync_late_inv by blast
  qed
qed

subsection \<open>Failures close the object\<close>

definition fails_closed :: "'a guard_action \<Rightarrow> bool" where
  "fails_closed m \<longleftrightarrow> (\<forall>g e g'. m g = (Inl e, g') \<longrightarrow> g_state g' = ABORTED \<and> g_closed g')"

lemma fails_closed_bind [intro]:
  "fails_closed m \<Longrightarrow> (\<And>x. fails_closed (f x)) \<Longrightarrow> fails_closed (bindG m f)"
  by (auto simp: fails_closed_def bindG_eq_Inl)

lemma fails_closed_Inr [simp]: "fails_closed (\<lambda>g. (Inr x, f g))"
  by (simp add: fails_closed_def)

lemma fails_closed_basic [simp]:
  "fails_closed (failG e)" "fails_closed (retG x)" "fails_closed (to_state s)"
  "fails_closed (validate_clock reading)" "fails_closed (validate_frame direction frame)"
  "fails_closed (start_media direction now)" "fails_closed (require_wall direction now)"
  "fails_closed (require_transport_start c)" "fails_closed (session_control c b s)"
  "fails_closed (receive_receipt c)" "fails_closed (receive_ack c)"
  by (auto simp: fails_closed_def retG_def to_state_def validate_clock_def validate_frame_def start_media_def
      require_wall_def require_transport_start_def session_control_def receive_receipt_def receive_ack_def Let_def
      split: option.splits py_number.splits if_splits wire_frame.splits ptt_payload.splits)

lemma fails_closed_media [simp]:
  "fails_closed (admit_pcm direction pcm now)" "fails_closed (end_media direction now)"
  "fails_closed (begin_media c direction now s)" "fails_closed (accept_pcm direction s pcm now d)"
proof -
  show a: "fails_closed (admit_pcm direction pcm now)" unfolding admit_pcm_def
    by (rule fails_closed_bind, simp) (auto simp: fails_closed_def Let_def split: if_splits)
  show "fails_closed (end_media direction now)" unfolding end_media_def
    by (rule fails_closed_bind, simp) (auto simp: fails_closed_def split: if_splits)
  show "fails_closed (begin_media c direction now s)" unfolding begin_media_def by (auto intro!: fails_closed_bind)
  have "fails_closed (bindG (admit_pcm direction pcm now) (\<lambda>_. retG d))" using a by (auto intro!: fails_closed_bind)
  then show "fails_closed (accept_pcm direction s pcm now d)"
    by (auto simp: fails_closed_def accept_pcm_def split: if_splits)
qed

lemma fails_closedD: "fails_closed m \<Longrightarrow> m g = (Inl e, g') \<Longrightarrow> g_state g' = ABORTED \<and> g_closed g'"
  by (auto simp: fails_closed_def)

lemma fails_closed_normal [simp]: "fails_closed (accept_normal_control direction c now)"
proof -
  have e: "fails_closed (bindG (end_media x now) (\<lambda>_. to_state s))" for x s by (auto intro!: fails_closed_bind)
  note D = fails_closedD [OF e] fails_closedD [OF fails_closed_media(3)] fails_closedD [OF fails_closed_basic(9)]
    fails_closedD [OF fails_closed_basic(10)]
  show ?thesis
    unfolding fails_closed_def accept_normal_control_def Let_def
    by (intro allI impI; simp split: if_splits duplex_state.splits) (auto simp: to_state_def dest: D)
qed

lemma fails_closed_late [simp]: "fails_closed (accept_late_progress direction frame now)"
proof -
  have "fails_closed (bindG (accept_normal_control direction c now) (\<lambda>_ g1.
      if g_state g1 \<in> TERMINAL_STATES then failG INVALID_ORDER g1
      else (Inr LATE_DISCARDED, g1\<lparr>g_late_state := g_state g1, g_state := s\<rparr>)))" for c s
    by (rule fails_closed_bind, simp) (auto simp: fails_closed_def split: if_splits)
  note D = fails_closedD [OF this] fails_closedD [OF fails_closed_media(4)]
  show ?thesis
    unfolding fails_closed_def accept_late_progress_def Let_def
    by (auto split: wire_frame.splits if_splits dest: D)
qed

lemma fails_closed_dispatch [simp]: "fails_closed (dispatch direction frame now)"
proof -
  have "fails_closed (accept_cleanup_phase direction fr now)" for fr
    unfolding fails_closed_def accept_cleanup_phase_def
    by (auto split: wire_frame.splits if_splits
        dest: fails_closedD [OF fails_closed_basic(10)] fails_closedD [OF fails_closed_basic(11)]
          fails_closedD [OF fails_closed_late])
  note D = fails_closedD [OF this] fails_closedD [OF fails_closed_media(4)] fails_closedD [OF fails_closed_normal]
  show ?thesis
    unfolding fails_closed_def dispatch_def
    by (auto split: wire_frame.splits if_splits dest: D)
qed

lemma accept_Inl_closed:
  assumes "accept direction frame now g = (Inl e, g')" and "\<not> g_closed g"
  shows "g_state g' = ABORTED \<and> g_closed g'"
proof -
  have "fails_closed (bindG (validate_clock now) (\<lambda>n. bindG (validate_frame direction frame) (\<lambda>_.
      bindG (dispatch direction frame n) (\<lambda>disposition g.
       let g1 = (if g_state g \<notin> TERMINAL_STATES then g\<lparr>g_late_state := g_state g\<rparr> else g) in
       (Inr \<lparr>gf_direction = direction, gf_frame = frame, gf_disposition = disposition\<rparr>,
        advance_sequence direction g1)))))"
    by (intro fails_closed_bind) (simp_all add: Let_def)
  from fails_closedD [OF this] assms show ?thesis
    by (auto simp: accept_def bindG_eq_Inl guard_require_open_def)
qed

lemma accept_closed: "g_closed g \<Longrightarrow> accept direction frame now g = (Inl CLOSED, g)"
  by (simp add: accept_def bindG_def guard_require_open_def)

lemma accept_InrD:
  assumes "accept direction frame now g = (Inr r, g')"
  obtains n d g2 where "\<not> g_closed g" "case g_last_now g of None \<Rightarrow> True | Some l \<Rightarrow> l \<le> n"
    "wf_turn_id frame = g_turn_id g" "wf_sequence frame = g_next_sequence g direction"
    "g_next_sequence g direction \<le> UINT32_MAX"
    "dispatch direction frame n (g\<lparr>g_last_now := Some n\<rparr>) = (Inr d, g2)"
    "g' = advance_sequence direction (sync_late g2)"
    "r = \<lparr>gf_direction = direction, gf_frame = frame, gf_disposition = d\<rparr>"
proof -
  from assms obtain n g1 d g2 where o: "\<not> g_closed g" and c: "validate_clock now g = (Inr n, g1)"
    and f: "validate_frame direction frame g1 = (Inr (), g1)"
    and d: "dispatch direction frame n g1 = (Inr d, g2)"
    and g': "g' = advance_sequence direction (sync_late g2)"
    and r: "r = \<lparr>gf_direction = direction, gf_frame = frame, gf_disposition = d\<rparr>"
    by (auto simp: accept_def bindG_eq_Inr guard_require_open_def Let_def sync_late_def validate_frame_def
        split: if_splits wire_frame.splits)
  have "g1 = g\<lparr>g_last_now := Some n\<rparr>" "case g_last_now g of None \<Rightarrow> True | Some l \<Rightarrow> l \<le> n"
    using c by (auto simp: validate_clock_def Let_def split: option.splits if_splits)
  moreover have "wf_turn_id frame = g_turn_id g1" "wf_sequence frame = g_next_sequence g1 direction"
    "g_next_sequence g1 direction \<le> UINT32_MAX"
    using f by (auto simp: validate_frame_def Let_def split: if_splits)
  ultimately show thesis using that o d g' r by simp
qed

subsection \<open>What an accepted frame changes\<close>

definition keeps :: "ptt_guard \<Rightarrow> ptt_guard \<Rightarrow> bool" where
  "keeps g g' \<longleftrightarrow> g_turn_id g' = g_turn_id g \<and> g_input_mode g' = g_input_mode g
     \<and> g_next_sequence g' = g_next_sequence g \<and> g_last_now g' = g_last_now g \<and> g_closed g' = g_closed g"

definition pcm_effect :: "bytes \<Rightarrow> double \<Rightarrow> media_stats \<Rightarrow> media_stats \<Rightarrow> bool" where
  "pcm_effect pcm now m m' \<longleftrightarrow>
     sample_count m' = sample_count m + length pcm div 2
     \<and> frame_times m' = expire_frames (double_sub now (double_of_units 1)) (frame_times m) @ [now]
     \<and> length (frame_times m') \<le> MAX_PCM_FRAMES_PER_SECOND
     \<and> length pcm \<le> MAX_TRANSPORT_PCM_FRAME_BYTES"

definition counts_same :: "ptt_guard \<Rightarrow> ptt_guard \<Rightarrow> bool" where
  "counts_same g g' \<longleftrightarrow>
     (\<forall>x. frame_times (g_media g' x) = frame_times (g_media g x)
        \<and> sample_count (g_media g' x) = sample_count (g_media g x))"

definition frame_effect :: "stream_direction \<Rightarrow> wire_frame \<Rightarrow> double \<Rightarrow> ptt_guard \<Rightarrow> ptt_guard \<Rightarrow> bool" where
  "frame_effect direction frame now g g' \<longleftrightarrow> keeps g g'
     \<and> (case frame of
          PcmFrame _ _ pcm \<Rightarrow> pcm_state_ok direction (phase g)
            \<and> (\<exists>m'. g_media g' = (g_media g)(direction := m') \<and> pcm_effect pcm now (g_media g direction) m')
        | ControlFrame _ _ _ \<Rightarrow> counts_same g g')"

lemma accept_pcm_effect:
  assumes "accept_pcm direction (phase g) pcm now disposition g = (Inr d, g')" and "even (length pcm)"
  shows "frame_effect direction (PcmFrame t s pcm) now g g'"
proof -
  have p: "pcm_state_ok direction (phase g)" and "admit_pcm direction pcm now g = (Inr (), g')"
    using assms(1) by (auto simp: accept_pcm_def bindG_eq_Inr retG_def split: if_splits)
  with admit_pcm_InrD [OF _ assms(2)] show ?thesis
    by (fastforce simp: frame_effect_def keeps_def pcm_effect_def set_media_def)
qed

lemma latch_cleanup_effect:
  assumes "c_kind c \<in> CLEANUP_KINDS" and "exact_payload_for_kind c"
  shows "keeps g (latch_cleanup c g) \<and> counts_same g (latch_cleanup c g)"
  by (rule latch_cleanup_eq [OF assms, of g]) (simp add: keeps_def counts_same_def)

lemma progress_step_effect: "progress_step g g' \<Longrightarrow> keeps g g' \<and> counts_same g g'"
  by (auto simp: progress_step_def keeps_def counts_same_def split: if_splits)

lemma accept_normal_control_effect:
  assumes "accept_normal_control direction c now g = (Inr d, g')" and "exact_payload_for_kind c"
    and "phase_ok (g_state g) (g_media g)"
  shows "keeps g g' \<and> counts_same g g'"
proof (cases "c_kind c \<in> CLEANUP_KINDS")
  case True
  then show ?thesis using assms latch_cleanup_effect [OF True assms(2)] by (auto simp: accept_normal_control_def)
next
  case False
  then show ?thesis
    using accept_normal_control_progress [OF assms(1) False assms(3)] progress_step_effect by blast
qed

lemma accept_late_progress_effect:
  assumes inv: "guard_inv g" and st: "g_state g \<in> {CLEANUP_REQUIRED, RECEIPT_RECEIVED}"
    and v: "frame_valid frame" and a: "accept_late_progress direction frame now g = (Inr d, g')"
  shows "frame_effect direction frame now g g'"
proof -
  have ph: "phase g = g_late_state g" using st by (auto simp: phase_def TERMINAL_STATES_def)
  show ?thesis
  proof (cases frame)
    case (PcmFrame t s pcm)
    with a have "accept_pcm direction (phase g) pcm now LATE_DISCARDED g = (Inr d, g')"
      by (simp add: accept_late_progress_def ph)
    then show ?thesis using accept_pcm_effect frame_valid_pcm v PcmFrame by blast
  next
    case (ControlFrame t s c)
    from a ControlFrame obtain d1 g1 where
      n: "accept_normal_control direction c now (g\<lparr>g_state := g_late_state g\<rparr>) = (Inr d1, g1)"
      and g': "g' = g1\<lparr>g_late_state := g_state g1, g_state := g_state g\<rparr>"
      by (auto simp: accept_late_progress_def bindG_eq_Inr Let_def split: if_splits)
    have "phase_ok (g_late_state g) (g_media g)" using inv st ph by (auto simp: guard_inv_def)
    with accept_normal_control_effect [OF n] v ControlFrame show ?thesis
      by (simp add: g' frame_effect_def frame_valid_def keeps_def counts_same_def)
  qed
qed

lemma receipt_ack_effect:
  "receive_receipt c g = (Inr d, g') \<Longrightarrow> keeps g g' \<and> counts_same g g'"
  "receive_ack c g = (Inr d, g') \<Longrightarrow> keeps g g' \<and> counts_same g g'"
  by (auto simp: receive_receipt_def receive_ack_def keeps_def counts_same_def
      split: ptt_payload.splits option.splits if_splits)

lemma dispatch_effect:
  assumes inv: "guard_inv g" and st: "g_state g \<noteq> ABORTED" and v: "frame_valid frame"
    and a: "dispatch direction frame now g = (Inr d, g')"
  shows "frame_effect direction frame now g g'"
proof -
  consider (late) "g_state g \<in> {CLEANUP_REQUIRED, RECEIPT_RECEIVED}" "accept_cleanup_phase direction frame now g = (Inr d, g')"
    | (pcm) t s pcm where "g_state g \<notin> TERMINAL_STATES" "frame = PcmFrame t s pcm"
        "accept_pcm direction (g_state g) pcm now ACCEPTED g = (Inr d, g')"
    | (control) t s c where "g_state g \<notin> TERMINAL_STATES" "frame = ControlFrame t s c"
        "accept_normal_control direction c now g = (Inr d, g')"
    using a st by (auto simp: dispatch_def TERMINAL_STATES_def split: if_splits wire_frame.splits)
  then show ?thesis
  proof cases
    case pcm
    then have "phase g = g_state g" by (simp add: phase_def)
    then show ?thesis using accept_pcm_effect pcm frame_valid_pcm v by metis
  next
    case control
    then have "phase_ok (g_state g) (g_media g)" using inv st by (simp add: guard_inv_def phase_def)
    with accept_normal_control_effect [OF control(3)] v control(2) show ?thesis
      by (simp add: frame_effect_def frame_valid_def)
  next
    case late
    show ?thesis
    proof (cases frame)
      case (PcmFrame t s pcm)
      then show ?thesis using late accept_late_progress_effect [OF inv late(1) v]
        by (simp add: accept_cleanup_phase_def)
    next
      case (ControlFrame t s k)
      then have e: "exact_payload_for_kind k" using v by (simp add: frame_valid_def)
      consider "c_kind k \<in> CLEANUP_KINDS" "g' = latch_cleanup k g" | "receive_receipt k g = (Inr d, g')"
        | "receive_ack k g = (Inr d, g')" | "accept_late_progress direction frame now g = (Inr d, g')"
        using late(2) by (auto simp: ControlFrame accept_cleanup_phase_def split: if_splits)
      then show ?thesis
        using latch_cleanup_effect [OF _ e, of g] receipt_ack_effect [of k g d g']
          accept_late_progress_effect [OF inv late(1) v, of direction now d g']
        by cases (simp_all add: ControlFrame frame_effect_def)
    qed
  qed
qed

subsection \<open>Histories\<close>

text \<open>
  The sessions of one guard: frames are offered with clock readings, the session may be finished
  or aborted at any point. The history lists the accepted frames with their times. Frames are
  objects the constructors made (\<open>frame_valid\<close>).
\<close>

type_synonym guard_history = "(guarded_frame \<times> double) list"

inductive guard_reach :: "uuid \<Rightarrow> ptt_input_mode \<Rightarrow> guard_history \<Rightarrow> ptt_guard \<Rightarrow> bool"
  for t :: uuid and m :: ptt_input_mode where
  start: "guard_reach t m [] (guard_init t m)"
| accepted: "guard_reach t m h g \<Longrightarrow> frame_valid frame \<Longrightarrow> accept direction frame now g = (Inr r, g') \<Longrightarrow>
    guard_reach t m (h @ [(r, the (g_last_now g'))]) g'"
| rejected: "guard_reach t m h g \<Longrightarrow> frame_valid frame \<Longrightarrow> accept direction frame now g = (Inl e, g') \<Longrightarrow>
    guard_reach t m h g'"
| finished: "guard_reach t m h g \<Longrightarrow> guard_finish g = (res, g') \<Longrightarrow> guard_reach t m h g'"
| aborted: "guard_reach t m h g \<Longrightarrow> guard_reach t m h (guard_abort g)"

definition in_direction :: "stream_direction \<Rightarrow> guard_history \<Rightarrow> guard_history" where
  "in_direction d h = filter (\<lambda>(r, n). gf_direction r = d) h"

definition pcm_of :: "wire_frame \<Rightarrow> bytes option" where
  "pcm_of frame = (case frame of PcmFrame _ _ pcm \<Rightarrow> Some pcm | ControlFrame _ _ _ \<Rightarrow> None)"

definition pcm_history :: "stream_direction \<Rightarrow> guard_history \<Rightarrow> (bytes \<times> double) list" where
  "pcm_history d h =
     List.map_filter (\<lambda>(r, n). map_option (\<lambda>pcm. (pcm, n)) (pcm_of (gf_frame r))) (in_direction d h)"

definition sequences :: "stream_direction \<Rightarrow> guard_history \<Rightarrow> int list" where
  "sequences d h = map (\<lambda>(r, n). wf_sequence (gf_frame r)) (in_direction d h)"

text \<open>At most \<open>k\<close> of the times are within a second of, and not after, any of them.\<close>

fun rate_ok :: "nat \<Rightarrow> double list \<Rightarrow> bool" where
  "rate_ok k [] = True"
| "rate_ok k (t # earlier) =
     (length (filter (\<lambda>u. double_sub t (double_of_units 1) \<le> u) (t # earlier)) \<le> k \<and> rate_ok k earlier)"

definition rates_ok :: "guard_history \<Rightarrow> bool" where
  "rates_ok h \<longleftrightarrow> (\<forall>d. rate_ok MAX_PCM_FRAMES_PER_SECOND (rev (map snd (pcm_history d h))))"

lemma history_snoc:
  "in_direction d (h @ [(r, n)]) = in_direction d h @ (if gf_direction r = d then [(r, n)] else [])"
  "sequences d (h @ [(r, n)]) = sequences d h @ (if gf_direction r = d then [wf_sequence (gf_frame r)] else [])"
  "pcm_history d (h @ [(r, n)]) = pcm_history d h @
     (if gf_direction r = d then (case pcm_of (gf_frame r) of None \<Rightarrow> [] | Some pcm \<Rightarrow> [(pcm, n)]) else [])"
  by (simp_all add: in_direction_def sequences_def pcm_history_def map_filter_def split: option.split)

text \<open>
  The queue of recent times against the history: what was dropped is older than a second before
  the newest clock reading, and stays so because rounding is monotone.
\<close>

definition times_ok :: "double option \<Rightarrow> double list \<Rightarrow> double list \<Rightarrow> bool" where
  "times_ok recent queue stamps \<longleftrightarrow>
     (\<exists>old. stamps = old @ queue
        \<and> (case recent of None \<Rightarrow> stamps = [] | Some l \<Rightarrow>
             (\<forall>u \<in> set old. u < double_sub l (double_of_units 1)) \<and> (\<forall>u \<in> set queue. u \<le> l))
        \<and> sorted queue)"

lemma times_ok_later:
  assumes "times_ok recent queue stamps" and "case recent of None \<Rightarrow> True | Some l \<Rightarrow> l \<le> n"
  shows "times_ok (Some n) queue stamps"
proof (cases recent)
  case None
  then show ?thesis using assms by (auto simp: times_ok_def)
next
  case (Some l)
  then have "l \<le> n" using assms(2) by simp
  moreover from double_sub_mono [OF this] have "double_sub l (double_of_units 1) \<le> double_sub n (double_of_units 1)" .
  ultimately show ?thesis using assms(1) Some unfolding times_ok_def by fastforce
qed

lemma times_ok_pcm:
  assumes "times_ok (Some n) queue stamps"
    and "length (expire_frames (double_sub n (double_of_units 1)) queue @ [n]) \<le> k"
  shows "times_ok (Some n) (expire_frames (double_sub n (double_of_units 1)) queue @ [n]) (stamps @ [n])"
    and "length (filter (\<lambda>u. double_sub n (double_of_units 1) \<le> u) (n # rev stamps)) \<le> k"
proof -
  define c where "c = double_sub n (double_of_units 1)"
  from assms(1) obtain old where o: "stamps = old @ queue" "\<forall>u \<in> set old. u < c" "\<forall>u \<in> set queue. u \<le> n"
    "sorted queue" by (auto simp: times_ok_def c_def)
  define gone kept where "gone = takeWhile (\<lambda>t. t < c) queue" and "kept = expire_frames c queue"
  have q: "queue = gone @ kept" by (simp add: gone_def kept_def expire_frames_def)
  have gone: "\<forall>u \<in> set gone. u < c" by (auto simp: gone_def dest: set_takeWhileD)
  have kept: "sorted kept" "\<forall>u \<in> set kept. u \<le> n" using o(3,4) q by (auto simp: sorted_append)
  have A: "times_ok (Some n) (kept @ [n]) (stamps @ [n])"
    unfolding times_ok_def using o gone kept
    by (intro exI [of _ "old @ gone"]) (auto simp: q sorted_append c_def)
  have "filter (\<lambda>u. c \<le> u) (rev stamps) = filter (\<lambda>u. c \<le> u) (rev kept)"
    using o(2) gone by (fastforce simp: o(1) q filter_empty_conv)
  then have "length (filter (\<lambda>u. c \<le> u) (n # rev stamps)) \<le> Suc (length kept)"
    using length_filter_le [of "\<lambda>u. c \<le> u" "rev kept"] by simp
  also have "\<dots> \<le> k" using assms(2) by (simp add: kept_def c_def)
  finally have B: "length (filter (\<lambda>u. c \<le> u) (n # rev stamps)) \<le> k" .
  show "times_ok (Some n) (expire_frames (double_sub n (double_of_units 1)) queue @ [n]) (stamps @ [n])"
    using A by (simp add: kept_def c_def)
  show "length (filter (\<lambda>u. double_sub n (double_of_units 1) \<le> u) (n # rev stamps)) \<le> k"
    using B by (simp add: c_def)
qed

definition pcm_bytes :: "stream_direction \<Rightarrow> guard_history \<Rightarrow> nat" where
  "pcm_bytes d h = sum_list (map (\<lambda>(pcm, n). length pcm) (pcm_history d h))"

definition history_ok :: "guard_history \<Rightarrow> bool" where
  "history_ok h \<longleftrightarrow> rates_ok h
     \<and> (\<forall>d. sequences d h = map int [0..<length (in_direction d h)] \<and> pcm_bytes d h \<le> 2 * MAX_MEDIA_SAMPLES)
     \<and> (\<forall>(r, n) \<in> set h. \<forall>pcm. pcm_of (gf_frame r) = Some pcm \<longrightarrow> length pcm \<le> MAX_TRANSPORT_PCM_FRAME_BYTES)"

definition open_ok :: "guard_history \<Rightarrow> ptt_guard \<Rightarrow> bool" where
  "open_ok h g \<longleftrightarrow> g_state g \<noteq> ABORTED
     \<and> (\<forall>d. g_next_sequence g d = int (length (in_direction d h))
          \<and> times_ok (g_last_now g) (frame_times (g_media g d)) (map snd (pcm_history d h))
          \<and> 2 * sample_count (g_media g d) = pcm_bytes d h)"

definition reach_ok :: "guard_history \<Rightarrow> ptt_guard \<Rightarrow> bool" where
  "reach_ok h g \<longleftrightarrow> history_ok h \<and> guard_inv g \<and> (\<not> g_closed g \<longrightarrow> open_ok h g)"

lemma open_ok_step:
  assumes ok: "open_ok h g" and later: "case g_last_now g of None \<Rightarrow> True | Some l \<Rightarrow> l \<le> n"
    and v: "frame_valid frame" and st: "g_state g' \<noteq> ABORTED"
    and eff: "frame_effect direction frame n (g\<lparr>g_last_now := Some n\<rparr>) g2"
    and g': "g' = advance_sequence direction (sync_late g2)"
    and r: "gf_direction r = direction" "gf_frame r = frame"
  shows "open_ok (h @ [(r, n)]) g'"
proof -
  have same: "g_media g' = g_media g2" "g_last_now g' = Some n"
    "g_next_sequence g' = (g_next_sequence g)(direction := g_next_sequence g direction + 1)"
    using eff by (simp_all add: g' advance_sequence_def sync_late_def frame_effect_def keeps_def)
  have t: "times_ok (Some n) (frame_times (g_media g d)) (map snd (pcm_history d h))" for d
    using times_ok_later [OF _ later] ok by (simp add: open_ok_def)
  have nxt: "g_next_sequence g' d = int (length (in_direction d (h @ [(r, n)])))" for d
    using ok by (simp add: open_ok_def same history_snoc r(1))
  show ?thesis
  proof (cases frame)
    case (ControlFrame x s c)
    then have "counts_same g g2" using eff by (simp add: frame_effect_def counts_same_def)
    then have c: "frame_times (g_media g' d) = frame_times (g_media g d)"
        "sample_count (g_media g' d) = sample_count (g_media g d)" for d by (simp_all add: counts_same_def same)
    have h: "pcm_history d (h @ [(r, n)]) = pcm_history d h" for d
      by (simp add: history_snoc r ControlFrame pcm_of_def)
    show ?thesis
      unfolding open_ok_def pcm_bytes_def h c
    proof (intro conjI allI st)
      show "times_ok (g_last_now g') (frame_times (g_media g d)) (map snd (pcm_history d h))" for d
        using t by (simp add: same)
      show "2 * sample_count (g_media g d) = (\<Sum>(pcm, n)\<leftarrow>pcm_history d h. length pcm)" for d
        using ok by (simp add: open_ok_def pcm_bytes_def)
    qed (rule nxt)
  next
    case (PcmFrame x s pcm)
    from eff PcmFrame obtain m' where m: "g_media g2 = (g_media g)(direction := m')"
      and p: "pcm_effect pcm n (g_media g direction) m'" by (auto simp: frame_effect_def)
    have "even (length pcm)" using frame_valid_pcm v PcmFrame by blast
    then have sc: "2 * sample_count m' = pcm_bytes direction h + length pcm"
      using p ok by (auto simp: pcm_effect_def open_ok_def elim: evenE)
    have ft: "times_ok (Some n) (frame_times m') (map snd (pcm_history direction h) @ [n])"
      using times_ok_pcm(1) [OF t [of direction], of MAX_PCM_FRAMES_PER_SECOND] p by (auto simp: pcm_effect_def)
    have h: "pcm_history d (h @ [(r, n)]) = pcm_history d h @ (if d = direction then [(pcm, n)] else [])" for d
      by (simp add: history_snoc r PcmFrame pcm_of_def)
    show ?thesis
      unfolding open_ok_def
    proof (intro conjI allI st)
      show "times_ok (g_last_now g') (frame_times (g_media g' d)) (map snd (pcm_history d (h @ [(r, n)])))" for d
        using t ft by (simp add: same m h)
      show "2 * sample_count (g_media g' d) = pcm_bytes d (h @ [(r, n)])" for d
        using ok sc unfolding same m h pcm_bytes_def by (cases "d = direction") (simp_all add: open_ok_def pcm_bytes_def)
    qed (rule nxt)
  qed
qed

lemma history_ok_step:
  assumes h: "history_ok h" and ok: "open_ok h g" and ok': "open_ok (h @ [(r, n)]) g'" and inv: "guard_inv g'"
    and later: "case g_last_now g of None \<Rightarrow> True | Some l \<Rightarrow> l \<le> n"
    and seq: "wf_sequence frame = g_next_sequence g direction"
    and eff: "frame_effect direction frame n (g\<lparr>g_last_now := Some n\<rparr>) g2"
    and r: "gf_direction r = direction" "gf_frame r = frame"
  shows "history_ok (h @ [(r, n)])"
proof -
  have t: "times_ok (Some n) (frame_times (g_media g d)) (map snd (pcm_history d h))" for d
    using times_ok_later [OF _ later] ok by (simp add: open_ok_def)
  have "rates_ok (h @ [(r, n)])"
  proof (cases frame)
    case (ControlFrame x s c)
    then show ?thesis using h r by (simp add: history_ok_def rates_ok_def history_snoc pcm_of_def)
  next
    case (PcmFrame x s pcm)
    from eff PcmFrame obtain m' where p: "pcm_effect pcm n (g_media g direction) m'"
      by (auto simp: frame_effect_def)
    with h times_ok_pcm(2) [OF t [of direction], of MAX_PCM_FRAMES_PER_SECOND] r show ?thesis
      by (auto simp: history_ok_def rates_ok_def history_snoc pcm_of_def PcmFrame pcm_effect_def rev_map)
  qed
  moreover have "sequences d (h @ [(r, n)]) = map int [0..<length (in_direction d (h @ [(r, n)]))]" for d
    using h seq ok r by (simp add: history_ok_def history_snoc open_ok_def)
  moreover have "pcm_bytes d (h @ [(r, n)]) \<le> 2 * MAX_MEDIA_SAMPLES" for d
  proof -
    have "2 * sample_count (g_media g' d) = pcm_bytes d (h @ [(r, n)])" "sample_count (g_media g' d) \<le> MAX_MEDIA_SAMPLES"
      using ok' inv by (simp_all add: open_ok_def guard_inv_def media_ok_def)
    then show ?thesis by linarith
  qed
  moreover have "length pcm \<le> MAX_TRANSPORT_PCM_FRAME_BYTES" if "pcm_of frame = Some pcm" for pcm
    using that eff by (auto simp: frame_effect_def pcm_effect_def pcm_of_def split: wire_frame.splits)
  ultimately show ?thesis using h r by (auto simp: history_ok_def)
qed

lemma guard_inv_frame:
  assumes "g_state g' = g_state g" "g_late_state g' = g_late_state g" "g_media g' = g_media g"
    "g_outcome g' = g_outcome g" "g_cleanup_latched g' = g_cleanup_latched g"
    "g_receipt_complete g' = g_receipt_complete g"
  shows "guard_inv g' = guard_inv g"
  unfolding guard_inv_def phase_def outcome_ok_def by (simp only: assms)

lemma guard_inv_frames [simp]:
  "guard_inv (g\<lparr>g_last_now := x\<rparr>) = guard_inv g"
  "guard_inv (advance_sequence d g) = guard_inv g"
  "guard_inv (g\<lparr>g_closed := b\<rparr>) = guard_inv g"
  by (rule guard_inv_frame; simp add: advance_sequence_def)+

lemma reach_ok_accept:
  assumes ok: "reach_ok h g" and v: "frame_valid frame" and a: "accept direction frame now g = (Inr r, g')"
  shows "reach_ok (h @ [(r, the (g_last_now g'))]) g' \<and> \<not> g_closed g'"
proof -
  from a obtain n d g2 where o: "\<not> g_closed g"
    and later: "case g_last_now g of None \<Rightarrow> True | Some l \<Rightarrow> l \<le> n"
    and seq: "wf_sequence frame = g_next_sequence g direction"
    and d: "dispatch direction frame n (g\<lparr>g_last_now := Some n\<rparr>) = (Inr d, g2)"
    and g': "g' = advance_sequence direction (sync_late g2)"
    and r: "r = \<lparr>gf_direction = direction, gf_frame = frame, gf_disposition = d\<rparr>"
    by (rule accept_InrD)
  have op: "open_ok h g" using ok o by (simp add: reach_ok_def)
  have pre: "guard_inv (g\<lparr>g_last_now := Some n\<rparr>)" "g_state (g\<lparr>g_last_now := Some n\<rparr>) \<noteq> ABORTED"
    using ok op by (simp_all add: reach_ok_def open_ok_def)
  note eff = dispatch_effect [OF pre v d]
  have i: "guard_inv g'" and st: "g_state g' \<noteq> ABORTED"
    using dispatch_inv [OF pre v d] unfolding g' guard_inv_frames
    by (simp_all add: advance_sequence_def sync_late_def)
  have n: "the (g_last_now g') = n" and c: "\<not> g_closed g'"
    using eff o by (simp_all add: g' advance_sequence_def sync_late_def frame_effect_def keeps_def)
  have rr: "gf_direction r = direction" "gf_frame r = frame" by (simp_all add: r)
  note ok' = open_ok_step [OF op later v st eff g' rr]
  show ?thesis
    using history_ok_step [OF _ op ok' i later seq eff rr] ok ok' i c n by (simp add: reach_ok_def)
qed

lemma guard_finish_cases:
  assumes "guard_finish g = (res, g')"
  shows "g' = g \<or> g_closed g' \<and> (g_state g' = ABORTED \<or> g' = g\<lparr>g_closed := True\<rparr>)"
  using assms by (auto simp: guard_finish_def bindG_def guard_require_open_def failG_def split: if_splits)

lemma guard_reach_ok: "guard_reach t m h g \<Longrightarrow> reach_ok h g"
proof (induction rule: guard_reach.induct)
  case start
  show ?case
    by (simp add: reach_ok_def history_ok_def rates_ok_def open_ok_def guard_inv_def guard_init_def phase_def
        phase_ok_def outcome_ok_def TERMINAL_STATES_def in_direction_def pcm_history_def sequences_def
        pcm_bytes_def times_ok_def media_init_def media_ok_def map_filter_def)
next
  case (accepted h g frame direction now r g')
  then show ?case using reach_ok_accept by blast
next
  case (rejected h g frame direction now e g')
  show ?case
  proof (cases "g_closed g")
    case True
    then show ?thesis using rejected by (simp add: accept_closed)
  next
    case False
    then show ?thesis using accept_Inl_closed [OF rejected(3)] rejected(4) by (simp add: reach_ok_def guard_inv_def)
  qed
next
  case (finished h g res g')
  show ?case using guard_finish_cases [OF finished(2)] finished(3)
    by (auto simp: reach_ok_def) (simp_all add: guard_inv_def)
next
  case (aborted h g)
  then show ?case by (simp add: reach_ok_def guard_abort_def guard_inv_def)
qed

subsection \<open>Properties\<close>

definition open_control :: ptt_control where
  "open_control = \<lparr>c_kind = SESSION_OPEN, c_turn_id = 7, c_payload = SessionPayload REACHY_LOCAL\<rparr>"

definition open_frame :: wire_frame where
  "open_frame = ControlFrame 7 0 open_control"

definition opened_guard :: ptt_guard where
  "opened_guard = (guard_init 7 REACHY_LOCAL)\<lparr>g_state := WAIT_SESSION_READY, g_late_state := WAIT_SESSION_READY,
     g_last_now := Some 0, g_next_sequence := (\<lambda>d. if d = CORE_TO_EDGE then 1 else 0)\<rparr>"

lemma open_frame_valid: "frame_valid open_frame"
  by (simp add: frame_valid_def open_frame_def open_control_def mk_ControlFrame_def require_sequence_def
      UINT32_MAX_def exact_payload_for_kind_def payload_type_ok_def)

lemmas guard_eval = accept_def bindG_def guard_require_open_def validate_clock_def validate_frame_def
  dispatch_def accept_normal_control_def session_control_def to_state_def failG_def advance_sequence_def
  TERMINAL_STATES_def CORE_CONTROL_KINDS_def EDGE_CONTROL_KINDS_def CLEANUP_KINDS_def LATE_CONTROL_KINDS_def
  UINT32_MAX_def Let_def

lemma open_accept:
  "accept CORE_TO_EDGE open_frame (PyFloat 0) (guard_init 7 REACHY_LOCAL)
   = (Inr \<lparr>gf_direction = CORE_TO_EDGE, gf_frame = open_frame, gf_disposition = ACCEPTED\<rparr>, opened_guard)"
  by (simp add: guard_eval guard_init_def open_frame_def open_control_def opened_guard_def fun_eq_iff)

lemma open_reach:
  "guard_reach 7 REACHY_LOCAL
     [(\<lparr>gf_direction = CORE_TO_EDGE, gf_frame = open_frame, gf_disposition = ACCEPTED\<rparr>, 0)] opened_guard"
  using guard_reach.accepted [OF guard_reach.start open_frame_valid open_accept]
  by (simp add: opened_guard_def)

text \<open>A whole turn, evaluated.\<close>

fun guard_exec :: "(stream_direction \<times> wire_frame) list \<Rightarrow> ptt_guard \<Rightarrow> guard_history option \<times> ptt_guard" where
  "guard_exec [] g = (Some [], g)"
| "guard_exec ((direction, frame) # es) g =
     (case accept direction frame (PyFloat 0) g of
        (Inl e, g') \<Rightarrow> (None, g')
      | (Inr r, g') \<Rightarrow>
          (case guard_exec es g' of
             (None, g'') \<Rightarrow> (None, g'')
           | (Some h, g'') \<Rightarrow> (Some ((r, the (g_last_now g')) # h), g'')))"

lemma guard_exec_reach:
  "guard_reach t m h g \<Longrightarrow> guard_exec es g = (Some h', g') \<Longrightarrow> \<forall>(d, frame) \<in> set es. frame_valid frame \<Longrightarrow>
     guard_reach t m (h @ h') g'"
proof (induction es arbitrary: h g h')
  case Nil
  then show ?case by simp
next
  case (Cons e es)
  obtain d frame where e: "e = (d, frame)" by (cases e)
  from Cons(3) e obtain r g1 h1 where a: "accept d frame (PyFloat 0) g = (Inr r, g1)"
    and x: "guard_exec es g1 = (Some h1, g')" "h' = (r, the (g_last_now g1)) # h1"
    by (auto split: prod.splits sum.splits option.splits)
  have "guard_reach t m (h @ [(r, the (g_last_now g1))]) g1"
    using guard_reach.accepted [OF Cons(2) _ a] Cons(4) e by simp
  from Cons.IH [OF this x(1)] Cons(4) x(2) show ?case by simp
qed

definition turn_control :: "control_kind \<Rightarrow> ptt_payload \<Rightarrow> ptt_control" where
  "turn_control k p = \<lparr>c_kind = k, c_turn_id = 7, c_payload = p\<rparr>"

definition full_receipt :: ptt_safety_receipt where
  "full_receipt = \<lparr>pr_turn_id = 7, new_capture_rejected = True, recording_stopped = True, playback_stopped = True,
     motion_stopped = True, audio_reactive_disabled = True, owned_buffers_cleared = True\<rparr>"

definition turn_prefix :: "(stream_direction \<times> wire_frame) list" where
  "turn_prefix =
     [(CORE_TO_EDGE, ControlFrame 7 0 (turn_control SESSION_OPEN (SessionPayload REACHY_LOCAL))),
      (EDGE_TO_CORE, ControlFrame 7 0 (turn_control SESSION_READY (SessionPayload REACHY_LOCAL))),
      (EDGE_TO_CORE, ControlFrame 7 1 (turn_control CAPTURE_START (StartPayload TRANSPORT_AUDIO_FORMAT))),
      (EDGE_TO_CORE, PcmFrame 7 2 [1, 2]),
      (EDGE_TO_CORE, ControlFrame 7 3 (turn_control CAPTURE_END EmptyPayload)),
      (CORE_TO_EDGE, ControlFrame 7 1 (turn_control PLAYBACK_START (StartPayload TRANSPORT_AUDIO_FORMAT)))]"

definition turn_suffix :: "(stream_direction \<times> wire_frame) list" where
  "turn_suffix =
     [(CORE_TO_EDGE, PcmFrame 7 2 [3, 4]),
      (CORE_TO_EDGE, ControlFrame 7 3 (turn_control PLAYBACK_END EmptyPayload)),
      (EDGE_TO_CORE, ControlFrame 7 4 (turn_control SAFETY_RECEIPT (SafetyPayload full_receipt))),
      (CORE_TO_EDGE, ControlFrame 7 4 (turn_control SAFETY_ACK (AckPayload True)))]"

lemma double_sub_self [simp]: "double_sub a a = 0"
  by (simp add: double_sub_exact)

lemmas guard_run_eval = guard_eval guard_init_def turn_control_def begin_media_def start_media_def
  require_transport_start_def end_media_def require_wall_def set_media_def accept_pcm_def admit_pcm_def
  pcm_state_ok_def expire_frames_def retG_def receive_receipt_def receive_ack_def accept_cleanup_phase_def
  accept_late_progress_def latch_cleanup_def media_init_def is_complete_def full_receipt_def
  MAX_MEDIA_WALL_SECONDS_def double_of_units_def MAX_TRANSPORT_PCM_FRAME_BYTES_def MAX_DIRECTION_BYTES_def
  MAX_MEDIA_SAMPLES_def MAX_PCM_FRAMES_PER_SECOND_def

lemma turn_frames_valid: "\<forall>(d, frame) \<in> set (turn_prefix @ turn_suffix). frame_valid frame"
  by (simp add: turn_prefix_def turn_suffix_def frame_valid_def mk_ControlFrame_def mk_PcmFrame_def
      require_sequence_def UINT32_MAX_def MAX_PCM_BYTES_def turn_control_def exact_payload_for_kind_def
      payload_type_ok_def full_receipt_def)

definition turn_guard :: "(stream_direction \<times> wire_frame) list \<Rightarrow> ptt_guard" where
  "turn_guard es = snd (guard_exec es (guard_init 7 REACHY_LOCAL))"

lemma turn_reach:
  assumes "set es \<subseteq> set (turn_prefix @ turn_suffix)"
    and "fst (guard_exec es (guard_init 7 REACHY_LOCAL)) \<noteq> None"
  shows "\<exists>h. guard_reach 7 REACHY_LOCAL h (turn_guard es)"
proof -
  obtain h where "guard_exec es (guard_init 7 REACHY_LOCAL) = (Some h, turn_guard es)"
    using assms(2) by (cases "guard_exec es (guard_init 7 REACHY_LOCAL)") (auto simp: turn_guard_def)
  from guard_exec_reach [OF guard_reach.start this] turn_frames_valid assms(1) show ?thesis by blast
qed

text \<open>
  C3: in every session the accepted frames of each direction carry the sequence numbers 0, 1, 2
  and so on without gap or repetition; no accepted audio frame exceeds 6400 bytes; the audio
  accepted in one direction never exceeds ninety seconds at 16 kHz; and within any second that
  ends at an accepted audio frame at most fifty audio frames were accepted in its direction.
\<close>

theorem guard_history_limits:
  assumes "guard_reach t m h g"
  shows "sequences d h = map int [0..<length (in_direction d h)]
    \<and> pcm_bytes d h \<le> 2 * (16000 * 90)
    \<and> rate_ok 50 (rev (map snd (pcm_history d h)))
    \<and> (\<forall>(pcm, n) \<in> set (pcm_history d h). length pcm \<le> 6400)"
proof -
  have ok: "history_ok h" using guard_reach_ok [OF assms] by (simp add: reach_ok_def)
  have "\<forall>(pcm, n) \<in> set (pcm_history d h). length pcm \<le> 6400"
    using ok by (fastforce simp: history_ok_def pcm_history_def in_direction_def map_filter_def
        MAX_TRANSPORT_PCM_FRAME_BYTES_def)
  with ok show ?thesis
    by (simp add: history_ok_def rates_ok_def MAX_MEDIA_SAMPLES_def MAX_PCM_FRAMES_PER_SECOND_def)
qed

theorem guard_history_limits_witness:
  "sequences CORE_TO_EDGE
     [(\<lparr>gf_direction = CORE_TO_EDGE, gf_frame = open_frame, gf_disposition = ACCEPTED\<rparr>, 0)] = [0]"
  using guard_history_limits [OF open_reach, of CORE_TO_EDGE] by (simp add: in_direction_def)






text \<open>
  C22: playback audio is accepted only after the capture of the same turn was ended and was not
  empty, also while late frames are being drained.
\<close>

theorem guard_playback_after_capture:
  assumes "guard_reach t m h g" and "frame_valid (PcmFrame i s pcm)"
    and "accept CORE_TO_EDGE (PcmFrame i s pcm) now g = (Inr r, g')"
  shows "media_done (g_media g EDGE_TO_CORE)"
proof -
  from assms(3) obtain n d g2 where o: "\<not> g_closed g"
    and d: "dispatch CORE_TO_EDGE (PcmFrame i s pcm) n (g\<lparr>g_last_now := Some n\<rparr>) = (Inr d, g2)"
    by (rule accept_InrD)
  have inv: "guard_inv g" "g_state g \<noteq> ABORTED"
    using guard_reach_ok [OF assms(1)] o by (simp_all add: reach_ok_def open_ok_def)
  have "pcm_state_ok CORE_TO_EDGE (phase g)"
    using dispatch_effect [OF _ _ assms(2) d] inv by (simp add: frame_effect_def phase_def split: if_splits)
  then have "phase g = PLAYING" by (auto simp: pcm_state_ok_def)
  with inv show ?thesis by (simp add: guard_inv_def phase_ok_def)
qed

theorem guard_playback_after_capture_witness:
  "media_done (g_media (turn_guard turn_prefix) EDGE_TO_CORE)"
proof -
  have "fst (guard_exec turn_prefix (guard_init 7 REACHY_LOCAL)) \<noteq> None"
    by (simp add: turn_prefix_def guard_run_eval)
  from turn_reach [OF _ this] obtain h where r: "guard_reach 7 REACHY_LOCAL h (turn_guard turn_prefix)" by auto
  have v: "frame_valid (PcmFrame 7 2 [3, 4])"
    by (simp add: frame_valid_def mk_PcmFrame_def require_sequence_def UINT32_MAX_def MAX_PCM_BYTES_def)
  have "\<not> isl (fst (accept CORE_TO_EDGE (PcmFrame 7 2 [3, 4]) (PyFloat 0) (turn_guard turn_prefix)))"
    by (simp add: turn_guard_def turn_prefix_def guard_run_eval)
  then obtain x g' where "accept CORE_TO_EDGE (PcmFrame 7 2 [3, 4]) (PyFloat 0) (turn_guard turn_prefix) = (Inr x, g')"
    by (metis isl_def prod.collapse sum.exhaust_sel)
  from guard_playback_after_capture [OF r v this] show ?thesis .
qed

text \<open>
  once cleanup has begun nothing makes progress. Audio that is still accepted is marked as
  discarded, and the only control frames that are not are the cleanup ones, the safety receipt
  and its acknowledgement.
\<close>

theorem guard_cleanup_discards:
  assumes "guard_reach t m h g" and "frame_valid frame"
    and "g_state g \<in> {CLEANUP_REQUIRED, RECEIPT_RECEIVED}" and "accept direction frame now g = (Inr r, g')"
  shows "gf_disposition r = LATE_DISCARDED \<and> g_state g' = g_state g
    \<or> (\<exists>i s c. frame = ControlFrame i s c
         \<and> c_kind c \<in> {STOP, CANCEL, ABORT, ERROR, SAFETY_RECEIPT, SAFETY_ACK})"
proof -
  from assms(4) obtain n d g2 where o: "\<not> g_closed g"
    and d: "dispatch direction frame n (g\<lparr>g_last_now := Some n\<rparr>) = (Inr d, g2)"
    and g': "g' = advance_sequence direction (sync_late g2)"
    and r: "r = \<lparr>gf_direction = direction, gf_frame = frame, gf_disposition = d\<rparr>"
    by (rule accept_InrD)
  have inv: "guard_inv (g\<lparr>g_last_now := Some n\<rparr>)"
    using guard_reach_ok [OF assms(1)] by (simp add: reach_ok_def)
  have st: "g_state (g\<lparr>g_last_now := Some n\<rparr>) \<in> {CLEANUP_REQUIRED, RECEIPT_RECEIVED}" using assms(3) by simp
  note late = accept_late_progress_inv [OF inv st assms(2)]
  have st': "g_state g' = g_state g2" by (simp add: g' advance_sequence_def sync_late_def)
  show ?thesis
  proof (cases "\<exists>i s c. frame = ControlFrame i s c \<and> c_kind c \<in> {STOP, CANCEL, ABORT, ERROR, SAFETY_RECEIPT, SAFETY_ACK}")
    case False
    then have "accept_late_progress direction frame n (g\<lparr>g_last_now := Some n\<rparr>) = (Inr d, g2)"
      using d assms(3) by (auto simp: dispatch_def accept_cleanup_phase_def CLEANUP_KINDS_def split: if_splits wire_frame.splits)
    from late [OF this] show ?thesis by (simp add: r st')
  qed simp
qed

definition stopped_turn :: "(stream_direction \<times> wire_frame) list" where
  "stopped_turn =
     [(CORE_TO_EDGE, ControlFrame 7 0 (turn_control SESSION_OPEN (SessionPayload REACHY_LOCAL))),
      (CORE_TO_EDGE, ControlFrame 7 1 (turn_control ABORT (ErrorPayload R_TURN_CANCELLED)))]"

theorem guard_cleanup_discards_witness:
  "\<exists>r g'. accept EDGE_TO_CORE (ControlFrame 7 0 (turn_control SESSION_READY (SessionPayload REACHY_LOCAL)))
      (PyFloat 0) (turn_guard stopped_turn) = (Inr r, g') \<and> gf_disposition r = LATE_DISCARDED"
proof -
  let ?f = "ControlFrame 7 0 (turn_control SESSION_READY (SessionPayload REACHY_LOCAL))"
  have v: "frame_valid ?f" "\<forall>(d, frame) \<in> set stopped_turn. frame_valid frame"
    by (simp_all add: stopped_turn_def frame_valid_def mk_ControlFrame_def require_sequence_def UINT32_MAX_def
        turn_control_def exact_payload_for_kind_def payload_type_ok_def)
  have "fst (guard_exec stopped_turn (guard_init 7 REACHY_LOCAL)) \<noteq> None"
    and st: "g_state (turn_guard stopped_turn) \<in> {CLEANUP_REQUIRED, RECEIPT_RECEIVED}"
    and a: "\<not> isl (fst (accept EDGE_TO_CORE ?f (PyFloat 0) (turn_guard stopped_turn)))"
    by (simp_all add: turn_guard_def stopped_turn_def guard_run_eval)
  then obtain h where "guard_exec stopped_turn (guard_init 7 REACHY_LOCAL) = (Some h, turn_guard stopped_turn)"
    by (cases "guard_exec stopped_turn (guard_init 7 REACHY_LOCAL)") (auto simp: turn_guard_def)
  from guard_exec_reach [OF guard_reach.start this v(2)]
  have r: "guard_reach 7 REACHY_LOCAL h (turn_guard stopped_turn)" by simp
  from a obtain x g' where "accept EDGE_TO_CORE ?f (PyFloat 0) (turn_guard stopped_turn) = (Inr x, g')"
    by (metis isl_def prod.collapse sum.exhaust_sel)
  with guard_cleanup_discards [OF r v(1) st this] show ?thesis by (auto simp: turn_control_def)
qed

end
