(* ===== verification/Pricing.thy ===== *)
theory Pricing
  imports Complex_Main Prelude
begin

text \<open>
  Prices of cloud calls: the usage units of \<^verbatim>\<open>tuntun_contracts/budget.py\<close>, the price catalog of
  \<^verbatim>\<open>services/budget/catalog.py\<close> and the arithmetic of \<^verbatim>\<open>services/budget/pricing.py\<close>. Amounts are
  Python integers; every product and sum is bounded explicitly by the code. Splitting a URL is a
  parameter of the catalog's record check. Reading the catalog from YAML is not modelled.
\<close>

subsection \<open>Usage\<close>

definition MAX_USAGE_UNITS :: int where "MAX_USAGE_UNITS = 10000000"
definition MAX_AUDIO_MILLIS :: int where "MAX_AUDIO_MILLIS = 3600000"
definition MAX_WEB_SEARCH_CALLS :: int where "MAX_WEB_SEARCH_CALLS = 16"
definition MAX_CHARGE_MICROS_SGD :: int where "MAX_CHARGE_MICROS_SGD = 1000000000000"

datatype usage_category = Cat_llm | Cat_stt | Cat_tts | Cat_web_search

datatype usage_units =
    LlmUsageUnits (u_input_tokens: int) (u_output_tokens: int)
  | SttUsageUnits (u_audio_millis: int)
  | TtsUsageUnits (u_characters: int)
  | WebSearchUsageUnits (u_input_tokens: int) (u_output_tokens: int) (u_web_search_calls: int)

definition usage_category_of :: "usage_units \<Rightarrow> usage_category" where
  "usage_category_of u =
     (case u of LlmUsageUnits _ _ \<Rightarrow> Cat_llm | SttUsageUnits _ \<Rightarrow> Cat_stt | TtsUsageUnits _ \<Rightarrow> Cat_tts
      | WebSearchUsageUnits _ _ _ \<Rightarrow> Cat_web_search)"

definition usage_valid :: "usage_units \<Rightarrow> bool" where
  "usage_valid u =
     (case u of
        LlmUsageUnits i out \<Rightarrow> 0 \<le> i \<and> i \<le> MAX_USAGE_UNITS \<and> 0 \<le> out \<and> out \<le> MAX_USAGE_UNITS
      | SttUsageUnits a \<Rightarrow> 0 \<le> a \<and> a \<le> MAX_AUDIO_MILLIS
      | TtsUsageUnits c \<Rightarrow> 0 \<le> c \<and> c \<le> 4096
      | WebSearchUsageUnits i out n \<Rightarrow> 0 \<le> i \<and> i \<le> MAX_USAGE_UNITS \<and> 0 \<le> out \<and> out \<le> MAX_USAGE_UNITS
          \<and> 0 \<le> n \<and> n \<le> MAX_WEB_SEARCH_CALLS)"

definition usage_total :: "usage_units \<Rightarrow> int" where
  "usage_total u =
     (case u of LlmUsageUnits i out \<Rightarrow> i + out | SttUsageUnits a \<Rightarrow> a | TtsUsageUnits c \<Rightarrow> c
      | WebSearchUsageUnits i out n \<Rightarrow> i + out + n)"

subsection \<open>Checked arithmetic\<close>

definition MAX_AGGREGATE_MICROS_SGD :: int where "MAX_AGGREGATE_MICROS_SGD = 9000000000000000"
definition MAX_INTERMEDIATE :: int where "MAX_INTERMEDIATE = 1000000000000000000"

abbreviation out_of_bounds :: py_error where
  "out_of_bounds \<equiv> OverflowError ''budget_arithmetic_out_of_bounds''"

definition checked_add :: "int \<Rightarrow> int \<Rightarrow> int \<Rightarrow> int py" where
  "checked_add l r limit =
     (if l < 0 \<or> r < 0 \<or> l > limit - r then Inl out_of_bounds else Inr (l + r))"

definition checked_mul :: "int \<Rightarrow> int \<Rightarrow> int \<Rightarrow> int py" where
  "checked_mul l r limit =
     (if l < 0 \<or> r < 0 \<or> (r \<noteq> 0 \<and> l > limit div r) then Inl out_of_bounds else Inr (l * r))"

definition ceil_div :: "int \<Rightarrow> int \<Rightarrow> int py" where
  "ceil_div n d = (if n < 0 \<or> d \<le> 0 then Inl out_of_bounds else Inr ((n + d - 1) div d))"

subsection \<open>The catalog\<close>

definition MAX_RATE_MICROS_USD :: int where "MAX_RATE_MICROS_USD = 1000000000"
definition MAX_FX_MICROS_SGD_PER_USD :: int where "MAX_FX_MICROS_SGD_PER_USD = 10000000"

datatype tier_basis = Flat | LlmInputTokens
datatype accounting_basis = ProviderReportedExact | RequestBoundExact | ConservativeFullReservation
datatype evidence_policy = FreezeUnknownOverage | PolicyConservativeFullReservation

record price_tier =
  tier_basis :: tier_basis
  tier_min_input_tokens :: int
  tier_max_input_tokens :: int
  pt_category :: usage_category
  native_currency :: string
  input_rate :: int
  output_rate :: int
  audio_rate :: int
  web_search_rate :: int

definition tier_shape_ok :: "price_tier \<Rightarrow> bool" where
  "tier_shape_ok t \<longleftrightarrow>
     (tier_basis t = Flat \<and> tier_min_input_tokens t = 0 \<and> tier_max_input_tokens t = 0)
     \<or> (tier_basis t = LlmInputTokens \<and> pt_category t = Cat_llm
        \<and> 0 \<le> tier_min_input_tokens t \<and> tier_min_input_tokens t \<le> tier_max_input_tokens t
        \<and> tier_max_input_tokens t \<le> 10000000)"

record split_url =
  url_scheme :: string
  url_hostname :: "string option"
  url_username :: "string option"
  url_password :: "string option"
  url_port :: "nat option"
  url_query :: string
  url_fragment :: string

record price_record =
  pc_provider :: string
  pc_model :: string
  pc_tier :: price_tier
  pc_basis :: accounting_basis
  pc_policy :: evidence_policy
  pc_version :: string
  pc_effective_at :: instant
  pc_expires_at :: instant
  pc_source_url :: string
  pc_source_sha256 :: string

abbreviation pc_category :: "price_record \<Rightarrow> usage_category" where
  "pc_category r \<equiv> pt_category (pc_tier r)"

definition valid_interval :: "instant \<Rightarrow> instant \<Rightarrow> bool" where
  "valid_interval a b \<longleftrightarrow> a < b"

definition sha256_text :: "string \<Rightarrow> bool" where
  "sha256_text s \<longleftrightarrow> length s = 64 \<and> list_all (\<lambda>c. c \<in> set ''0123456789abcdef'') s"

definition source_url_ok :: "split_url \<Rightarrow> bool" where
  "source_url_ok u \<longleftrightarrow> url_scheme u = ''https'' \<and> url_hostname u \<noteq> None \<and> url_hostname u \<noteq> Some []
     \<and> url_username u = None \<and> url_password u = None \<and> url_port u \<in> {None, Some 443}
     \<and> url_query u = [] \<and> url_fragment u = []"

definition category_rates_ok :: "price_record \<Rightarrow> bool" where
  "category_rates_ok r =
     (let t = pc_tier r in
      case pt_category t of
        Cat_tts \<Rightarrow> pc_basis r = RequestBoundExact \<and> 0 < input_rate t \<and> output_rate t = 0
          \<and> audio_rate t = 0 \<and> web_search_rate t = 0
      | Cat_web_search \<Rightarrow> pc_basis r = ProviderReportedExact \<and> pc_policy r = PolicyConservativeFullReservation
          \<and> 0 < input_rate t \<and> 0 < output_rate t \<and> audio_rate t = 0 \<and> 0 < web_search_rate t
      | Cat_stt \<Rightarrow> pc_basis r = ProviderReportedExact \<and> pc_policy r = FreezeUnknownOverage
          \<and> input_rate t = 0 \<and> output_rate t = 0 \<and> 0 < audio_rate t \<and> web_search_rate t = 0
      | Cat_llm \<Rightarrow> pc_basis r = ProviderReportedExact \<and> pc_policy r = FreezeUnknownOverage
          \<and> 0 < input_rate t \<and> 0 < output_rate t \<and> audio_rate t = 0 \<and> web_search_rate t = 0)"

definition price_record_ok :: "(string \<Rightarrow> split_url) \<Rightarrow> price_record \<Rightarrow> bool" where
  "price_record_ok urlsplit r \<longleftrightarrow>
     (let t = pc_tier r; rates = [input_rate t, output_rate t, audio_rate t, web_search_rate t] in
      pc_provider r \<in> {''openai'', ''qwen''} \<and> pc_model r \<noteq> [] \<and> native_currency t = ''USD''
      \<and> pc_version r \<noteq> [] \<and> pc_basis r \<in> {ProviderReportedExact, RequestBoundExact}
      \<and> list_all (\<lambda>x. 0 \<le> x \<and> x \<le> MAX_RATE_MICROS_USD) rates \<and> list_ex (\<lambda>x. x \<noteq> 0) rates
      \<and> valid_interval (pc_effective_at r) (pc_expires_at r)
      \<and> source_url_ok (urlsplit (pc_source_url r)) \<and> sha256_text (pc_source_sha256 r)
      \<and> tier_shape_ok t \<and> category_rates_ok r)"

record fx_record =
  micros_sgd_per_usd :: int
  fx_version :: string
  fx_effective_at :: instant
  fx_expires_at :: instant
  fx_source :: string
  fx_source_sha256 :: string

definition fx_record_ok :: "fx_record \<Rightarrow> bool" where
  "fx_record_ok x \<longleftrightarrow> 1 \<le> micros_sgd_per_usd x \<and> micros_sgd_per_usd x \<le> MAX_FX_MICROS_SGD_PER_USD
     \<and> fx_version x \<noteq> [] \<and> fx_source x \<noteq> [] \<and> valid_interval (fx_effective_at x) (fx_expires_at x)
     \<and> sha256_text (fx_source_sha256 x)"

record price_catalog =
  cat_prices :: "price_record list"
  cat_fx :: "fx_record option"

definition price_identity ::
    "price_record \<Rightarrow> string \<times> string \<times> usage_category \<times> string \<times> tier_basis \<times> int \<times> int" where
  "price_identity r = (pc_provider r, pc_model r, pc_category r, pc_version r, tier_basis (pc_tier r),
     tier_min_input_tokens (pc_tier r), tier_max_input_tokens (pc_tier r))"

definition price_group :: "price_record \<Rightarrow> string \<times> string \<times> usage_category \<times> string" where
  "price_group r = (pc_provider r, pc_model r, pc_category r, pc_version r)"

definition price_common ::
    "price_record \<Rightarrow> string \<times> accounting_basis \<times> evidence_policy \<times> instant \<times> instant \<times> string \<times> string" where
  "price_common r = (native_currency (pc_tier r), pc_basis r, pc_policy r, pc_effective_at r,
     pc_expires_at r, pc_source_url r, pc_source_sha256 r)"

fun contiguous_from :: "int \<Rightarrow> price_tier list \<Rightarrow> bool" where
  "contiguous_from n [] = True"
| "contiguous_from n (t # ts) =
     (tier_min_input_tokens t = n \<and> contiguous_from (tier_max_input_tokens t + 1) ts)"

definition schedule_ok :: "price_record list \<Rightarrow> bool" where
  "schedule_ok rows \<longleftrightarrow>
     (let bases = set (map (\<lambda>r. tier_basis (pc_tier r)) rows);
          ordered = sort_key (\<lambda>r. tier_min_input_tokens (pc_tier r)) rows in
      card (set (map price_common rows)) = 1
      \<and> (bases = {Flat} \<longrightarrow> length rows = 1)
      \<and> (bases = {LlmInputTokens} \<longrightarrow> contiguous_from 0 (map pc_tier ordered))
      \<and> (bases = {Flat} \<or> bases = {LlmInputTokens}))"

definition catalog_ok :: "price_catalog \<Rightarrow> bool" where
  "catalog_ok cat \<longleftrightarrow>
     distinct (map price_identity (cat_prices cat))
     \<and> (\<forall>r \<in> set (cat_prices cat). schedule_ok (filter (\<lambda>x. price_group x = price_group r) (cat_prices cat)))"

text \<open>The catalog documents after YAML parsing and field validation.\<close>

record price_catalog_row =
  row_provider :: string
  row_model :: string
  row_tier :: price_tier
  row_basis :: accounting_basis
  row_policy :: evidence_policy
  row_source_url :: string
  row_source_sha256 :: string

record price_catalog_document =
  doc_pricing_version :: string
  doc_retrieved_at :: instant
  doc_expires_at :: instant
  doc_records :: "price_catalog_row list"

definition price_record_of :: "price_catalog_document \<Rightarrow> price_catalog_row \<Rightarrow> price_record" where
  "price_record_of doc row =
     \<lparr>pc_provider = row_provider row, pc_model = row_model row, pc_tier = row_tier row,
      pc_basis = row_basis row, pc_policy = row_policy row, pc_version = doc_pricing_version doc,
      pc_effective_at = doc_retrieved_at doc, pc_expires_at = doc_expires_at doc,
      pc_source_url = row_source_url row, pc_source_sha256 = row_source_sha256 row\<rparr>"

definition load_many ::
    "(string \<Rightarrow> split_url) \<Rightarrow> (string \<times> price_catalog_document) list \<Rightarrow> fx_record \<Rightarrow> price_catalog py" where
  "load_many urlsplit files fx =
     (let prices = concat (map (\<lambda>(_, doc). map (price_record_of doc) (doc_records doc)) files);
          cat = \<lparr>cat_prices = prices, cat_fx = Some fx\<rparr> in
      if \<not> (1 \<le> length files \<and> length files \<le> 16) \<or> \<not> distinct (map fst files)
      then Inl (ValueError ''price catalog file set invalid'')
      else if \<not> list_all (price_record_ok urlsplit) prices
      then Inl (ValueError ''invalid provider price/source digest'')
      else if \<not> fx_record_ok fx then Inl (ValueError ''invalid FX/source digest'')
      else if \<not> distinct (map price_identity prices)
      then Inl (ValueError ''duplicate provider price identity'')
      else if \<not> catalog_ok cat then Inl (ValueError ''invalid provider price tier schedule'')
      else Inr cat)"

definition price_schedule ::
    "price_record \<Rightarrow> string \<times> string \<times> string \<times> instant \<times> instant \<times> accounting_basis \<times> evidence_policy \<times> tier_basis" where
  "price_schedule r = (pc_version r, pc_source_url r, pc_source_sha256 r, pc_effective_at r, pc_expires_at r,
     pc_basis r, pc_policy r, tier_basis (pc_tier r))"

definition current_prices ::
    "price_catalog \<Rightarrow> string \<Rightarrow> string \<Rightarrow> usage_category \<Rightarrow> instant \<Rightarrow> price_record list py" where
  "current_prices cat provider model category now =
     (let rows = filter (\<lambda>r. pc_provider r = provider \<and> pc_model r = model \<and> pc_category r = category
                   \<and> pc_effective_at r \<le> now \<and> now < pc_expires_at r) (cat_prices cat) in
      if rows = [] \<or> card (set (map price_schedule rows)) \<noteq> 1
      then Inl (PermissionError ''missing_or_stale_price'')
      else Inr (sort_key (\<lambda>r. tier_min_input_tokens (pc_tier r)) rows))"

definition current_fx :: "price_catalog \<Rightarrow> instant \<Rightarrow> fx_record py" where
  "current_fx cat now =
     (case cat_fx cat of
        None \<Rightarrow> Inl (PermissionError ''missing_or_stale_fx'')
      | Some x \<Rightarrow> if fx_effective_at x \<le> now \<and> now < fx_expires_at x then Inr x
                  else Inl (PermissionError ''missing_or_stale_fx''))"

subsection \<open>Quotes\<close>

definition tier_for :: "price_tier list \<Rightarrow> usage_units \<Rightarrow> price_tier py" where
  "tier_for schedule usage =
     (let bases = set (map tier_basis schedule) in
      if bases = {Flat} \<and> length schedule = 1 then Inr (hd schedule)
      else if bases \<noteq> {LlmInputTokens} then Inl (PermissionError ''price_usage_tier_mismatch'')
      else case usage of
             LlmUsageUnits i _ \<Rightarrow>
               (case filter (\<lambda>t. tier_min_input_tokens t \<le> i \<and> i \<le> tier_max_input_tokens t) schedule of
                  [t] \<Rightarrow> Inr t
                | _ \<Rightarrow> Inl (PermissionError ''missing_or_stale_price_tier''))
           | _ \<Rightarrow> Inl (PermissionError ''price_usage_tier_mismatch''))"

definition scaled :: "int \<Rightarrow> int \<Rightarrow> int \<Rightarrow> int py" where
  "scaled units rate per = bindE (checked_mul units rate MAX_INTERMEDIATE) (\<lambda>n. ceil_div n per)"

definition native_amount :: "price_tier \<Rightarrow> usage_units \<Rightarrow> int py" where
  "native_amount price usage =
     (case usage of
        LlmUsageUnits i out \<Rightarrow>
          bindE (scaled i (input_rate price) 1000000) (\<lambda>a.
          bindE (scaled out (output_rate price) 1000000) (\<lambda>b. checked_add a b MAX_INTERMEDIATE))
      | SttUsageUnits ms \<Rightarrow>
          bindE (scaled ms (audio_rate price) 60000) (\<lambda>a. checked_add a 0 MAX_INTERMEDIATE)
      | TtsUsageUnits c \<Rightarrow>
          bindE (scaled c (input_rate price) 1000000) (\<lambda>a. checked_add a 0 MAX_INTERMEDIATE)
      | WebSearchUsageUnits i out n \<Rightarrow>
          bindE (scaled i (input_rate price) 1000000) (\<lambda>a.
          bindE (scaled out (output_rate price) 1000000) (\<lambda>b.
          bindE (checked_add a b MAX_INTERMEDIATE) (\<lambda>tokens.
          bindE (checked_mul n (web_search_rate price) MAX_INTERMEDIATE) (\<lambda>calls.
            checked_add tokens calls MAX_INTERMEDIATE)))))"

definition amount :: "price_tier \<Rightarrow> int \<Rightarrow> usage_units \<Rightarrow> int py" where
  "amount price fx usage =
     (if pt_category price \<noteq> usage_category_of usage \<or> native_currency price \<noteq> ''USD''
      then Inl (PermissionError ''price_usage_purpose_mismatch'')
      else bindE (native_amount price usage) (\<lambda>native.
           bindE (scaled native fx 1000000) (\<lambda>a.
             if 0 \<le> a \<and> a \<le> MAX_CHARGE_MICROS_SGD then Inr a else Inl out_of_bounds)))"

record price_quote =
  q_provider :: string
  q_model :: string
  q_category :: usage_category
  q_amount :: int
  q_tier :: price_tier
  q_fx :: int
  q_basis :: accounting_basis
  q_policy :: evidence_policy
  q_version :: string
  q_source_url :: string
  q_source_sha256 :: string
  q_fx_version :: string
  q_fx_source_sha256 :: string
  q_schedule :: "price_tier list"

text \<open>
  The quote repeats the fields of the selected tier; \<open>q_tier\<close> stands for them. The check of its
  constructor: exactly one tier of the schedule has the selected basis and bounds, and it is that
  tier.
\<close>

definition quote_ok :: "price_quote \<Rightarrow> bool" where
  "quote_ok q =
     (let t = q_tier q in
      filter (\<lambda>x. tier_basis x = tier_basis t \<and> tier_min_input_tokens x = tier_min_input_tokens t
                \<and> tier_max_input_tokens x = tier_max_input_tokens t) (q_schedule q) = [t]
      \<and> pt_category t = q_category q)"

definition quote :: "price_catalog \<Rightarrow> instant \<Rightarrow> string \<Rightarrow> string \<Rightarrow> usage_units \<Rightarrow> price_quote py" where
  "quote cat now provider model usage =
     bindE (current_prices cat provider model (usage_category_of usage) now) (\<lambda>records.
     bindE (tier_for (map pc_tier records) usage) (\<lambda>price.
     bindE (current_fx cat now) (\<lambda>fx.
     bindE (amount price (micros_sgd_per_usd fx) usage) (\<lambda>a.
     bindE (require (a \<noteq> 0) (PermissionError ''zero_or_unpriced_usage_ceiling'')) (\<lambda>_.
       let q = \<lparr>q_provider = provider, q_model = model, q_category = usage_category_of usage, q_amount = a,
                q_tier = price, q_fx = micros_sgd_per_usd fx, q_basis = pc_basis (hd records),
                q_policy = pc_policy (hd records), q_version = pc_version (hd records),
                q_source_url = pc_source_url (hd records), q_source_sha256 = pc_source_sha256 (hd records),
                q_fx_version = fx_version fx, q_fx_source_sha256 = fx_source_sha256 fx,
                q_schedule = map pc_tier records\<rparr> in
       if quote_ok q then Inr q else Inl (ValueError ''price quote selected tier mismatch''))))))"

definition amount_from_snapshot :: "price_quote \<Rightarrow> usage_units \<Rightarrow> int py" where
  "amount_from_snapshot snapshot usage =
     bindE (tier_for (q_schedule snapshot) usage) (\<lambda>tier. amount tier (q_fx snapshot) usage)"


subsection \<open>Arithmetic of the charge\<close>

lemma checked_mul_eq:
  assumes "0 \<le> l" "0 \<le> r" "l * r \<le> limit" shows "checked_mul l r limit = Inr (l * r)"
proof (cases "r = 0")
  case False
  then have "l \<le> limit div r" using assms by (simp add: zdiv_mono1 [of "l * r" limit r, simplified])
  then show ?thesis using assms by (simp add: checked_mul_def)
qed (use assms in \<open>simp add: checked_mul_def\<close>)

lemma checked_mul_Inr: "checked_mul l r limit = Inr n \<Longrightarrow> n = l * r \<and> 0 \<le> l \<and> 0 \<le> r"
  by (auto simp: checked_mul_def split: if_splits)

lemma checked_add_Inr:
  "checked_add l r limit = Inr n \<longleftrightarrow> 0 \<le> l \<and> 0 \<le> r \<and> l + r \<le> limit \<and> n = l + r"
  by (auto simp: checked_add_def)

definition cdiv :: "int \<Rightarrow> int \<Rightarrow> int" where "cdiv n d = (n + d - 1) div d"

lemma cdiv_bounds: assumes "0 < d" shows "n \<le> d * cdiv n d" "d * cdiv n d < n + d"
proof -
  have "d * cdiv n d = n + d - 1 - (n + d - 1) mod d" by (simp add: cdiv_def minus_mod_eq_mult_div)
  moreover have "0 \<le> (n + d - 1) mod d" "(n + d - 1) mod d < d" using assms by simp_all
  ultimately show "n \<le> d * cdiv n d" "d * cdiv n d < n + d" by linarith+
qed

lemma cdiv_nonneg: "0 \<le> n \<Longrightarrow> 0 < d \<Longrightarrow> 0 \<le> cdiv n d"
  by (simp add: cdiv_def pos_imp_zdiv_nonneg_iff)

lemma cdiv_mono: "m \<le> n \<Longrightarrow> 0 < d \<Longrightarrow> cdiv m d \<le> cdiv n d"
  by (simp add: cdiv_def zdiv_mono1)

lemma cdiv_le: assumes "n \<le> d * k" "0 < d" shows "cdiv n d \<le> k"
proof -
  have "d * cdiv n d < d * (k + 1)" using cdiv_bounds(2) [OF assms(2), of n] assms by (simp add: algebra_simps)
  then show ?thesis using assms(2) by simp
qed

lemma scaled_Inr: "scaled u r d = Inr n \<Longrightarrow> 0 < d \<Longrightarrow> n = cdiv (u * r) d \<and> 0 \<le> u \<and> 0 \<le> r"
  by (auto simp: scaled_def bindE_eq_Inr ceil_div_def cdiv_def dest!: checked_mul_Inr split: if_splits)

lemma scaled_eq:
  assumes "0 \<le> u" "0 \<le> r" "u * r \<le> MAX_INTERMEDIATE" "0 < d"
  shows "scaled u r d = Inr (cdiv (u * r) d)"
  using assms by (simp add: scaled_def checked_mul_eq ceil_div_def cdiv_def not_less)

text \<open>The native charge in closed form, and the exact charge it rounds up.\<close>

definition native_value :: "price_tier \<Rightarrow> usage_units \<Rightarrow> int" where
  "native_value t u =
     (case u of
        LlmUsageUnits i out \<Rightarrow> cdiv (i * input_rate t) 1000000 + cdiv (out * output_rate t) 1000000
      | SttUsageUnits ms \<Rightarrow> cdiv (ms * audio_rate t) 60000
      | TtsUsageUnits c \<Rightarrow> cdiv (c * input_rate t) 1000000
      | WebSearchUsageUnits i out n \<Rightarrow>
          cdiv (i * input_rate t) 1000000 + cdiv (out * output_rate t) 1000000 + n * web_search_rate t)"

definition exact_native :: "price_tier \<Rightarrow> usage_units \<Rightarrow> rat" where
  "exact_native t u =
     (case u of
        LlmUsageUnits i out \<Rightarrow> of_int (i * input_rate t + out * output_rate t) / 1000000
      | SttUsageUnits ms \<Rightarrow> of_int (ms * audio_rate t) / 60000
      | TtsUsageUnits c \<Rightarrow> of_int (c * input_rate t) / 1000000
      | WebSearchUsageUnits i out n \<Rightarrow>
          of_int (i * input_rate t + out * output_rate t) / 1000000 + of_int (n * web_search_rate t))"

definition exact_charge :: "price_tier \<Rightarrow> int \<Rightarrow> usage_units \<Rightarrow> rat" where
  "exact_charge t fx u = exact_native t u * of_int fx / 1000000"

lemma native_amount_Inr: "native_amount t u = Inr n \<Longrightarrow> n = native_value t u \<and> 0 \<le> n"
  by (cases u)
     (auto simp: native_amount_def native_value_def bindE_eq_Inr checked_add_Inr dest!: scaled_Inr checked_mul_Inr)

lemma cdiv_rat: assumes "0 < d"
  shows "(of_int n :: rat) / of_int d \<le> of_int (cdiv n d)" "(of_int (cdiv n d) :: rat) < of_int n / of_int d + 1"
proof -
  have "(of_int n :: rat) \<le> of_int (d * cdiv n d)" "(of_int (d * cdiv n d) :: rat) < of_int (n + d)"
    using cdiv_bounds [OF assms, of n] by (simp_all only: of_int_le_iff of_int_less_iff)
  then show "(of_int n :: rat) / of_int d \<le> of_int (cdiv n d)" "(of_int (cdiv n d) :: rat) < of_int n / of_int d + 1"
    using assms by (simp_all add: field_simps)
qed

lemmas cdiv_rat_million = cdiv_rat [of 1000000, simplified]
lemmas cdiv_rat_minute = cdiv_rat [of 60000, simplified]

lemma native_value_exact:
  "exact_native t u \<le> of_int (native_value t u)" "of_int (native_value t u) < exact_native t u + 2"
proof -
  note b = cdiv_rat_million [of "u_input_tokens u * input_rate t"] cdiv_rat_million [of "u_output_tokens u * output_rate t"]
    cdiv_rat_minute [of "u_audio_millis u * audio_rate t"] cdiv_rat_million [of "u_characters u * input_rate t"]
  show "exact_native t u \<le> of_int (native_value t u)"
    by (cases u) (insert b, simp_all add: exact_native_def native_value_def add_divide_distrib)
  show "of_int (native_value t u) < exact_native t u + 2"
    by (cases u) (insert b, simp_all add: exact_native_def native_value_def add_divide_distrib)
qed

lemma amount_Inr:
  assumes "amount t fx u = Inr a"
  shows "a = cdiv (native_value t u * fx) 1000000" "0 \<le> a" "a \<le> MAX_CHARGE_MICROS_SGD" "0 \<le> fx"
    "pt_category t = usage_category_of u"
  using assms unfolding amount_def
  by (auto simp: bindE_eq_Inr split: if_splits dest!: scaled_Inr native_amount_Inr)


text \<open>
  C28: A charge never undercuts the exact price: the amount computed for a usage is at least the
  exact rational cost at the tier's rates and exchange rate, exceeds it by less than two native
  micro-units plus one, and lies within the charge bound.
\<close>

theorem amount_never_undercharges:
  assumes "amount t fx u = Inr a"
  shows "exact_charge t fx u \<le> of_int a
     \<and> of_int a < exact_charge t fx u + 2 * of_int fx / 1000000 + 1
     \<and> 0 \<le> a \<and> a \<le> MAX_CHARGE_MICROS_SGD"
proof -
  note a = amount_Inr [OF assms]
  note n = native_value_exact [where t = t and u = u]
  note c = cdiv_rat_million [of "native_value t u * fx", folded a(1)]
  have fx: "(0::rat) \<le> of_int fx" using a(4) by simp
  have "exact_native t u * of_int fx \<le> of_int (native_value t u) * of_int fx"
    using mult_right_mono [OF n(1) fx] .
  moreover have "of_int (native_value t u) * of_int fx \<le> (exact_native t u + 2) * of_int fx"
    using mult_right_mono [OF less_imp_le [OF n(2)] fx] .
  ultimately show ?thesis using a c by (simp add: exact_charge_def field_simps)
qed

text \<open>A valid price, rate and usage never overflow: the bounds of the code suffice.\<close>

lemma mult_bound: "0 \<le> (u::int) \<Longrightarrow> u \<le> m \<Longrightarrow> 0 \<le> r \<Longrightarrow> r \<le> k \<Longrightarrow> u * r \<le> m * k"
  by (simp add: mult_mono)

lemma scaled_bounded:
  assumes "0 \<le> u" "u \<le> m" "0 \<le> r" "r \<le> k" "m * k \<le> MAX_INTERMEDIATE" "m * k \<le> d * b" "0 < d"
  shows "\<exists>n. scaled u r d = Inr n \<and> 0 \<le> n \<and> n \<le> b"
proof -
  have ur: "u * r \<le> m * k" "0 \<le> u * r" using assms mult_bound by simp_all
  then have "scaled u r d = Inr (cdiv (u * r) d)" using assms scaled_eq by simp
  moreover have "cdiv (u * r) d \<le> b" "0 \<le> cdiv (u * r) d"
    using cdiv_le [of "u * r" d b] cdiv_nonneg ur assms by simp_all
  ultimately show ?thesis by blast
qed

lemmas bound_defs = MAX_USAGE_UNITS_def MAX_AUDIO_MILLIS_def MAX_WEB_SEARCH_CALLS_def MAX_CHARGE_MICROS_SGD_def
  MAX_AGGREGATE_MICROS_SGD_def MAX_INTERMEDIATE_def MAX_RATE_MICROS_USD_def MAX_FX_MICROS_SGD_PER_USD_def

definition rates_ok :: "price_tier \<Rightarrow> bool" where
  "rates_ok t \<longleftrightarrow> list_all (\<lambda>x. 0 \<le> x \<and> x \<le> MAX_RATE_MICROS_USD)
     [input_rate t, output_rate t, audio_rate t, web_search_rate t]"

lemma token_amount_bounded:
  assumes "0 \<le> n" "n \<le> MAX_USAGE_UNITS" "0 \<le> r" "r \<le> MAX_RATE_MICROS_USD"
  shows "\<exists>a. scaled n r 1000000 = Inr a \<and> 0 \<le> a \<and> a \<le> 10000000000"
  by (rule scaled_bounded [OF assms]) (simp_all add: bound_defs)

lemma native_amount_total:
  assumes "rates_ok t" "usage_valid u"
  shows "\<exists>n. native_amount t u = Inr n \<and> 0 \<le> n \<and> n \<le> 60000000000"
proof (cases u)
  case (LlmUsageUnits i out)
  with assms obtain a b where "scaled i (input_rate t) 1000000 = Inr a" "0 \<le> a" "a \<le> 10000000000"
      "scaled out (output_rate t) 1000000 = Inr b" "0 \<le> b" "b \<le> 10000000000"
    using token_amount_bounded [of i "input_rate t"] token_amount_bounded [of out "output_rate t"]
    by (auto simp: rates_ok_def usage_valid_def)
  with LlmUsageUnits show ?thesis by (simp add: native_amount_def checked_add_def bound_defs)
next
  case (SttUsageUnits ms)
  with assms obtain a where "scaled ms (audio_rate t) 60000 = Inr a" "0 \<le> a" "a \<le> 60000000000"
    using scaled_bounded [of ms MAX_AUDIO_MILLIS "audio_rate t" MAX_RATE_MICROS_USD 60000 60000000000]
    by (auto simp: rates_ok_def usage_valid_def bound_defs)
  with SttUsageUnits show ?thesis by (simp add: native_amount_def checked_add_def bound_defs)
next
  case (TtsUsageUnits c)
  with assms obtain a where "scaled c (input_rate t) 1000000 = Inr a" "0 \<le> a" "a \<le> 10000000000"
    using token_amount_bounded [of c "input_rate t"] by (auto simp: rates_ok_def usage_valid_def bound_defs)
  with TtsUsageUnits show ?thesis by (simp add: native_amount_def checked_add_def bound_defs)
next
  case (WebSearchUsageUnits i out n)
  with assms obtain a b where "scaled i (input_rate t) 1000000 = Inr a" "0 \<le> a" "a \<le> 10000000000"
      "scaled out (output_rate t) 1000000 = Inr b" "0 \<le> b" "b \<le> 10000000000"
    using token_amount_bounded [of i "input_rate t"] token_amount_bounded [of out "output_rate t"]
    by (auto simp: rates_ok_def usage_valid_def)
  moreover have "n * web_search_rate t \<le> 16000000000" "0 \<le> n" "0 \<le> web_search_rate t"
    using mult_bound [of n 16 "web_search_rate t" MAX_RATE_MICROS_USD] assms WebSearchUsageUnits
    by (auto simp: rates_ok_def usage_valid_def bound_defs)
  ultimately show ?thesis using WebSearchUsageUnits
    by (simp add: native_amount_def checked_add_def checked_mul_eq bound_defs not_less)
qed

lemma amount_total:
  assumes "rates_ok t" "usage_valid u" "0 \<le> fx" "fx \<le> MAX_FX_MICROS_SGD_PER_USD"
    "pt_category t = usage_category_of u" "native_currency t = ''USD''"
  shows "\<exists>a. amount t fx u = Inr a"
proof -
  obtain n where n: "native_amount t u = Inr n" "0 \<le> n" "n \<le> 60000000000"
    using native_amount_total assms by blast
  have "60000000000 * MAX_FX_MICROS_SGD_PER_USD \<le> MAX_INTERMEDIATE"
    "60000000000 * MAX_FX_MICROS_SGD_PER_USD \<le> 1000000 * 600000000000"
    by (simp_all add: bound_defs)
  from scaled_bounded [OF n(2,3) assms(3,4) this]
  obtain a where "scaled n fx 1000000 = Inr a" "0 \<le> a" "a \<le> 600000000000" by auto
  with n show ?thesis using assms by (simp add: amount_def bound_defs)
qed

subsection \<open>Tier selection\<close>

lemma contiguous_lower:
  assumes "contiguous_from n ts" "list_all (\<lambda>t. tier_min_input_tokens t \<le> tier_max_input_tokens t) ts" "t \<in> set ts"
  shows "n \<le> tier_min_input_tokens t"
  using assms by (induction ts arbitrary: n) force+

lemma contiguous_unique:
  assumes "contiguous_from n ts" "list_all (\<lambda>t. tier_min_input_tokens t \<le> tier_max_input_tokens t) ts"
    "n \<le> i" "\<exists>t \<in> set ts. i \<le> tier_max_input_tokens t"
  shows "\<exists>t. filter (\<lambda>t. tier_min_input_tokens t \<le> i \<and> i \<le> tier_max_input_tokens t) ts = [t]"
  using assms
proof (induction ts arbitrary: n)
  case (Cons t ts)
  show ?case
  proof (cases "i \<le> tier_max_input_tokens t")
    case True
    have "filter (\<lambda>t. tier_min_input_tokens t \<le> i \<and> i \<le> tier_max_input_tokens t) ts = []"
      using contiguous_lower [of "tier_max_input_tokens t + 1" ts] Cons.prems True
      by (force simp: filter_empty_conv)
    then show ?thesis using Cons.prems True by simp
  next
    case False
    then show ?thesis using Cons.IH [of "tier_max_input_tokens t + 1"] Cons.prems by auto
  qed
qed simp

lemma card_singleton_eq: "card (set (map f xs)) = 1 \<Longrightarrow> x \<in> set xs \<Longrightarrow> y \<in> set xs \<Longrightarrow> f x = f y"
  by (auto simp: card_1_singleton_iff dest: equalityD1)

lemma current_prices_rows:
  assumes ok: "catalog_ok cat"
    and rows: "rows = filter (\<lambda>r. pc_provider r = provider \<and> pc_model r = model \<and> pc_category r = category
                 \<and> pc_effective_at r \<le> now \<and> now < pc_expires_at r) (cat_prices cat)"
    and one: "card (set (map price_schedule rows)) = 1" and r: "r \<in> set rows"
  shows "rows = filter (\<lambda>x. price_group x = price_group r) (cat_prices cat)"
  unfolding rows
proof (rule filter_cong [OF refl])
  fix x assume x: "x \<in> set (cat_prices cat)"
  let ?F = "\<lambda>r. pc_provider r = provider \<and> pc_model r = model \<and> pc_category r = category
              \<and> pc_effective_at r \<le> now \<and> now < pc_expires_at r"
  have rF: "r \<in> set (cat_prices cat)" "?F r" using r rows by simp_all
  show "?F x \<longleftrightarrow> price_group x = price_group r"
  proof
    assume F: "?F x"
    then have "x \<in> set rows" using x rows by simp
    then have "price_schedule x = price_schedule r" using card_singleton_eq [OF one] r by blast
    then show "price_group x = price_group r" using F rF(2) by (simp add: price_schedule_def price_group_def)
  next
    assume g: "price_group x = price_group r"
    let ?group = "filter (\<lambda>x. price_group x = price_group r) (cat_prices cat)"
    have "schedule_ok ?group" using ok rF(1) by (simp add: catalog_ok_def)
    then have "card (set (map price_common ?group)) = 1" by (simp add: schedule_ok_def Let_def)
    moreover have "x \<in> set ?group" "r \<in> set ?group" using x rF(1) g by simp_all
    ultimately have "price_common x = price_common r" by (rule card_singleton_eq)
    then show "?F x" using g rF(2) by (simp add: price_common_def price_group_def)
  qed
qed

lemma current_prices_group:
  assumes ok: "catalog_ok cat" and cp: "current_prices cat provider model category now = Inr rs"
  shows "\<exists>r group. group = filter (\<lambda>x. price_group x = price_group r) (cat_prices cat) \<and> r \<in> set group
    \<and> rs = sort_key (\<lambda>r. tier_min_input_tokens (pc_tier r)) group \<and> schedule_ok group
    \<and> pc_category r = category"
proof -
  define rows where "rows = filter (\<lambda>r. pc_provider r = provider \<and> pc_model r = model \<and> pc_category r = category
              \<and> pc_effective_at r \<le> now \<and> now < pc_expires_at r) (cat_prices cat)"
  from cp have ne: "rows \<noteq> []" and one: "card (set (map price_schedule rows)) = 1"
    and rs: "rs = sort_key (\<lambda>r. tier_min_input_tokens (pc_tier r)) rows"
    unfolding current_prices_def rows_def [symmetric] Let_def by (simp_all split: if_splits)
  from ne obtain r where r: "r \<in> set rows" using last_in_set by blast
  then have rc: "r \<in> set (cat_prices cat)" "pc_category r = category" by (simp_all add: rows_def)
  from current_prices_rows [OF ok rows_def one r]
  have group: "rows = filter (\<lambda>x. price_group x = price_group r) (cat_prices cat)" .
  have "schedule_ok rows" unfolding group using ok rc(1) unfolding catalog_ok_def by blast
  then show ?thesis using group r rs rc(2) by blast
qed


definition catalog_loaded :: "(string \<Rightarrow> split_url) \<Rightarrow> price_catalog \<Rightarrow> bool" where
  "catalog_loaded urlsplit cat \<longleftrightarrow> list_all (price_record_ok urlsplit) (cat_prices cat)
     \<and> null_or fx_record_ok (cat_fx cat) \<and> catalog_ok cat"

lemma load_many_loaded: "load_many urlsplit files fx = Inr cat \<Longrightarrow> catalog_loaded urlsplit cat"
  by (auto simp: load_many_def catalog_loaded_def Let_def split: if_splits)

lemma price_record_okD:
  assumes "price_record_ok urlsplit r"
  shows "rates_ok (pc_tier r)" "native_currency (pc_tier r) = ''USD''" "tier_shape_ok (pc_tier r)" "category_rates_ok r"
  using assms by (simp_all add: price_record_ok_def Let_def rates_ok_def)

lemma current_fx_loaded:
  assumes "catalog_loaded urlsplit cat" "current_fx cat now = Inr fx"
  shows "1 \<le> micros_sgd_per_usd fx" "micros_sgd_per_usd fx \<le> MAX_FX_MICROS_SGD_PER_USD"
  using assms by (auto simp: catalog_loaded_def current_fx_def fx_record_ok_def split: option.splits if_splits)

lemma filter_sub_singleton:
  assumes "filter P xs = [t]" "\<And>x. Q x \<Longrightarrow> P x" "Q t" shows "filter Q xs = [t]"
proof -
  have "filter Q xs = filter Q (filter P xs)" using assms(2) by (simp, metis)
  then show ?thesis using assms by simp
qed

lemma cdiv_pos: "0 < n \<Longrightarrow> 0 < d \<Longrightarrow> 1 \<le> cdiv n d"
  using cdiv_bounds(1) [of d n] by (smt (verit) mult_nonneg_nonpos)

lemma native_value_pos:
  assumes "category_rates_ok r" "rates_ok (pc_tier r)" "usage_valid u" "0 < usage_total u"
    "pc_category r = usage_category_of u"
  shows "1 \<le> native_value (pc_tier r) u"
proof -
  let ?t = "pc_tier r"
  have pos: "1 \<le> cdiv (n * k) d" if "0 < n" "0 < k" "0 < d" for n k d :: int using that cdiv_pos by simp
  have nn: "0 \<le> cdiv (n * k) d" if "0 \<le> n" "0 \<le> k" "0 < d" for n k d :: int using that cdiv_nonneg by simp
  show ?thesis
  proof (cases u)
    case (LlmUsageUnits i out)
    have r: "0 < input_rate ?t" "0 < output_rate ?t" "0 \<le> i" "0 \<le> out" "0 < i \<or> 0 < out"
      using assms LlmUsageUnits by (auto simp: category_rates_ok_def Let_def usage_category_of_def usage_valid_def usage_total_def)
    then show ?thesis using LlmUsageUnits pos [of i "input_rate ?t" 1000000] pos [of out "output_rate ?t" 1000000]
        nn [of i "input_rate ?t" 1000000] nn [of out "output_rate ?t" 1000000]
      by (auto simp: native_value_def)
  next
    case (SttUsageUnits ms)
    then have "0 < audio_rate ?t" "0 < ms"
      using assms by (auto simp: category_rates_ok_def Let_def usage_category_of_def usage_total_def)
    then show ?thesis using SttUsageUnits pos [of ms "audio_rate ?t" 60000] by (simp add: native_value_def)
  next
    case (TtsUsageUnits c)
    then have "0 < input_rate ?t" "0 < c"
      using assms by (auto simp: category_rates_ok_def Let_def usage_category_of_def usage_total_def)
    then show ?thesis using TtsUsageUnits pos [of c "input_rate ?t" 1000000] by (simp add: native_value_def)
  next
    case (WebSearchUsageUnits i out n)
    have r: "0 < input_rate ?t" "0 < output_rate ?t" "0 < web_search_rate ?t" "0 \<le> i" "0 \<le> out" "0 \<le> n"
        "0 < i \<or> 0 < out \<or> 0 < n"
      using assms WebSearchUsageUnits by (auto simp: category_rates_ok_def Let_def usage_category_of_def usage_valid_def usage_total_def)
    have w: "0 \<le> n * web_search_rate ?t" using r by simp
    have "1 \<le> n * web_search_rate ?t" if "0 < n" using mult_pos_pos [OF that r(3)] by linarith
    moreover note pos [OF _ r(1), of i 1000000] pos [OF _ r(2), of out 1000000]
    moreover have nn': "0 \<le> cdiv (i * input_rate ?t) 1000000" "0 \<le> cdiv (out * output_rate ?t) 1000000"
      using r nn by simp_all
    ultimately have "1 \<le> cdiv (i * input_rate ?t) 1000000 + cdiv (out * output_rate ?t) 1000000 + n * web_search_rate ?t"
      using r(7) w by linarith
    then show ?thesis using WebSearchUsageUnits by (simp add: native_value_def)
  qed
qed

text \<open>The tier a loaded catalog selects, with the check that the quote's constructor makes.\<close>

definition covers :: "price_record list \<Rightarrow> usage_units \<Rightarrow> bool" where
  "covers rs u \<longleftrightarrow> (case u of
      LlmUsageUnits i _ \<Rightarrow> list_ex (\<lambda>r. tier_basis (pc_tier r) = Flat \<or> i \<le> tier_max_input_tokens (pc_tier r)) rs
    | _ \<Rightarrow> True)"

lemma tier_for_loaded:
  assumes cat: "catalog_loaded urlsplit cat"
    and rs: "current_prices cat provider model (usage_category_of u) now = Inr rs"
    and u: "usage_valid u" "covers rs u"
  shows "\<exists>r \<in> set rs. tier_for (map pc_tier rs) u = Inr (pc_tier r) \<and> price_record_ok urlsplit r
    \<and> pc_category r = usage_category_of u
    \<and> filter (\<lambda>x. tier_basis x = tier_basis (pc_tier r) \<and> tier_min_input_tokens x = tier_min_input_tokens (pc_tier r)
        \<and> tier_max_input_tokens x = tier_max_input_tokens (pc_tier r)) (map pc_tier rs) = [pc_tier r]"
proof -
  have "catalog_ok cat" using cat by (simp add: catalog_loaded_def)
  from current_prices_group [OF this rs] obtain r0 group where
    g: "group = filter (\<lambda>x. price_group x = price_group r0) (cat_prices cat)" "r0 \<in> set group"
    "rs = sort_key (\<lambda>r. tier_min_input_tokens (pc_tier r)) group" "schedule_ok group"
    "pc_category r0 = usage_category_of u" by blast
  have mem: "set rs = set group" using g(3) by simp
  have ok: "price_record_ok urlsplit r" and cg: "pc_category r = usage_category_of u" if "r \<in> set rs" for r
    using that mem g(1,5) cat by (auto simp: catalog_loaded_def list_all_iff price_group_def)
  have bases: "set (map tier_basis (map pc_tier rs)) = set (map (\<lambda>r. tier_basis (pc_tier r)) group)"
    using mem by auto
  consider (flat) "set (map (\<lambda>r. tier_basis (pc_tier r)) group) = {Flat}" "length group = 1"
    | (tiered) "set (map (\<lambda>r. tier_basis (pc_tier r)) group) = {LlmInputTokens}" "contiguous_from 0 (map pc_tier rs)"
    using g(3,4) by (auto simp: schedule_ok_def Let_def)
  then show ?thesis
  proof cases
    case flat
    then obtain r where "rs = [r]" using g(3) by (metis length_sort length_0_conv length_Suc_conv One_nat_def)
    then show ?thesis using ok cg flat bases by (auto simp: tier_for_def)
  next
    case tiered
    have lt: "tier_basis (pc_tier r) = LlmInputTokens" if "r \<in> set rs" for r using that tiered(1) mem by auto
    have shape: "tier_shape_ok (pc_tier r)" if "r \<in> set rs" for r using price_record_okD(3) ok that by blast
    have wf: "list_all (\<lambda>t. tier_min_input_tokens t \<le> tier_max_input_tokens t) (map pc_tier rs)"
      using lt shape by (force simp: list_all_iff tier_shape_ok_def)
    have "pc_category r0 = Cat_llm" using lt shape g(2) mem by (force simp: tier_shape_ok_def)
    then obtain i out where ui: "u = LlmUsageUnits i out" using g(5) by (cases u) (simp_all add: usage_category_of_def)
    have "\<exists>t \<in> set (map pc_tier rs). i \<le> tier_max_input_tokens t" using u(2) lt ui by (auto simp: covers_def list_ex_iff)
    moreover have "0 \<le> i" using u(1) ui by (simp add: usage_valid_def)
    ultimately obtain t where t:
      "filter (\<lambda>t. tier_min_input_tokens t \<le> i \<and> i \<le> tier_max_input_tokens t) (map pc_tier rs) = [t]"
      using contiguous_unique [OF tiered(2) wf] by blast
    have "t \<in> set (filter (\<lambda>t. tier_min_input_tokens t \<le> i \<and> i \<le> tier_max_input_tokens t) (map pc_tier rs))"
      unfolding t by simp
    then have tm: "t \<in> set (map pc_tier rs)" "tier_min_input_tokens t \<le> i" "i \<le> tier_max_input_tokens t"
      by simp_all
    then obtain r where r: "r \<in> set rs" "t = pc_tier r" by auto
    have "tier_for (map pc_tier rs) u = Inr t" unfolding tier_for_def bases Let_def tiered(1) ui using t by simp
    moreover have "filter (\<lambda>x. tier_basis x = tier_basis t \<and> tier_min_input_tokens x = tier_min_input_tokens t
        \<and> tier_max_input_tokens x = tier_max_input_tokens t) (map pc_tier rs) = [t]"
      by (rule filter_sub_singleton [OF t]) (use tm in simp_all)
    ultimately show ?thesis using r ok cg by blast
  qed
qed


lemma amount_loaded_pos:
  assumes "price_record_ok urlsplit r" "pc_category r = usage_category_of u" "usage_valid u" "0 < usage_total u"
    "1 \<le> fx" "fx \<le> MAX_FX_MICROS_SGD_PER_USD"
  shows "\<exists>a. amount (pc_tier r) fx u = Inr a \<and> 1 \<le> a"
proof -
  note ok = price_record_okD [OF assms(1)]
  obtain a where a: "amount (pc_tier r) fx u = Inr a"
    using amount_total [of "pc_tier r" u fx] ok assms by auto
  have "1 \<le> native_value (pc_tier r) u" using native_value_pos ok assms by blast
  then have "1 \<le> cdiv (native_value (pc_tier r) u * fx) 1000000" using assms by (intro cdiv_pos mult_pos_pos) simp_all
  then show ?thesis using a amount_Inr(1) [OF a] by blast
qed

text \<open>
  A catalog that loaded quotes every usage it prices: with a current schedule and a current
  exchange rate, a valid positive usage that some tier covers gets a quote. No overflow, no missing
  or doubly matching tier and no zero price is possible.
\<close>

theorem quote_available:
  assumes "load_many urlsplit files fx = Inr cat"
    and "current_prices cat provider model (usage_category_of u) now = Inr rs" "current_fx cat now = Inr rate"
    and "usage_valid u" "0 < usage_total u" "covers rs u"
  shows "\<exists>q. quote cat now provider model u = Inr q \<and> tier_for (map pc_tier rs) u = Inr (q_tier q)
     \<and> q_schedule q = map pc_tier rs"
proof -
  note cat = load_many_loaded [OF assms(1)]
  obtain r where r: "tier_for (map pc_tier rs) u = Inr (pc_tier r)" "price_record_ok urlsplit r"
    "pc_category r = usage_category_of u"
    "filter (\<lambda>x. tier_basis x = tier_basis (pc_tier r) \<and> tier_min_input_tokens x = tier_min_input_tokens (pc_tier r)
        \<and> tier_max_input_tokens x = tier_max_input_tokens (pc_tier r)) (map pc_tier rs) = [pc_tier r]"
    using tier_for_loaded [OF cat assms(2,4,6)] by blast
  obtain a where "amount (pc_tier r) (micros_sgd_per_usd rate) u = Inr a" "1 \<le> a"
    using amount_loaded_pos [OF r(2,3) assms(4,5)] current_fx_loaded [OF cat assms(3)] by blast
  then show ?thesis using assms(2,3) r by (simp add: quote_def quote_ok_def)
qed

lemma tier_for_mem: "tier_for ts u = Inr t \<Longrightarrow> t \<in> set ts"
  unfolding tier_for_def Let_def
  by (auto split: if_splits usage_units.splits list.splits dest!: filter_eq_ConsD) (cases ts; simp)+

lemma quote_Inr:
  assumes "quote cat now provider model u = Inr q"
  shows "tier_for (q_schedule q) u = Inr (q_tier q)" "amount (q_tier q) (q_fx q) u = Inr (q_amount q)"
    "q_amount q \<noteq> 0" "q_provider q = provider" "q_model q = model" "q_category q = usage_category_of u"
  using assms by (auto simp: quote_def bindE_eq_Inr Let_def split: if_splits)

lemma amount_covers_exact:
  assumes "amount t fx u = Inr a" shows "exact_charge t fx u \<le> of_int a"
proof -
  note a = amount_Inr [OF assms]
  have "exact_native t u * of_int fx \<le> of_int (native_value t u) * of_int fx"
    using mult_right_mono [OF native_value_exact(1)] a(4) by simp
  then show ?thesis using cdiv_rat_million(1) [of "native_value t u * fx"] a(1) by (simp add: exact_charge_def)
qed

text \<open>
  A quote can be priced again from its own snapshot: re-pricing the same usage gives exactly
  the quoted amount, which is positive, within bounds and not below the exact price.
\<close>

theorem quote_snapshot_roundtrip:
  assumes "quote cat now provider model u = Inr q"
  shows "amount_from_snapshot q u = Inr (q_amount q) \<and> 1 \<le> q_amount q \<and> q_amount q \<le> MAX_CHARGE_MICROS_SGD
     \<and> exact_charge (q_tier q) (q_fx q) u \<le> of_int (q_amount q)
     \<and> q_provider q = provider \<and> q_model q = model \<and> q_category q = usage_category_of u"
  using quote_Inr [OF assms] amount_Inr(2,3) [OF quote_Inr(2) [OF assms]] amount_covers_exact [OF quote_Inr(2) [OF assms]]
  by (simp add: amount_from_snapshot_def)

fun usage_le :: "usage_units \<Rightarrow> usage_units \<Rightarrow> bool" where
  "usage_le (LlmUsageUnits i out) (LlmUsageUnits i' out') \<longleftrightarrow> i \<le> i' \<and> out \<le> out'"
| "usage_le (SttUsageUnits a) (SttUsageUnits a') \<longleftrightarrow> a \<le> a'"
| "usage_le (TtsUsageUnits c) (TtsUsageUnits c') \<longleftrightarrow> c \<le> c'"
| "usage_le (WebSearchUsageUnits i out n) (WebSearchUsageUnits i' out' n') \<longleftrightarrow> i \<le> i' \<and> out \<le> out' \<and> n \<le> n'"
| "usage_le _ _ \<longleftrightarrow> False"

lemma native_value_mono:
  assumes "rates_ok t" "usage_le u v" shows "native_value t u \<le> native_value t v"
  using assms
  by (cases "(u, v)" rule: usage_le.cases)
     (auto simp: native_value_def rates_ok_def intro!: add_mono cdiv_mono mult_right_mono)

lemma native_value_nonneg:
  assumes "rates_ok t" "usage_valid u" shows "0 \<le> native_value t u"
  using native_amount_total [OF assms] native_amount_Inr by blast

text \<open>
  A call that stays within its ceiling never costs more than its reservation: when the actual
  usage is at most the quoted one in every unit and falls in the quoted tier, pricing it from the
  snapshot succeeds with at most the quoted amount.
\<close>

theorem amount_within_ceiling:
  assumes "load_many urlsplit files fx = Inr cat" "quote cat now provider model u = Inr q"
    and "usage_valid v" "usage_le v u" "tier_for (q_schedule q) v = Inr (q_tier q)"
  shows "\<exists>a. amount_from_snapshot q v = Inr a \<and> a \<le> q_amount q"
proof -
  note q = quote_Inr [OF assms(2)] and cat = load_many_loaded [OF assms(1)]
  obtain rs rate where rs: "current_prices cat provider model (usage_category_of u) now = Inr rs"
      "q_schedule q = map pc_tier rs" "q_tier q \<in> set (map pc_tier rs)" "current_fx cat now = Inr rate" "q_fx q = micros_sgd_per_usd rate"
    using tier_for_mem [OF q(1)] assms(2) by (auto simp: quote_def bindE_eq_Inr Let_def split: if_splits)
  then obtain r where r: "r \<in> set (cat_prices cat)" "q_tier q = pc_tier r"
    by (auto simp: current_prices_def Let_def split: if_splits)
  have ok: "price_record_ok urlsplit r" using cat r by (simp add: catalog_loaded_def list_all_iff)
  note rec = price_record_okD [OF ok, folded r(2)] and f = current_fx_loaded [OF cat rs(4), folded rs(5)]
  have vu: "usage_category_of v = usage_category_of u"
    using assms(4) by (cases "(v, u)" rule: usage_le.cases) (simp_all add: usage_category_of_def)
  then obtain a where a: "amount (q_tier q) (q_fx q) v = Inr a"
    using amount_total [OF rec(1) assms(3), of "q_fx q"] f amount_Inr(5) [OF q(2)] rec(2) by auto
  have "native_value (q_tier q) v * q_fx q \<le> native_value (q_tier q) u * q_fx q"
    using native_value_mono [OF rec(1) assms(4)] f by (intro mult_right_mono) simp_all
  then have "a \<le> q_amount q" unfolding amount_Inr(1) [OF a] amount_Inr(1) [OF q(2)] by (intro cdiv_mono) simp_all
  then show ?thesis using a assms(5) by (simp add: amount_from_snapshot_def)
qed


subsection \<open>A concrete catalog\<close>

definition ex_url :: "string \<Rightarrow> split_url" where
  "ex_url s = \<lparr>url_scheme = ''https'', url_hostname = Some ''prices'', url_username = None, url_password = None,
     url_port = None, url_query = [], url_fragment = []\<rparr>"

definition ex_tier :: "int \<Rightarrow> int \<Rightarrow> int \<Rightarrow> price_tier" where
  "ex_tier lo hi rate = \<lparr>tier_basis = LlmInputTokens, tier_min_input_tokens = lo, tier_max_input_tokens = hi,
     pt_category = Cat_llm, native_currency = ''USD'', input_rate = rate, output_rate = 2 * rate, audio_rate = 0,
     web_search_rate = 0\<rparr>"

definition ex_row :: "price_tier \<Rightarrow> price_catalog_row" where
  "ex_row t = \<lparr>row_provider = ''qwen'', row_model = ''m'', row_tier = t, row_basis = ProviderReportedExact,
     row_policy = FreezeUnknownOverage, row_source_url = ''u'',
     row_source_sha256 = ''0123456789abcdef0123456789abcdef0123456789abcdef0123456789abcdef''\<rparr>"

definition ex_doc :: price_catalog_document where
  "ex_doc = \<lparr>doc_pricing_version = ''v'', doc_retrieved_at = 0, doc_expires_at = 100,
     doc_records = [ex_row (ex_tier 1001 10000000 400000), ex_row (ex_tier 0 1000 200000)]\<rparr>"

definition ex_fx :: fx_record where
  "ex_fx = \<lparr>micros_sgd_per_usd = 1350000, fx_version = ''v'', fx_effective_at = 0, fx_expires_at = 100,
     fx_source = ''s'', fx_source_sha256 = ''0123456789abcdef0123456789abcdef0123456789abcdef0123456789abcdef''\<rparr>"

definition ex_catalog :: price_catalog where
  "ex_catalog = \<lparr>cat_prices = map (price_record_of ex_doc) (doc_records ex_doc), cat_fx = Some ex_fx\<rparr>"

definition ex_usage :: usage_units where "ex_usage = LlmUsageUnits 900 500"

definition ex_quote :: price_quote where
  "ex_quote = projr (quote ex_catalog 7 ''qwen'' ''m'' ex_usage)"

lemma ex_load: "load_many ex_url [(''p'', ex_doc)] ex_fx = Inr ex_catalog"
  by code_simp

lemma ex_prices: "current_prices ex_catalog ''qwen'' ''m'' Cat_llm 7
    = Inr (map (price_record_of ex_doc) [ex_row (ex_tier 0 1000 200000), ex_row (ex_tier 1001 10000000 400000)])"
  by code_simp

lemma ex_fx_current: "current_fx ex_catalog 7 = Inr ex_fx"
  by code_simp

lemma ex_quote_eq: "quote ex_catalog 7 ''qwen'' ''m'' ex_usage = Inr ex_quote"
  by code_simp

theorem amount_never_undercharges_witness:
  "amount (ex_tier 0 1000 200000) 1350000 ex_usage = Inr 513
   \<and> exact_charge (ex_tier 0 1000 200000) 1350000 ex_usage \<le> 513"
proof -
  have a: "amount (ex_tier 0 1000 200000) 1350000 ex_usage = Inr 513" by code_simp
  show ?thesis using amount_never_undercharges [OF a] a by simp
qed

theorem quote_available_witness:
  "\<exists>q. quote ex_catalog 7 ''qwen'' ''m'' ex_usage = Inr q \<and> q_tier q = ex_tier 0 1000 200000"
proof -
  have c: "usage_category_of ex_usage = Cat_llm" by code_simp
  have "usage_valid ex_usage" "0 < usage_total ex_usage"
    "covers (map (price_record_of ex_doc) [ex_row (ex_tier 0 1000 200000), ex_row (ex_tier 1001 10000000 400000)]) ex_usage"
    by code_simp+
  from quote_available [OF ex_load ex_prices [folded c] ex_fx_current this]
  obtain q where "quote ex_catalog 7 ''qwen'' ''m'' ex_usage = Inr q"
    "tier_for [ex_tier 0 1000 200000, ex_tier 1001 10000000 400000] ex_usage = Inr (q_tier q)"
    by (auto simp: price_record_of_def ex_row_def)
  moreover have "tier_for [ex_tier 0 1000 200000, ex_tier 1001 10000000 400000] ex_usage = Inr (ex_tier 0 1000 200000)"
    by code_simp
  ultimately show ?thesis by auto
qed

theorem quote_snapshot_roundtrip_witness:
  "amount_from_snapshot ex_quote ex_usage = Inr (q_amount ex_quote) \<and> q_amount ex_quote = 513"
  using quote_snapshot_roundtrip [OF ex_quote_eq] by (simp, code_simp)

theorem amount_within_ceiling_witness:
  "\<exists>a. amount_from_snapshot ex_quote (LlmUsageUnits 10 500) = Inr a \<and> a \<le> q_amount ex_quote"
proof -
  have "usage_valid (LlmUsageUnits 10 500)" "usage_le (LlmUsageUnits 10 500) ex_usage"
    "tier_for (q_schedule ex_quote) (LlmUsageUnits 10 500) = Inr (q_tier ex_quote)"
    by code_simp+
  from amount_within_ceiling [OF ex_load ex_quote_eq this] show ?thesis .
qed

end
