(* ===== verification/Budget_Store.thy ===== *)
theory Budget_Store
  imports Pricing
begin

text \<open>
  The tables behind the cloud budget (\<^verbatim>\<open>adapters/sqlcipher/foundation_0001.py\<close>), the statements that the
  budget services execute on them, and the evidence of \<^verbatim>\<open>services/budget/evidence.py\<close>.

  A table is a list of rows. An \<^verbatim>\<open>UPDATE\<close> changes the rows that its condition selects and counts them;
  an \<^verbatim>\<open>INSERT\<close> adds a row. Both fail with \<open>IntegrityErr\<close> when a row would violate a \<^verbatim>\<open>CHECK\<close>, a primary
  key or a uniqueness constraint. A unit of work opens with \<^verbatim>\<open>BEGIN IMMEDIATE\<close>, so its statements run as
  one step, and an exception rolls it back. Enumerated columns are datatypes; the nine price columns of
  a reservation, which the table requires to be all null or all present, are one optional record. The
  keys of \<^verbatim>\<open>runtime_settings\<close> are a datatype with one constructor per key prefix and the values are the
  structured payloads.

  Canonical JSON printing, schema parsing and the keyed hash are parameters (\<open>evidence_env\<close>).
\<close>

subsection \<open>Statements\<close>

datatype budget_error =
    PermissionErr string
  | RuntimeErr string
  | ValueErr string
  | OverflowErr string
  | BudgetEvidenceQuarantined string
  | ReservationNotSettleable
  | SentReservationRequiresSettlement
  | IntegrityErr

definition raise_py :: "py_error \<Rightarrow> budget_error" where
  "raise_py e = (case e of PermissionError m \<Rightarrow> PermissionErr m | ValueError m \<Rightarrow> ValueErr m
     | TypeError m \<Rightarrow> ValueErr m | RuntimeError m \<Rightarrow> RuntimeErr m | OverflowError m \<Rightarrow> OverflowErr m)"

definition lift_py :: "'a py \<Rightarrow> budget_error + 'a" where
  "lift_py r = (case r of Inl e \<Rightarrow> Inl (raise_py e) | Inr x \<Rightarrow> Inr x)"

definition sql_update ::
    "('r \<Rightarrow> bool) \<Rightarrow> ('r \<Rightarrow> bool) \<Rightarrow> ('r \<Rightarrow> 'r) \<Rightarrow> 'r list \<Rightarrow> budget_error + (nat \<times> 'r list)" where
  "sql_update chk P f rows =
     (if list_all (\<lambda>r. P r \<longrightarrow> chk (f r)) rows
      then Inr (length (filter P rows), map (\<lambda>r. if P r then f r else r) rows)
      else Inl IntegrityErr)"

definition sql_insert ::
    "('r \<Rightarrow> bool) \<Rightarrow> ('r \<Rightarrow> 'r \<Rightarrow> bool) \<Rightarrow> 'r \<Rightarrow> 'r list \<Rightarrow> budget_error + 'r list" where
  "sql_insert chk conflict r rows =
     (if chk r \<and> list_all (\<lambda>x. \<not> conflict x r) rows then Inr (rows @ [r]) else Inl IntegrityErr)"

definition update_one ::
    "('r \<Rightarrow> bool) \<Rightarrow> ('r \<Rightarrow> bool) \<Rightarrow> ('r \<Rightarrow> 'r) \<Rightarrow> budget_error \<Rightarrow> 'r list \<Rightarrow> budget_error + 'r list" where
  "update_one chk P f err rows =
     bindE (sql_update chk P f rows) (\<lambda>(n, rows'). if n = 1 then Inr rows' else Inl err)"

subsection \<open>Rows\<close>

datatype budget_outcome =
  Allow | AllowSoftWarning | DenyHardLimit | DenyUnknownPrice | DenyCloudEgressFrozen

datatype reservation_state = Reserved | Sent | Settled | Released | Denied

datatype transport_phase = NotClaimed | ClaimBegun | MarkedSent | NetworkInvocationStarting | Finished

datatype call_outcome = Started | Succeeded | Failed | Cancelled | Ambiguous

datatype route_purpose = CloudStt | CloudReasoning | CloudTts

abbreviation allowing :: "budget_outcome set" where "allowing \<equiv> {Allow, AllowSoftWarning}"
abbreviation open_states :: "reservation_state set" where "open_states \<equiv> {Reserved, Sent}"
abbreviation counted_states :: "reservation_state set" where "counted_states \<equiv> {Reserved, Sent, Settled}"
abbreviation terminal_states :: "reservation_state set" where "terminal_states \<equiv> {Settled, Released, Denied}"

record price_columns =
  p_snapshot_json :: string
  p_basis :: accounting_basis
  p_policy :: evidence_policy
  p_version :: string
  p_source_sha256 :: string
  p_fx_version :: string
  p_fx_source_sha256 :: string
  p_key_id :: string
  p_hmac :: string

record reservation_row =
  r_id :: uuid
  r_request :: uuid
  r_attempt :: uuid
  r_month :: string
  r_category :: usage_category
  r_provider :: string
  r_model :: string
  r_outcome :: budget_outcome
  r_reserved :: int
  r_charged :: "int option"
  r_usage_json :: string
  r_price :: "price_columns option"
  r_overrun :: bool
  r_state :: reservation_state
  r_ordering :: nat
  r_phase :: transport_phase
  r_created_at :: instant
  r_expires_at :: instant
  r_settled_at :: "instant option"
  r_reconciled_at :: "instant option"

definition month_key_ok :: "string \<Rightarrow> bool" where
  "month_key_ok m \<longleftrightarrow> length m = 7
     \<and> list_all (\<lambda>i. m ! i \<in> set ''0123456789'') [0, 1, 2, 3, 6] \<and> m ! 4 = CHR ''-''
     \<and> (m ! 5 = CHR ''0'' \<and> m ! 6 \<noteq> CHR ''0'' \<or> m ! 5 = CHR ''1'' \<and> m ! 6 \<in> set ''012'')"

definition price_policy_ok :: "usage_category \<Rightarrow> price_columns \<Rightarrow> bool" where
  "price_policy_ok c p =
     (case c of
        Cat_tts \<Rightarrow> p_basis p = RequestBoundExact \<and> p_policy p = FreezeUnknownOverage
      | Cat_web_search \<Rightarrow> p_basis p = ProviderReportedExact \<and> p_policy p = PolicyConservativeFullReservation
      | _ \<Rightarrow> p_basis p = ProviderReportedExact \<and> p_policy p = FreezeUnknownOverage)"

definition outcome_shape_ok :: "reservation_row \<Rightarrow> bool" where
  "outcome_shape_ok r =
     (case r_outcome r of
        DenyHardLimit \<Rightarrow> r_reserved r = 0 \<and> r_price r \<noteq> None \<and> r_state r = Denied
      | DenyUnknownPrice \<Rightarrow> r_reserved r = 0 \<and> r_price r = None \<and> r_state r = Denied
      | DenyCloudEgressFrozen \<Rightarrow> r_reserved r = 0 \<and> r_price r = None \<and> r_state r = Denied
      | _ \<Rightarrow> 1 \<le> r_reserved r \<and> r_reserved r \<le> MAX_CHARGE_MICROS_SGD \<and> r_price r \<noteq> None \<and> r_state r \<noteq> Denied)"

definition reservation_check :: "reservation_row \<Rightarrow> bool" where
  "reservation_check r \<longleftrightarrow>
     0 \<le> r_reserved r \<and> r_reserved r \<le> MAX_CHARGE_MICROS_SGD
     \<and> null_or (\<lambda>c. 0 \<le> c \<and> c \<le> MAX_CHARGE_MICROS_SGD) (r_charged r)
     \<and> null_or (\<lambda>p. sha256_text (p_source_sha256 p) \<and> sha256_text (p_fx_source_sha256 p)
          \<and> price_policy_ok (r_category r) p) (r_price r)
     \<and> month_key_ok (r_month r) \<and> r_provider r \<in> {''openai'', ''qwen''} \<and> r_ordering r = 1
     \<and> outcome_shape_ok r
     \<and> (r_state r = Settled) = (r_charged r \<noteq> None) \<and> (r_state r = Settled) = (r_settled_at r \<noteq> None)
     \<and> r_overrun r = (case r_charged r of Some c \<Rightarrow> c > r_reserved r | None \<Rightarrow> False)
     \<and> r_created_at r < r_expires_at r"

definition reservation_conflict :: "reservation_row \<Rightarrow> reservation_row \<Rightarrow> bool" where
  "reservation_conflict x r \<longleftrightarrow> r_id x = r_id r \<or> r_attempt x = r_attempt r"

type_synonym receipt_columns = "string option \<times> string option \<times> string option"

definition no_receipt :: "receipt_columns \<Rightarrow> bool" where
  "no_receipt c \<longleftrightarrow> fst c = None \<and> fst (snd c) = None \<and> snd (snd c) = None"

definition receipt_present :: "receipt_columns \<Rightarrow> bool" where
  "receipt_present c \<longleftrightarrow> fst c \<noteq> None \<and> fst (snd c) \<noteq> None \<and> snd (snd c) \<noteq> None"

record call_row =
  c_id :: uuid
  c_request :: uuid
  c_attempt :: uuid
  c_authorization :: uuid
  c_reservation :: uuid
  c_purpose :: route_purpose
  c_provider :: string
  c_model :: string
  c_category :: usage_category
  c_redaction_receipt :: "uuid option"
  c_outcome :: call_outcome
  c_ordering :: nat
  c_phase :: transport_phase
  c_receipt :: receipt_columns
  c_started_at :: instant
  c_finished_at :: "instant option"

fun purpose_category :: "route_purpose \<Rightarrow> usage_category" where
  "purpose_category CloudStt = Cat_stt"
| "purpose_category CloudReasoning = Cat_llm"
| "purpose_category CloudTts = Cat_tts"

definition call_check :: "call_row \<Rightarrow> bool" where
  "call_check c \<longleftrightarrow> c_provider c \<in> {''openai'', ''qwen''} \<and> c_category c = purpose_category (c_purpose c)
     \<and> c_ordering c = 1 \<and> c_phase c \<noteq> NotClaimed \<and> (no_receipt (c_receipt c) \<or> receipt_present (c_receipt c))"

definition call_conflict :: "call_row \<Rightarrow> call_row \<Rightarrow> bool" where
  "call_conflict x c \<longleftrightarrow> c_id x = c_id c \<or> c_attempt x = c_attempt c \<or> c_authorization x = c_authorization c
     \<or> c_reservation x = c_reservation c"

text \<open>The foreign key of a call: a reservation with the same identity, provider, model and category.\<close>

definition call_parent :: "call_row \<Rightarrow> reservation_row \<Rightarrow> bool" where
  "call_parent c r \<longleftrightarrow> r_id r = c_reservation c \<and> r_request r = c_request c \<and> r_attempt r = c_attempt c
     \<and> r_provider r = c_provider c \<and> r_model r = c_model c \<and> r_category r = c_category c"

record ledger_row =
  l_id :: uuid
  l_reservation :: uuid
  l_month :: string
  l_reserved :: int
  l_charged :: int
  l_usage_json :: string
  l_receipt :: receipt_columns
  l_basis :: "accounting_basis option"
  l_primary_basis :: accounting_basis
  l_policy :: evidence_policy
  l_conservative :: bool
  l_overrun :: bool
  l_hard_cap_exceeded :: bool
  l_version :: string
  l_source_sha256 :: string
  l_fx_version :: string
  l_fx_source_sha256 :: string
  l_settled_at :: instant

definition ledger_check :: "ledger_row \<Rightarrow> bool" where
  "ledger_check l \<longleftrightarrow> month_key_ok (l_month l) \<and> 1 \<le> l_reserved l \<and> l_reserved l \<le> MAX_CHARGE_MICROS_SGD
     \<and> 0 \<le> l_charged l \<and> l_charged l \<le> MAX_CHARGE_MICROS_SGD
     \<and> (no_receipt (l_receipt l) \<and> l_basis l = None \<and> l_conservative l
        \<or> receipt_present (l_receipt l)
          \<and> (l_basis l = Some (l_primary_basis l) \<and> \<not> l_conservative l
             \<or> l_basis l = Some ConservativeFullReservation \<and> l_policy l = PolicyConservativeFullReservation
               \<and> l_conservative l))
     \<and> l_overrun l = (l_charged l > l_reserved l)
     \<and> sha256_text (l_source_sha256 l) \<and> sha256_text (l_fx_source_sha256 l)"

definition ledger_conflict :: "ledger_row \<Rightarrow> ledger_row \<Rightarrow> bool" where
  "ledger_conflict x l \<longleftrightarrow> l_id x = l_id l \<or> l_reservation x = l_reservation l"

definition ledger_parent :: "ledger_row \<Rightarrow> reservation_row \<Rightarrow> bool" where
  "ledger_parent l r \<longleftrightarrow> r_id r = l_reservation l \<and> r_month r = l_month l \<and> r_reserved r = l_reserved l
     \<and> r_charged r = Some (l_charged l) \<and> r_settled_at r = Some (l_settled_at l)
     \<and> (case r_price r of None \<Rightarrow> False
        | Some p \<Rightarrow> p_version p = l_version l \<and> p_source_sha256 p = l_source_sha256 l
          \<and> p_fx_version p = l_fx_version l \<and> p_fx_source_sha256 p = l_fx_source_sha256 l
          \<and> p_basis p = l_primary_basis l \<and> p_policy p = l_policy l)"

datatype setting_key =
    FreezeKey string
  | WarningKey string
  | AlertKey string uuid
  | TurnKey uuid
  | RouteKey uuid
  | OtherKey string

record freeze_payload =
  fz_reason :: string
  fz_month :: string
  fz_total :: "int option"
  fz_hard_limit :: int
  fz_reservation :: uuid

record turn_binding =
  tb_household :: uuid
  tb_turn :: uuid
  tb_request :: uuid
  tb_attempt :: uuid

record route_envelope =
  env_authorization :: uuid
  env_subject :: "uuid option"

datatype setting_value =
    FreezeValue freeze_payload
  | EmittedValue
  | TurnValue turn_binding
  | RouteValue route_envelope
  | TextValue string

record core_db =
  reservations :: "reservation_row list"
  calls :: "call_row list"
  ledger :: "ledger_row list"
  settings :: "(setting_key \<times> setting_value) list"

definition insert_setting :: "setting_key \<Rightarrow> setting_value \<Rightarrow> core_db \<Rightarrow> budget_error + core_db" where
  "insert_setting k v db =
     (if map_of (settings db) k = None then Inr (db\<lparr>settings := settings db @ [(k, v)]\<rparr>) else Inl IntegrityErr)"

definition insert_setting_or_keep :: "setting_key \<Rightarrow> setting_value \<Rightarrow> core_db \<Rightarrow> core_db" where
  "insert_setting_or_keep k v db =
     (if map_of (settings db) k = None then db\<lparr>settings := settings db @ [(k, v)]\<rparr> else db)"

abbreviation frozen_month :: "string \<Rightarrow> core_db \<Rightarrow> bool" where
  "frozen_month m db \<equiv> map_of (settings db) (FreezeKey m) \<noteq> None"

text \<open>One unit of work: commit on return, roll back on an exception.\<close>

definition run_uow :: "(core_db \<Rightarrow> budget_error + ('a \<times> core_db)) \<Rightarrow> core_db \<Rightarrow> (budget_error + 'a) \<times> core_db" where
  "run_uow f db = (case f db of Inl e \<Rightarrow> (Inl e, db) | Inr (x, db') \<Rightarrow> (Inr x, db'))"

subsection \<open>Evidence\<close>

record reservation_request =
  q_household :: uuid
  q_turn :: uuid
  q_request :: uuid
  q_attempt :: uuid
  rq_provider :: string
  rq_model :: string
  rq_category :: usage_category
  rq_usage :: usage_units
  rq_month :: string

definition one_search_call :: "usage_units \<Rightarrow> bool" where
  "one_search_call u = (case u of WebSearchUsageUnits _ _ n \<Rightarrow> n = 1 | _ \<Rightarrow> True)"

definition reservation_request_ok :: "reservation_request \<Rightarrow> bool" where
  "reservation_request_ok q \<longleftrightarrow> rq_provider q \<in> {''openai'', ''qwen''} \<and> 1 \<le> length (rq_model q)
     \<and> length (rq_model q) \<le> 128 \<and> usage_valid (rq_usage q) \<and> month_key_ok (rq_month q)
     \<and> usage_category_of (rq_usage q) = rq_category q \<and> 0 < usage_total (rq_usage q) \<and> one_search_call (rq_usage q)"

record pricing_snapshot =
  ps_request :: uuid
  ps_attempt :: uuid
  ps_usage :: usage_units
  ps_quote :: price_quote

record usage_receipt =
  u_receipt_id :: uuid
  u_call :: uuid
  u_reservation :: uuid
  u_request :: uuid
  u_attempt :: uuid
  u_authorization :: uuid
  u_provider :: string
  u_model :: string
  u_category :: usage_category
  u_basis :: accounting_basis
  u_billable :: usage_units
  u_response_commitment :: "string \<times> string"
  u_observed_at :: instant
  u_key_id :: string
  u_hmac :: string

definition usage_receipt_ok :: "usage_receipt \<Rightarrow> bool" where
  "usage_receipt_ok u \<longleftrightarrow> u_provider u \<in> {''openai'', ''qwen''} \<and> 1 \<le> length (u_model u) \<and> length (u_model u) \<le> 128
     \<and> u_category u = usage_category_of (u_billable u) \<and> usage_valid (u_billable u)
     \<and> 0 < usage_total (u_billable u) \<and> one_search_call (u_billable u)"

record evidence_env =
  canon_usage :: "usage_units \<Rightarrow> string"
  parse_usage :: "string \<Rightarrow> usage_units option"
  canon_snapshot :: "pricing_snapshot \<Rightarrow> string"
  parse_snapshot :: "string \<Rightarrow> pricing_snapshot option"
  quote_fits :: "price_quote \<Rightarrow> bool"
  canon_receipt :: "usage_receipt \<Rightarrow> string"
  canon_unsigned :: "usage_receipt \<Rightarrow> string"
  parse_receipt :: "string \<Rightarrow> usage_receipt option"
  commit_hmac :: "string \<Rightarrow> string \<Rightarrow> string"
  response_text :: "string \<Rightarrow> string \<Rightarrow> string \<Rightarrow> accounting_basis \<Rightarrow> usage_units \<Rightarrow> string"
  identifier_ok :: "string \<Rightarrow> bool"
  ev_key_id :: string

record signed_snapshot =
  ss_json :: string
  ss_key_id :: string
  ss_hmac :: string

definition issue_pricing_snapshot ::
    "evidence_env \<Rightarrow> reservation_request \<Rightarrow> price_quote \<Rightarrow> budget_error + signed_snapshot" where
  "issue_pricing_snapshot ev q quo =
     (let canonical = canon_snapshot ev \<lparr>ps_request = q_request q, ps_attempt = q_attempt q, ps_usage = rq_usage q,
                        ps_quote = quo\<rparr> in
      if \<not> quote_fits ev quo then Inl (ValueErr ''bounded JSON'')
      else Inr \<lparr>ss_json = canonical, ss_key_id = ev_key_id ev,
                ss_hmac = commit_hmac ev ''budget.pricing-snapshot.v1'' canonical\<rparr>)"

definition require_pricing_snapshot :: "evidence_env \<Rightarrow> reservation_row \<Rightarrow> budget_error + price_quote" where
  "require_pricing_snapshot ev r =
     (let bad = Inl (BudgetEvidenceQuarantined ''budget_pricing_snapshot_invalid'') in
      case r_price r of None \<Rightarrow> bad
      | Some p \<Rightarrow>
        (case parse_snapshot ev (p_snapshot_json p) of None \<Rightarrow> bad
         | Some s \<Rightarrow>
           (let quo = ps_quote s in
            if p_key_id p = ev_key_id ev
               \<and> commit_hmac ev ''budget.pricing-snapshot.v1'' (canon_snapshot ev s) = p_hmac p
               \<and> quote_ok quo
               \<and> q_provider quo = r_provider r \<and> q_model quo = r_model r \<and> q_category quo = r_category r
               \<and> q_basis quo = p_basis p \<and> q_policy quo = p_policy p \<and> q_version quo = p_version p
               \<and> q_source_sha256 quo = p_source_sha256 p \<and> q_fx_version quo = p_fx_version p
               \<and> q_fx_source_sha256 quo = p_fx_source_sha256 p
               \<and> ps_request s = r_request r \<and> ps_attempt s = r_attempt r
               \<and> parse_usage ev (r_usage_json r) = Some (ps_usage s) \<and> q_amount quo = r_reserved r
            then Inr quo else bad)))"

record route_authorization =
  rt_authorization :: uuid
  rt_request :: uuid
  rt_attempt :: uuid
  rt_purpose :: route_purpose
  rt_household :: uuid
  rt_subject :: "uuid option"
  rt_session :: uuid
  rt_turn :: uuid
  rt_provider :: string
  rt_model :: string
  rt_commitment :: "string \<times> string \<times> string"
  rt_max_input_bytes :: int
  rt_max_input_units :: int
  rt_reservation :: uuid
  rt_sensitivity :: nat
  rt_expires_at :: instant

definition attest_provider_usage ::
    "evidence_env \<Rightarrow> uuid \<Rightarrow> uuid \<Rightarrow> route_authorization \<Rightarrow> usage_category \<Rightarrow> accounting_basis \<Rightarrow> usage_units
     \<Rightarrow> string \<Rightarrow> instant \<Rightarrow> budget_error + usage_receipt" where
  "attest_provider_usage ev receipt_id call_id route category basis usage response_id now =
     (if usage_category_of usage \<noteq> category \<or> usage_total usage \<le> 0 \<or> \<not> identifier_ok ev response_id
      then Inl (BudgetEvidenceQuarantined ''provider_usage_invalid_unknown_overage'')
      else
        (let response = (ev_key_id ev, commit_hmac ev ''provider.response-id.v1''
                          (response_text ev (rt_provider route) (rt_model route) response_id basis usage));
             unsigned = \<lparr>u_receipt_id = receipt_id, u_call = call_id, u_reservation = rt_reservation route,
               u_request = rt_request route, u_attempt = rt_attempt route, u_authorization = rt_authorization route,
               u_provider = rt_provider route, u_model = rt_model route, u_category = category, u_basis = basis,
               u_billable = usage, u_response_commitment = response, u_observed_at = now, u_key_id = [], u_hmac = []\<rparr>;
             receipt = unsigned\<lparr>u_key_id := ev_key_id ev,
               u_hmac := commit_hmac ev ''provider.usage-receipt.v1'' (canon_unsigned ev unsigned)\<rparr> in
         if usage_receipt_ok receipt then Inr receipt else Inl (ValueErr ''provider_usage'')))"

definition require_attested_receipt :: "evidence_env \<Rightarrow> usage_receipt \<Rightarrow> budget_error + string" where
  "require_attested_receipt ev u =
     (if u_key_id u = ev_key_id ev
         \<and> commit_hmac ev ''provider.usage-receipt.v1'' (canon_unsigned ev (u\<lparr>u_key_id := [], u_hmac := []\<rparr>)) = u_hmac u
      then Inr (canon_receipt ev u)
      else Inl (BudgetEvidenceQuarantined ''budget_usage_receipt_invalid_unknown_overage''))"

definition receipt_bound :: "usage_receipt \<Rightarrow> call_row \<Rightarrow> bool" where
  "receipt_bound u c \<longleftrightarrow> u_call u = c_id c \<and> u_reservation u = c_reservation c \<and> u_request u = c_request c
     \<and> u_attempt u = c_attempt c \<and> u_authorization u = c_authorization c \<and> u_provider u = c_provider c
     \<and> u_model u = c_model c \<and> u_category u = c_category c"

definition receipt_basis_ok :: "evidence_env \<Rightarrow> usage_receipt \<Rightarrow> reservation_row \<Rightarrow> bool" where
  "receipt_basis_ok ev u r =
     (case (r_price r, parse_usage ev (r_usage_json r)) of
        (Some p, Some limit) \<Rightarrow>
          (u_basis u = p_basis p
             \<or> p_policy p = PolicyConservativeFullReservation \<and> u_basis u = ConservativeFullReservation)
          \<and> (u_basis u \<in> {RequestBoundExact, ConservativeFullReservation} \<longrightarrow> u_billable u = limit)
      | _ \<Rightarrow> False)"

definition require_provider_usage_receipt ::
    "evidence_env \<Rightarrow> call_row \<Rightarrow> reservation_row \<Rightarrow> instant \<Rightarrow> budget_error + usage_receipt" where
  "require_provider_usage_receipt ev c r now =
     (let bad = Inl (BudgetEvidenceQuarantined ''budget_usage_receipt_invalid_unknown_overage'') in
      case fst (c_receipt c) of None \<Rightarrow> bad
      | Some raw \<Rightarrow>
        (case parse_receipt ev raw of None \<Rightarrow> bad
         | Some u \<Rightarrow>
           if usage_receipt_ok u \<and> canon_receipt ev u = raw \<and> require_attested_receipt ev u = Inr raw
              \<and> Some (u_key_id u) = fst (snd (c_receipt c)) \<and> Some (u_hmac u) = snd (snd (c_receipt c))
              \<and> receipt_bound u c
              \<and> u_reservation u = r_id r \<and> u_request u = r_request r \<and> u_attempt u = r_attempt r
              \<and> u_provider u = r_provider r \<and> u_model u = r_model r \<and> u_category u = r_category r
              \<and> u_observed_at u \<le> now \<and> receipt_basis_ok ev u r
           then Inr u else bad))"

end
