(* ===== verification/Budget_Guard.thy ===== *)
theory Budget_Guard
  imports Budget_Store "HOL-Library.Product_Lexorder"
begin

text \<open>
  The budget guard (\<^verbatim>\<open>services/budget/guard.py\<close>), the provider call repository
  (\<^verbatim>\<open>services/providers/call_repository.py\<close>, \<^verbatim>\<open>route_verifier.py\<close>), the reconciler of expired reservations
  (\<^verbatim>\<open>services/budget/reconciler.py\<close>) and the settlement that a subject revocation makes
  (\<^verbatim>\<open>adapters/sqlcipher/identity_repositories.py\<close>), as operations on the tables of \<^verbatim>\<open>Budget_Store\<close>.

  Fresh identifiers are arguments. Parameters of the guard (\<open>guard_cfg\<close>): the month of an instant in
  Singapore (time-zone data), whether a provider review is current and whether a redaction receipt is
  bound (other tables), and the evidence environment.
\<close>

record guard_cfg =
  g_catalog :: price_catalog
  g_evidence :: evidence_env
  g_hard_limit :: int
  g_soft_limit :: int
  g_expiry :: int
  g_month_of :: "instant \<Rightarrow> string"
  g_review_current :: "string \<Rightarrow> string \<Rightarrow> route_purpose \<Rightarrow> instant \<Rightarrow> bool"
  g_redaction_bound :: "uuid \<Rightarrow> route_purpose \<Rightarrow> string \<times> string \<times> string \<Rightarrow> nat \<Rightarrow> bool"

definition guard_cfg_ok :: "guard_cfg \<Rightarrow> bool" where
  "guard_cfg_ok cfg \<longleftrightarrow> 1000000 \<le> g_expiry cfg \<and> g_expiry cfg \<le> 900000000"

record budget_reservation =
  b_reservation :: uuid
  b_request :: uuid
  b_attempt :: uuid
  b_outcome :: budget_outcome
  b_amount :: int
  b_commitment :: "(string \<times> string) option"
  b_expires_at :: instant

record budget_settlement =
  s_reservation :: uuid
  s_charged :: int
  s_conservative :: bool
  s_overrun :: bool
  s_frozen :: bool

subsection \<open>Reserving\<close>

definition counted_amount :: "reservation_row \<Rightarrow> int option" where
  "counted_amount r = (if r_state r = Settled then r_charged r else Some (r_reserved r))"

fun total_amounts :: "budget_error \<Rightarrow> int \<Rightarrow> reservation_row list \<Rightarrow> budget_error + int" where
  "total_amounts missing acc [] = Inr acc"
| "total_amounts missing acc (r # rs) =
     (case counted_amount r of None \<Rightarrow> Inl missing
      | Some a \<Rightarrow> bindE (lift_py (checked_add acc a MAX_AGGREGATE_MICROS_SGD)) (\<lambda>t. total_amounts missing t rs))"

definition month_rows :: "string \<Rightarrow> core_db \<Rightarrow> reservation_row list" where
  "month_rows m db = filter (\<lambda>r. r_month r = m \<and> r_state r \<in> counted_states) (reservations db)"

fun reserve_purpose :: "usage_category \<Rightarrow> route_purpose option" where
  "reserve_purpose Cat_stt = Some CloudStt"
| "reserve_purpose Cat_llm = Some CloudReasoning"
| "reserve_purpose Cat_tts = Some CloudTts"
| "reserve_purpose Cat_web_search = None"

definition decide_outcome :: "bool \<Rightarrow> bool \<Rightarrow> int \<Rightarrow> int \<Rightarrow> int \<Rightarrow> bool \<Rightarrow> budget_outcome" where
  "decide_outcome frozen unknown projected hard soft warned =
     (if frozen then DenyCloudEgressFrozen else if unknown then DenyUnknownPrice
      else if projected > hard then DenyHardLimit
      else if projected > soft \<and> \<not> warned then AllowSoftWarning else Allow)"

definition price_columns_of :: "price_quote \<Rightarrow> signed_snapshot \<Rightarrow> price_columns" where
  "price_columns_of quo s =
     \<lparr>p_snapshot_json = ss_json s, p_basis = q_basis quo, p_policy = q_policy quo, p_version = q_version quo,
      p_source_sha256 = q_source_sha256 quo, p_fx_version = q_fx_version quo,
      p_fx_source_sha256 = q_fx_source_sha256 quo, p_key_id = ss_key_id s, p_hmac = ss_hmac s\<rparr>"

definition reserve_locked ::
    "guard_cfg \<Rightarrow> uuid \<Rightarrow> reservation_request \<Rightarrow> route_purpose \<Rightarrow> (price_quote \<times> signed_snapshot) option \<Rightarrow> instant
     \<Rightarrow> core_db \<Rightarrow> budget_error + (budget_reservation \<times> core_db)" where
  "reserve_locked cfg rid q purpose priced now db =
     bindE (require (g_review_current cfg (rq_provider q) (rq_model q) purpose now)
              (PermissionErr ''provider_review_not_current'')) (\<lambda>_.
     let frozen = frozen_month (rq_month q) db in
     bindE (total_amounts (PermissionErr ''budget_terminal_amount_missing'') 0 (month_rows (rq_month q) db)) (\<lambda>total.
     let authoritative = (case priced of None \<Rightarrow> 0 | Some (quo, _) \<Rightarrow> q_amount quo) in
     bindE (require (0 \<le> authoritative \<and> authoritative \<le> MAX_CHARGE_MICROS_SGD)
              (OverflowErr ''budget_arithmetic_out_of_bounds'')) (\<lambda>_.
     bindE (lift_py (checked_add total authoritative MAX_AGGREGATE_MICROS_SGD)) (\<lambda>projected.
     let warned = map_of (settings db) (WarningKey (rq_month q)) \<noteq> None;
         outcome = decide_outcome frozen (priced = None) projected (g_hard_limit cfg) (g_soft_limit cfg) warned;
         state = (if outcome \<in> allowing then Reserved else Denied);
         reserved = (if state = Reserved then authoritative else 0);
         persisted = (if outcome \<in> {DenyUnknownPrice, DenyCloudEgressFrozen} then None else priced);
         row = \<lparr>r_id = rid, r_request = q_request q, r_attempt = q_attempt q, r_month = rq_month q,
                r_category = rq_category q, r_provider = rq_provider q, r_model = rq_model q, r_outcome = outcome,
                r_reserved = reserved, r_charged = None, r_usage_json = canon_usage (g_evidence cfg) (rq_usage q),
                r_price = map_option (\<lambda>(quo, s). price_columns_of quo s) persisted, r_overrun = False,
                r_state = state, r_ordering = 1, r_phase = NotClaimed, r_created_at = now,
                r_expires_at = now + g_expiry cfg, r_settled_at = None, r_reconciled_at = None\<rparr> in
     bindE (sql_insert reservation_check reservation_conflict row (reservations db)) (\<lambda>rows.
     bindE (insert_setting (TurnKey rid) (TurnValue \<lparr>tb_household = q_household q, tb_turn = q_turn q,
              tb_request = q_request q, tb_attempt = q_attempt q\<rparr>) (db\<lparr>reservations := rows\<rparr>)) (\<lambda>db1.
     bindE (if outcome = AllowSoftWarning then insert_setting (WarningKey (rq_month q)) EmittedValue db1 else Inr db1) (\<lambda>db2.
       Inr (\<lparr>b_reservation = rid, b_request = q_request q, b_attempt = q_attempt q, b_outcome = outcome,
             b_amount = reserved, b_commitment = map_option (\<lambda>(_, s). (ss_key_id s, ss_hmac s)) persisted,
             b_expires_at = now + g_expiry cfg\<rparr>, db2))))))))"

definition priced_quote :: "guard_cfg \<Rightarrow> reservation_request \<Rightarrow> instant \<Rightarrow> (price_quote \<times> signed_snapshot) option" where
  "priced_quote cfg q now =
     (case quote (g_catalog cfg) now (rq_provider q) (rq_model q) (rq_usage q) of Inl _ \<Rightarrow> None
      | Inr quo \<Rightarrow> (case issue_pricing_snapshot (g_evidence cfg) q quo of Inl _ \<Rightarrow> None | Inr s \<Rightarrow> Some (quo, s)))"

definition reserve ::
    "guard_cfg \<Rightarrow> uuid \<Rightarrow> reservation_request \<Rightarrow> instant \<Rightarrow> core_db \<Rightarrow> (budget_error + budget_reservation) \<times> core_db" where
  "reserve cfg rid q now db =
     (if rq_month q \<noteq> g_month_of cfg now then (Inl (PermissionErr ''budget_month_mismatch''), db)
      else case reserve_purpose (rq_category q) of
             None \<Rightarrow> (Inl (PermissionErr ''budget_category_not_activated''), db)
           | Some purpose \<Rightarrow> run_uow (reserve_locked cfg rid q purpose (priced_quote cfg q now) now) db)"

subsection \<open>Claiming and sending\<close>

record route_consumption =
  cs_request :: uuid
  cs_attempt :: uuid
  cs_purpose :: route_purpose
  cs_household :: uuid
  cs_subject :: "uuid option"
  cs_session :: uuid
  cs_turn :: uuid
  cs_provider :: string
  cs_model :: string
  cs_commitment :: "string \<times> string \<times> string"
  cs_input_bytes :: int
  cs_input_units :: int
  cs_consumed_at :: instant

definition verify_route_consumption :: "route_authorization \<Rightarrow> route_consumption \<Rightarrow> instant \<Rightarrow> budget_error + unit" where
  "verify_route_consumption rt cs now =
     (if now \<ge> rt_expires_at rt then Inl (PermissionErr ''route_authorization_expired'')
      else if cs_consumed_at cs > now then Inl (PermissionErr ''route_consumption_from_future'')
      else if rt_request rt \<noteq> cs_request cs \<or> rt_attempt rt \<noteq> cs_attempt cs \<or> rt_purpose rt \<noteq> cs_purpose cs
           \<or> rt_household rt \<noteq> cs_household cs \<or> rt_subject rt \<noteq> cs_subject cs \<or> rt_session rt \<noteq> cs_session cs
           \<or> rt_turn rt \<noteq> cs_turn cs \<or> rt_provider rt \<noteq> cs_provider cs \<or> rt_model rt \<noteq> cs_model cs
           \<or> rt_commitment rt \<noteq> cs_commitment cs
           \<or> cs_input_bytes cs > rt_max_input_bytes rt \<or> cs_input_units cs > rt_max_input_units rt
      then Inl (PermissionErr ''route_consumption_mismatch'') else Inr ())"

definition claim_locked ::
    "guard_cfg \<Rightarrow> uuid \<Rightarrow> route_authorization \<Rightarrow> route_consumption \<Rightarrow> uuid option \<Rightarrow> instant \<Rightarrow> core_db
     \<Rightarrow> budget_error + (uuid \<times> core_db)" where
  "claim_locked cfg cid rt cs redaction now db =
     bindE (case redaction of
              None \<Rightarrow> require (rt_purpose rt = CloudStt) (PermissionErr ''redaction_receipt_binding_mismatch'')
            | Some rr \<Rightarrow> if rt_purpose rt = CloudStt then Inl (PermissionErr ''redaction_receipt_forbidden'')
                else require (g_redaction_bound cfg rr (rt_purpose rt) (cs_commitment cs) (rt_sensitivity rt))
                       (PermissionErr ''redaction_receipt_binding_mismatch'')) (\<lambda>_.
     bindE (update_one reservation_check
              (\<lambda>r. r_id r = rt_reservation rt \<and> r_request r = rt_request rt \<and> r_attempt r = rt_attempt rt
                 \<and> r_provider r = rt_provider rt \<and> r_model r = rt_model rt
                 \<and> r_category r = purpose_category (rt_purpose rt) \<and> r_state r = Reserved \<and> r_ordering r = 1
                 \<and> r_phase r = NotClaimed \<and> r_expires_at r > now)
              (\<lambda>r. r\<lparr>r_phase := ClaimBegun\<rparr>) (PermissionErr ''reservation_not_claimable'') (reservations db)) (\<lambda>rows.
     let row = \<lparr>c_id = cid, c_request = rt_request rt, c_attempt = rt_attempt rt,
                c_authorization = rt_authorization rt, c_reservation = rt_reservation rt, c_purpose = rt_purpose rt,
                c_provider = rt_provider rt, c_model = rt_model rt, c_category = purpose_category (rt_purpose rt),
                c_redaction_receipt = redaction, c_outcome = Started, c_ordering = 1, c_phase = ClaimBegun,
                c_receipt = (None, None, None), c_started_at = now, c_finished_at = None\<rparr> in
     bindE (require (list_ex (call_parent row) rows) IntegrityErr) (\<lambda>_.
     bindE (sql_insert call_check call_conflict row (calls db)) (\<lambda>cs'.
       Inr (cid, db\<lparr>reservations := rows, calls := cs'\<rparr>)))))"

definition begin_call ::
    "guard_cfg \<Rightarrow> uuid \<Rightarrow> route_authorization \<Rightarrow> route_consumption \<Rightarrow> uuid option \<Rightarrow> instant \<Rightarrow> core_db
     \<Rightarrow> (budget_error + uuid) \<times> core_db" where
  "begin_call cfg cid rt cs redaction now db =
     (case verify_route_consumption rt cs now of Inl e \<Rightarrow> (Inl e, db)
      | Inr _ \<Rightarrow>
        (case run_uow (claim_locked cfg cid rt cs redaction now) db of
           (Inl IntegrityErr, db') \<Rightarrow> (Inl (PermissionErr ''provider_call_claim_conflict''), db')
         | r \<Rightarrow> r))"

definition mark_pair :: "uuid \<Rightarrow> uuid \<Rightarrow> instant \<Rightarrow> core_db \<Rightarrow> budget_error + (unit \<times> core_db)" where
  "mark_pair rid aid now db =
     (case find (\<lambda>r. r_id r = rid \<and> r_attempt r = aid) (reservations db) of
        None \<Rightarrow> Inl (PermissionErr ''reservation_not_markable_sent'')
      | Some res \<Rightarrow>
        if frozen_month (r_month res) db then Inl (PermissionErr ''budget_cloud_egress_frozen'')
        else
          (case find (\<lambda>c. c_reservation c = rid \<and> c_attempt c = aid \<and> c_ordering c = 1 \<and> c_phase c = ClaimBegun
                       \<and> c_outcome c = Started) (calls db) of
             None \<Rightarrow> Inl (PermissionErr ''provider_claim_proof_missing'')
           | Some call \<Rightarrow>
             if \<not> no_receipt (c_receipt call) then Inl (PermissionErr ''provider_claim_proof_missing'')
             else
               bindE (update_one reservation_check
                        (\<lambda>r. r_id r = rid \<and> r_attempt r = aid \<and> r_state r = Reserved \<and> r_expires_at r > now
                           \<and> r_ordering r = 1 \<and> r_phase r = ClaimBegun)
                        (\<lambda>r. r\<lparr>r_state := Sent, r_phase := MarkedSent\<rparr>)
                        (PermissionErr ''reservation_not_markable_sent'') (reservations db)) (\<lambda>rows.
               bindE (update_one call_check
                        (\<lambda>c. c_id c = c_id call \<and> c_reservation c = rid \<and> c_attempt c = aid \<and> c_outcome c = Started
                           \<and> c_ordering c = 1 \<and> c_phase c = ClaimBegun)
                        (\<lambda>c. c\<lparr>c_phase := MarkedSent\<rparr>) (PermissionErr ''provider_claim_phase_race'') (calls db)) (\<lambda>cs.
                 Inr ((), db\<lparr>reservations := rows, calls := cs\<rparr>)))))"

definition mark_sent :: "uuid \<Rightarrow> uuid \<Rightarrow> instant \<Rightarrow> core_db \<Rightarrow> (budget_error + unit) \<times> core_db" where
  "mark_sent rid aid now db = run_uow (mark_pair rid aid now) db"

definition advance_locked :: "uuid \<Rightarrow> core_db \<Rightarrow> budget_error + (unit \<times> core_db)" where
  "advance_locked cid db =
     (case find (\<lambda>c. c_id c = cid \<and> c_outcome c = Started \<and> c_ordering c = 1 \<and> c_phase c = MarkedSent) (calls db) of
        None \<Rightarrow> Inl (PermissionErr ''provider_call_not_markable_network'')
      | Some call \<Rightarrow>
        if \<not> no_receipt (c_receipt call) then Inl (PermissionErr ''provider_call_not_markable_network'')
        else
          bindE (update_one reservation_check
                   (\<lambda>r. r_id r = c_reservation call \<and> r_attempt r = c_attempt call \<and> r_state r = Sent
                      \<and> r_ordering r = 1 \<and> r_phase r = MarkedSent)
                   (\<lambda>r. r\<lparr>r_phase := NetworkInvocationStarting\<rparr>) (PermissionErr ''budget_proof_pair_mismatch'')
                   (reservations db)) (\<lambda>rows.
          bindE (update_one call_check
                   (\<lambda>c. c_id c = cid \<and> c_outcome c = Started \<and> c_ordering c = 1 \<and> c_phase c = MarkedSent)
                   (\<lambda>c. c\<lparr>c_phase := NetworkInvocationStarting\<rparr>) (PermissionErr ''provider_call_phase_race'')
                   (calls db)) (\<lambda>cs.
            Inr ((), db\<lparr>reservations := rows, calls := cs\<rparr>))))"

definition mark_network_invocation_starting :: "uuid \<Rightarrow> core_db \<Rightarrow> (budget_error + unit) \<times> core_db" where
  "mark_network_invocation_starting cid db = run_uow (advance_locked cid) db"

definition finish_pair ::
    "uuid \<Rightarrow> call_outcome \<Rightarrow> route_authorization \<Rightarrow> (usage_receipt \<times> string) option \<Rightarrow> instant \<Rightarrow> core_db
     \<Rightarrow> budget_error + (unit \<times> core_db)" where
  "finish_pair cid outcome rt receipt now db =
     (case find (\<lambda>c. c_id c = cid \<and> c_ordering c = 1) (calls db) of
        None \<Rightarrow> Inl (PermissionErr ''provider_call_not_finishable'')
      | Some call \<Rightarrow>
        (let columns = (case receipt of None \<Rightarrow> (None, None, None)
                        | Some (u, canonical) \<Rightarrow> (Some canonical, Some (u_key_id u), Some (u_hmac u)));
             reservation = find (\<lambda>r. r_id r = c_reservation call \<and> r_attempt r = c_attempt call) (reservations db) in
         if \<not> (rt_reservation rt = c_reservation call \<and> rt_request rt = c_request call \<and> rt_attempt rt = c_attempt call
                \<and> rt_authorization rt = c_authorization call \<and> rt_provider rt = c_provider call
                \<and> rt_model rt = c_model call \<and> purpose_category (rt_purpose rt) = c_category call)
         then Inl (PermissionErr ''provider_finish_route_binding_mismatch'')
         else if (case receipt of None \<Rightarrow> False | Some (u, _) \<Rightarrow> \<not> receipt_bound u call)
         then Inl (PermissionErr ''provider_usage_receipt_binding_mismatch'')
         else if c_outcome call \<noteq> Started
         then (if c_outcome call = outcome \<and> c_phase call = Finished \<and> c_finished_at call \<noteq> None
                  \<and> c_receipt call = columns
                  \<and> (case reservation of None \<Rightarrow> False
                     | Some r \<Rightarrow> r_state r \<in> {Sent, Settled} \<and> r_phase r = Finished)
               then Inr ((), db) else Inl (PermissionErr ''provider_call_finish_conflict''))
         else if c_phase call = ClaimBegun then Inl (PermissionErr ''provider_call_unsent_requires_release'')
         else if c_phase call \<notin> {MarkedSent, NetworkInvocationStarting}
         then Inl (PermissionErr ''provider_call_not_finishable'')
         else if \<not> no_receipt (c_receipt call) then Inl (PermissionErr ''provider_usage_receipt_preexisting'')
         else
           bindE (update_one call_check
                    (\<lambda>c. c_id c = cid \<and> c_outcome c = Started \<and> c_ordering c = 1 \<and> c_phase c = c_phase call)
                    (\<lambda>c. c\<lparr>c_outcome := outcome, c_phase := Finished, c_finished_at := Some now, c_receipt := columns\<rparr>)
                    (PermissionErr ''provider_call_finish_race'') (calls db)) (\<lambda>cs.
           bindE (update_one reservation_check
                    (\<lambda>r. r_id r = c_reservation call \<and> r_attempt r = c_attempt call \<and> r_state r = Sent
                       \<and> r_ordering r = 1 \<and> r_phase r = c_phase call)
                    (\<lambda>r. r\<lparr>r_phase := Finished\<rparr>) (PermissionErr ''provider_reservation_finish_race'')
                    (reservations db)) (\<lambda>rows.
             Inr ((), db\<lparr>reservations := rows, calls := cs\<rparr>)))))"

definition finish_call ::
    "guard_cfg \<Rightarrow> uuid \<Rightarrow> call_outcome \<Rightarrow> route_authorization \<Rightarrow> usage_receipt option \<Rightarrow> instant \<Rightarrow> core_db
     \<Rightarrow> (budget_error + unit) \<times> core_db" where
  "finish_call cfg cid outcome rt receipt now db =
     (if outcome = Started then (Inl (ValueErr ''invalid provider call outcome''), db)
      else case receipt of
             None \<Rightarrow> run_uow (finish_pair cid outcome rt None now) db
           | Some u \<Rightarrow>
             if outcome \<noteq> Succeeded then (Inl (PermissionErr ''provider_usage_receipt_outcome_mismatch''), db)
             else (case require_attested_receipt (g_evidence cfg) u of
                     Inl e \<Rightarrow> (Inl e, db)
                   | Inr canonical \<Rightarrow> run_uow (finish_pair cid outcome rt (Some (u, canonical)) now) db))"


record accounting_context =
  ac_category :: usage_category
  ac_usage :: usage_units
  ac_basis :: accounting_basis
  ac_policy :: evidence_policy

definition require_accounting_context ::
    "guard_cfg \<Rightarrow> route_authorization \<Rightarrow> route_consumption \<Rightarrow> core_db \<Rightarrow> budget_error + accounting_context" where
  "require_accounting_context cfg rt cs db =
     (case find (\<lambda>r. r_id r = rt_reservation rt) (reservations db) of
        None \<Rightarrow> Inl (PermissionErr ''budget_accounting_context_missing'')
      | Some r \<Rightarrow>
        if \<not> (r_request r = rt_request rt \<and> r_attempt r = rt_attempt rt \<and> r_provider r = rt_provider rt
               \<and> r_model r = rt_model rt \<and> r_category r = purpose_category (rt_purpose rt) \<and> r_state r = Sent
               \<and> r_phase r = MarkedSent \<and> cs_request cs = rt_request rt \<and> cs_attempt cs = rt_attempt rt
               \<and> cs_provider cs = rt_provider rt \<and> cs_model cs = rt_model rt \<and> cs_purpose cs = rt_purpose rt)
        then Inl (PermissionErr ''budget_accounting_context_binding_mismatch'')
        else
          bindE (require_pricing_snapshot (g_evidence cfg) r) (\<lambda>quo.
          case parse_usage (g_evidence cfg) (r_usage_json r) of
            None \<Rightarrow> Inl (ValueErr ''usage ceiling JSON invalid'')
          | Some u \<Rightarrow>
            if (case u of TtsUsageUnits n \<Rightarrow> cs_input_units cs \<noteq> n \<or> rt_max_input_units rt \<noteq> n | _ \<Rightarrow> False)
            then Inl (PermissionErr ''tts_request_character_binding_mismatch'')
            else if usage_category_of u \<noteq> r_category r \<or> usage_total u \<le> 0 \<or> \<not> one_search_call u
            then Inl (ValueErr ''budget_accounting_context_usage_invalid'')
            else Inr \<lparr>ac_category = r_category r, ac_usage = u, ac_basis = q_basis quo, ac_policy = q_policy quo\<rparr>))"

subsection \<open>Settling\<close>

definition record_freeze ::
    "string \<Rightarrow> string \<Rightarrow> int option \<Rightarrow> int \<Rightarrow> uuid \<Rightarrow> core_db \<Rightarrow> budget_error + core_db" where
  "record_freeze month reason tot hard rid db =
     (let payload = FreezeValue \<lparr>fz_reason = reason, fz_month = month, fz_total = tot, fz_hard_limit = hard,
                                  fz_reservation = rid\<rparr>;
          db1 = insert_setting_or_keep (FreezeKey month) payload db in
      case map_of (settings db1) (AlertKey month rid) of
        None \<Rightarrow> Inr (insert_setting_or_keep (AlertKey month rid) payload db1)
      | Some existing \<Rightarrow>
          if existing = payload then Inr db1 else Inl (PermissionErr ''budget_owner_alert_insert_failed''))"

definition freeze_evidence_quarantine ::
    "guard_cfg \<Rightarrow> uuid \<Rightarrow> uuid \<Rightarrow> string \<Rightarrow> core_db \<Rightarrow> (budget_error + unit) \<times> core_db" where
  "freeze_evidence_quarantine cfg rid aid reason db =
     run_uow (\<lambda>db. case find (\<lambda>r. r_id r = rid \<and> r_attempt r = aid) (reservations db) of
         None \<Rightarrow> Inr ((), db)
       | Some r \<Rightarrow> bindE (record_freeze (r_month r) reason None (g_hard_limit cfg) rid db) (\<lambda>db'. Inr ((), db'))) db"

abbreviation transport_quarantined :: budget_error where
  "transport_quarantined \<equiv> PermissionErr ''budget_transport_proof_quarantined''"

text \<open>
  The first half of \<^verbatim>\<open>_settle_locked\<close>: from the persisted pair, the provider calls after a still open call
  is closed, the usage receipt if there is one, and whether the charge must be conservative.
\<close>

definition settle_evidence ::
    "guard_cfg \<Rightarrow> reservation_row \<Rightarrow> instant \<Rightarrow> core_db \<Rightarrow> budget_error + (call_row list \<times> usage_receipt option \<times> bool)" where
  "settle_evidence cfg res now db =
     (let cs = filter (\<lambda>c. c_reservation c = r_id res \<and> c_attempt c = r_attempt res) (calls db) in
      if r_ordering res \<noteq> 1 \<or> length cs > 1 then Inl transport_quarantined
      else case cs of
        [] \<Rightarrow> if r_state res = Reserved \<and> r_phase res = NotClaimed
              then Inl (PermissionErr ''proven_unsent_requires_release'') else Inl transport_quarantined
      | call # _ \<Rightarrow>
        if c_ordering call \<noteq> 1 then Inl transport_quarantined
        else if c_outcome call = Started
        then if r_state res = Reserved \<and> r_phase res = ClaimBegun \<and> c_phase call = ClaimBegun
                \<and> no_receipt (c_receipt call)
             then Inl (PermissionErr ''proven_unsent_requires_release'')
             else if r_state res \<noteq> Sent \<or> c_phase call \<noteq> r_phase res
                \<or> c_phase call \<notin> {MarkedSent, NetworkInvocationStarting} \<or> \<not> no_receipt (c_receipt call)
             then Inl transport_quarantined
             else bindE (update_one call_check
                          (\<lambda>c. c_id c = c_id call \<and> c_outcome c = Started \<and> c_ordering c = 1 \<and> c_phase c = c_phase call)
                          (\<lambda>c. c\<lparr>c_outcome := Ambiguous, c_phase := Finished, c_finished_at := Some now\<rparr>)
                          transport_quarantined (calls db)) (\<lambda>cs'. Inr (cs', None, True))
        else if c_phase call \<noteq> Finished \<or> c_finished_at call = None \<or> r_phase res \<noteq> Finished
        then Inl transport_quarantined
        else if \<not> no_receipt (c_receipt call) \<and> \<not> receipt_present (c_receipt call)
        then Inl (BudgetEvidenceQuarantined ''provider_usage_partial_unknown_overage'')
        else if c_outcome call \<noteq> Succeeded
        then if \<not> no_receipt (c_receipt call) then Inl transport_quarantined else Inr (calls db, None, True)
        else if receipt_present (c_receipt call)
        then bindE (require_provider_usage_receipt (g_evidence cfg) call res now) (\<lambda>u. Inr (calls db, Some u, False))
        else Inl (BudgetEvidenceQuarantined ''provider_usage_missing_unknown_overage''))"

definition settle_charge ::
    "price_quote \<Rightarrow> int \<Rightarrow> usage_receipt option \<Rightarrow> bool \<Rightarrow> budget_error + (int \<times> bool)" where
  "settle_charge snapshot reserved receipt force =
     (let full = (case receipt of None \<Rightarrow> False | Some u \<Rightarrow> u_basis u = ConservativeFullReservation) in
      bindE (case receipt of None \<Rightarrow> Inr None
             | Some u \<Rightarrow> if full then Inr (Some reserved)
                 else bindE (lift_py (amount_from_snapshot snapshot (u_billable u))) (\<lambda>a. Inr (Some a))) (\<lambda>actual.
      let conservative = force \<or> actual = None \<or> full;
          charged = (if conservative then max reserved (case actual of None \<Rightarrow> 0 | Some a \<Rightarrow> a) else the actual) in
      if 0 \<le> charged \<and> charged \<le> MAX_CHARGE_MICROS_SGD then Inr (charged, conservative)
      else Inl (BudgetEvidenceQuarantined ''provider_usage_out_of_range_unknown_overage'')))"

definition settlement_ledger_row ::
    "guard_cfg \<Rightarrow> uuid \<Rightarrow> reservation_row \<Rightarrow> price_columns \<Rightarrow> usage_receipt option \<Rightarrow> int \<Rightarrow> bool \<Rightarrow> int \<Rightarrow> instant
     \<Rightarrow> ledger_row" where
  "settlement_ledger_row cfg lid res p receipt charged conservative monthly_after now =
     \<lparr>l_id = lid, l_reservation = r_id res, l_month = r_month res, l_reserved = r_reserved res, l_charged = charged,
      l_usage_json = (case receipt of None \<Rightarrow> ''null'' | Some u \<Rightarrow> canon_usage (g_evidence cfg) (u_billable u)),
      l_receipt = (case receipt of None \<Rightarrow> (None, None, None)
        | Some u \<Rightarrow> (Some (canon_receipt (g_evidence cfg) u), Some (u_key_id u), Some (u_hmac u))),
      l_basis = map_option u_basis receipt, l_primary_basis = p_basis p, l_policy = p_policy p,
      l_conservative = conservative, l_overrun = (charged > r_reserved res),
      l_hard_cap_exceeded = (monthly_after > g_hard_limit cfg), l_version = p_version p,
      l_source_sha256 = p_source_sha256 p, l_fx_version = p_fx_version p, l_fx_source_sha256 = p_fx_source_sha256 p,
      l_settled_at = now\<rparr>"

definition settled_row :: "int \<Rightarrow> instant \<Rightarrow> reservation_row \<Rightarrow> reservation_row" where
  "settled_row charged now r = r\<lparr>r_state := Settled, r_phase := Finished, r_charged := Some charged,
     r_overrun := (charged > r_reserved r), r_settled_at := Some now, r_reconciled_at := Some now\<rparr>"

definition freeze_reason :: "bool \<Rightarrow> bool \<Rightarrow> string option" where
  "freeze_reason hard_cap_exceeded overrun =
     (if hard_cap_exceeded then Some ''hard_cap_actual_exceeded'' else if overrun then Some ''estimate_overrun'' else None)"

definition write_settlement ::
    "guard_cfg \<Rightarrow> uuid \<Rightarrow> reservation_row \<Rightarrow> call_row list \<Rightarrow> usage_receipt option \<Rightarrow> int \<Rightarrow> bool \<Rightarrow> int \<Rightarrow> instant
     \<Rightarrow> core_db \<Rightarrow> budget_error + (budget_settlement \<times> core_db)" where
  "write_settlement cfg lid res cs receipt charged conservative monthly_after now db =
     (let reason = freeze_reason (monthly_after > g_hard_limit cfg) (charged > r_reserved res) in
      bindE (update_one reservation_check
               (\<lambda>r. r_id r = r_id res \<and> r_attempt r = r_attempt res \<and> r_state r \<in> open_states)
               (settled_row charged now) ReservationNotSettleable (reservations db)) (\<lambda>rows.
      case r_price res of None \<Rightarrow> Inl IntegrityErr
      | Some p \<Rightarrow>
        let l = settlement_ledger_row cfg lid res p receipt charged conservative monthly_after now in
        bindE (require (list_ex (ledger_parent l) rows) IntegrityErr) (\<lambda>_.
        bindE (sql_insert ledger_check ledger_conflict l (ledger db)) (\<lambda>ls.
        let db1 = db\<lparr>reservations := rows, calls := cs, ledger := ls\<rparr> in
        bindE (case reason of None \<Rightarrow> Inr db1
               | Some why \<Rightarrow> record_freeze (r_month res) why (Some monthly_after) (g_hard_limit cfg) (r_id res) db1) (\<lambda>db2.
          Inr (\<lparr>s_reservation = r_id res, s_charged = charged, s_conservative = conservative,
                s_overrun = (charged > r_reserved res), s_frozen = (reason \<noteq> None)\<rparr>, db2))))))"

definition settle_locked ::
    "guard_cfg \<Rightarrow> uuid \<Rightarrow> uuid \<Rightarrow> uuid \<Rightarrow> instant \<Rightarrow> core_db \<Rightarrow> budget_error + (budget_settlement \<times> core_db)" where
  "settle_locked cfg lid rid aid now db =
     (case find (\<lambda>r. r_id r = rid \<and> r_attempt r = aid) (reservations db) of
        None \<Rightarrow> Inl ReservationNotSettleable
      | Some res \<Rightarrow>
        if r_state res \<notin> open_states \<or> r_outcome res \<notin> allowing then Inl ReservationNotSettleable
        else
          bindE (require_pricing_snapshot (g_evidence cfg) res) (\<lambda>snapshot.
          bindE (settle_evidence cfg res now db) (\<lambda>(cs, receipt, force).
          bindE (settle_charge snapshot (r_reserved res) receipt force) (\<lambda>(charged, conservative).
          bindE (require (charged \<le> MAX_AGGREGATE_MICROS_SGD) (OverflowErr ''budget_arithmetic_out_of_bounds'')) (\<lambda>_.
          bindE (total_amounts (BudgetEvidenceQuarantined ''budget_total_missing_unknown_overage'') charged
                   (filter (\<lambda>r. r_id r \<noteq> rid) (month_rows (r_month res) db))) (\<lambda>monthly_after.
            write_settlement cfg lid res cs receipt charged conservative monthly_after now db))))))"

definition settle ::
    "guard_cfg \<Rightarrow> uuid \<Rightarrow> uuid \<Rightarrow> uuid \<Rightarrow> instant \<Rightarrow> core_db \<Rightarrow> (budget_error + budget_settlement) \<times> core_db" where
  "settle cfg lid rid aid now db =
     (case run_uow (settle_locked cfg lid rid aid now) db of
        (Inl (BudgetEvidenceQuarantined reason), db') \<Rightarrow>
          (case freeze_evidence_quarantine cfg rid aid reason db' of
             (Inl e, db'') \<Rightarrow> (Inl e, db'') | (Inr _, db'') \<Rightarrow> (Inl (PermissionErr reason), db''))
      | (Inl (OverflowErr _), db') \<Rightarrow>
          (case freeze_evidence_quarantine cfg rid aid ''budget_total_invalid_unknown_overage'' db' of
             (Inl e, db'') \<Rightarrow> (Inl e, db'')
           | (Inr _, db'') \<Rightarrow> (Inl (PermissionErr ''budget_total_invalid_unknown_overage''), db''))
      | r \<Rightarrow> r)"

subsection \<open>Releasing\<close>

definition proven_unsent :: "reservation_row \<Rightarrow> call_row list \<Rightarrow> bool" where
  "proven_unsent r cs \<longleftrightarrow>
     r_state r = Reserved
     \<and> (r_phase r = NotClaimed \<and> cs = []
        \<or> r_phase r = ClaimBegun
          \<and> (case cs of [c] \<Rightarrow> c_ordering c = 1 \<and> c_phase c = ClaimBegun \<and> c_outcome c = Started
                \<and> no_receipt (c_receipt c) | _ \<Rightarrow> False))"

definition release_unsent_locked :: "uuid \<Rightarrow> uuid \<Rightarrow> instant \<Rightarrow> core_db \<Rightarrow> budget_error + (unit \<times> core_db)" where
  "release_unsent_locked rid aid now db =
     (let cs = filter (\<lambda>c. c_reservation c = rid \<and> c_attempt c = aid) (calls db) in
      case find (\<lambda>r. r_id r = rid \<and> r_attempt r = aid) (reservations db) of
        None \<Rightarrow> Inl SentReservationRequiresSettlement
      | Some res \<Rightarrow>
        if \<not> (r_ordering res = 1 \<and> r_outcome res \<in> allowing \<and> proven_unsent res cs)
        then Inl SentReservationRequiresSettlement
        else
          bindE (case cs of [] \<Rightarrow> Inr (calls db)
                 | c # _ \<Rightarrow> update_one call_check
                     (\<lambda>x. c_id x = c_id c \<and> c_outcome x = Started \<and> c_ordering x = 1 \<and> c_phase x = ClaimBegun)
                     (\<lambda>x. x\<lparr>c_outcome := Cancelled, c_phase := Finished, c_finished_at := Some now\<rparr>)
                     SentReservationRequiresSettlement (calls db)) (\<lambda>cs'.
          bindE (update_one reservation_check
                   (\<lambda>r. r_id r = rid \<and> r_attempt r = aid \<and> r_state r = Reserved \<and> r_ordering r = 1
                      \<and> r_phase r = r_phase res)
                   (\<lambda>r. r\<lparr>r_state := Released, r_phase := Finished, r_reconciled_at := Some now\<rparr>)
                   SentReservationRequiresSettlement (reservations db)) (\<lambda>rows.
            Inr ((), db\<lparr>reservations := rows, calls := cs'\<rparr>))))"

datatype disposition = NeverSent | ProofSent | ProofUnknown

record transport_proof =
  tp_reservation :: uuid
  tp_attempt :: uuid
  tp_disposition :: disposition

definition release_proven_unsent :: "uuid \<Rightarrow> uuid \<Rightarrow> instant \<Rightarrow> core_db \<Rightarrow> (budget_error + unit) \<times> core_db" where
  "release_proven_unsent rid aid now db = run_uow (release_unsent_locked rid aid now) db"

definition release_unsent ::
    "uuid \<Rightarrow> uuid \<Rightarrow> transport_proof \<Rightarrow> instant \<Rightarrow> core_db \<Rightarrow> (budget_error + unit) \<times> core_db" where
  "release_unsent rid aid proof now db =
     (if tp_reservation proof \<noteq> rid \<or> tp_attempt proof \<noteq> aid \<or> tp_disposition proof \<noteq> NeverSent
      then (Inl (PermissionErr ''proof_does_not_establish_unsent''), db)
      else release_proven_unsent rid aid now db)"

definition reservation_is_terminal :: "uuid \<Rightarrow> uuid \<Rightarrow> core_db \<Rightarrow> bool" where
  "reservation_is_terminal rid aid db =
     (case find (\<lambda>r. r_id r = rid \<and> r_attempt r = aid) (reservations db) of
        None \<Rightarrow> False | Some r \<Rightarrow> r_state r \<in> terminal_states)"

subsection \<open>Reconciling a turn\<close>

fun load_bound ::
    "uuid \<Rightarrow> core_db \<Rightarrow> (setting_key \<times> setting_value) list
     \<Rightarrow> budget_error + (uuid \<times> uuid \<times> reservation_state) list" where
  "load_bound turn db [] = Inr []"
| "load_bound turn db ((TurnKey rid, TurnValue b) # rest) =
     (if tb_turn b \<noteq> turn then load_bound turn db rest
      else case find (\<lambda>r. r_id r = rid) (reservations db) of
             None \<Rightarrow> Inl (PermissionErr ''reservation_turn_binding_corrupt'')
           | Some r \<Rightarrow>
             if r_request r \<noteq> tb_request b \<or> r_attempt r \<noteq> tb_attempt b
             then Inl (PermissionErr ''reservation_turn_binding_corrupt'')
             else bindE (load_bound turn db rest) (\<lambda>bs. Inr ((rid, r_attempt r, r_state r) # bs)))"
| "load_bound turn db (_ # rest) = load_bound turn db rest"

fun reconcile_turn_loop ::
    "guard_cfg \<Rightarrow> (uuid \<Rightarrow> uuid) \<Rightarrow> instant \<Rightarrow> (uuid \<times> uuid \<times> reservation_state) list \<Rightarrow> core_db
     \<Rightarrow> (budget_error + budget_settlement list) \<times> core_db" where
  "reconcile_turn_loop cfg fresh now [] db = (Inr [], db)"
| "reconcile_turn_loop cfg fresh now ((rid, aid, state) # rest) db =
     (if state \<in> terminal_states then reconcile_turn_loop cfg fresh now rest db
      else case release_proven_unsent rid aid now db of
        (Inr _, db1) \<Rightarrow> reconcile_turn_loop cfg fresh now rest db1
      | (Inl e, db1) \<Rightarrow>
        if e \<noteq> SentReservationRequiresSettlement then (Inl e, db1)
        else if reservation_is_terminal rid aid db1 then reconcile_turn_loop cfg fresh now rest db1
        else (case settle cfg (fresh rid) rid aid now db1 of
            (Inr s, db2) \<Rightarrow>
              (case reconcile_turn_loop cfg fresh now rest db2 of
                 (Inr ss, db3) \<Rightarrow> (Inr (s # ss), db3) | (Inl e, db3) \<Rightarrow> (Inl e, db3))
          | (Inl e, db2) \<Rightarrow>
              if e = ReservationNotSettleable \<and> reservation_is_terminal rid aid db2
              then reconcile_turn_loop cfg fresh now rest db2 else (Inl e, db2)))"

definition reconcile_turn ::
    "guard_cfg \<Rightarrow> (uuid \<Rightarrow> uuid) \<Rightarrow> uuid \<Rightarrow> transport_proof list \<Rightarrow> instant \<Rightarrow> core_db
     \<Rightarrow> (budget_error + budget_settlement list) \<times> core_db" where
  "reconcile_turn cfg fresh turn proofs now db =
     (let keys = map (\<lambda>p. (tp_reservation p, tp_attempt p)) proofs in
      if \<not> distinct keys then (Inl (PermissionErr ''duplicate_turn_reconciliation_proof''), db)
      else case load_bound turn db (settings db) of
        Inl e \<Rightarrow> (Inl e, db)
      | Inr bound \<Rightarrow>
        if \<not> set keys \<subseteq> set (map (\<lambda>(rid, aid, _). (rid, aid)) bound)
        then (Inl (PermissionErr ''reservation_turn_mismatch''), db)
        else reconcile_turn_loop cfg fresh now bound db)"


subsection \<open>Reconciling expired reservations\<close>

datatype batch_error = Plain budget_error | ReconciliationEvidenceQuarantined uuid uuid string

definition as_batch :: "uuid \<Rightarrow> uuid \<Rightarrow> budget_error + 'a \<Rightarrow> batch_error + 'a" where
  "as_batch rid aid r =
     (case r of Inr x \<Rightarrow> Inr x
      | Inl (BudgetEvidenceQuarantined reason) \<Rightarrow> Inl (ReconciliationEvidenceQuarantined rid aid reason)
      | Inl (OverflowErr _) \<Rightarrow> Inl (ReconciliationEvidenceQuarantined rid aid ''budget_total_invalid_unknown_overage'')
      | Inl e \<Rightarrow> Inl (Plain e))"

definition reconcile_row ::
    "guard_cfg \<Rightarrow> (uuid \<Rightarrow> uuid) \<Rightarrow> instant \<Rightarrow> reservation_row \<Rightarrow> core_db \<Rightarrow> batch_error + core_db" where
  "reconcile_row cfg fresh now r db =
     (let cs = filter (\<lambda>c. c_reservation c = r_id r \<and> c_attempt c = r_attempt r) (calls db) in
      if r_outcome r \<notin> allowing \<or> r_ordering r \<noteq> 1 \<or> length cs > 1 then Inl (Plain transport_quarantined)
      else if proven_unsent r cs
      then (case release_unsent_locked (r_id r) (r_attempt r) now db of
              Inl e \<Rightarrow> Inl (Plain e) | Inr (_, db') \<Rightarrow> Inr db')
      else bindE (as_batch (r_id r) (r_attempt r) (settle_locked cfg (fresh (r_id r)) (r_id r) (r_attempt r) now db))
             (\<lambda>(_, db'). Inr db'))"

fun reconcile_rows ::
    "guard_cfg \<Rightarrow> (uuid \<Rightarrow> uuid) \<Rightarrow> instant \<Rightarrow> reservation_row list \<Rightarrow> core_db \<Rightarrow> batch_error + core_db" where
  "reconcile_rows cfg fresh now [] db = Inr db"
| "reconcile_rows cfg fresh now (r # rs) db =
     bindE (reconcile_row cfg fresh now r db) (\<lambda>db'. reconcile_rows cfg fresh now rs db')"

definition batch_rows :: "nat \<Rightarrow> instant \<Rightarrow> instant option \<Rightarrow> core_db \<Rightarrow> reservation_row list" where
  "batch_rows batch_size now cutoff db =
     (let boundary = (case cutoff of None \<Rightarrow> r_expires_at | Some _ \<Rightarrow> r_created_at);
          limit = (case cutoff of None \<Rightarrow> now | Some t \<Rightarrow> t) in
      take batch_size (sort_key (\<lambda>r. (boundary r, r_id r))
        (filter (\<lambda>r. r_state r \<in> open_states \<and> boundary r \<le> limit) (reservations db))))"

definition reconcile_batch ::
    "guard_cfg \<Rightarrow> (uuid \<Rightarrow> uuid) \<Rightarrow> nat \<Rightarrow> instant \<Rightarrow> instant option \<Rightarrow> core_db \<Rightarrow> (budget_error + nat) \<times> core_db" where
  "reconcile_batch cfg fresh batch_size now cutoff db =
     (let rows = batch_rows batch_size now cutoff db in
      case reconcile_rows cfg fresh now rows db of
        Inr db' \<Rightarrow> (Inr (length rows), db')
      | Inl (Plain e) \<Rightarrow> (Inl e, db)
      | Inl (ReconciliationEvidenceQuarantined rid aid reason) \<Rightarrow>
          (case freeze_evidence_quarantine cfg rid aid reason db of
             (Inl e, db') \<Rightarrow> (Inl e, db') | (Inr _, db') \<Rightarrow> (Inl (RuntimeErr reason), db')))"

fun drain_before_ready ::
    "nat \<Rightarrow> guard_cfg \<Rightarrow> (uuid \<Rightarrow> uuid) \<Rightarrow> nat \<Rightarrow> instant \<Rightarrow> instant option \<Rightarrow> core_db
     \<Rightarrow> ((budget_error + unit) \<times> core_db) option" where
  "drain_before_ready 0 cfg fresh batch_size now cutoff db = None"
| "drain_before_ready (Suc fuel) cfg fresh batch_size now cutoff db =
     (case reconcile_batch cfg fresh batch_size now cutoff db of
        (Inl e, db') \<Rightarrow> Some (Inl e, db')
      | (Inr n, db') \<Rightarrow> if n = batch_size then drain_before_ready fuel cfg fresh batch_size now cutoff db'
                       else Some (Inr (), db'))"

subsection \<open>Revoking a subject\<close>

definition settle_budget_reservation ::
    "uuid \<Rightarrow> instant \<Rightarrow> reservation_row list \<Rightarrow> budget_error + (nat \<times> reservation_row list)" where
  "settle_budget_reservation rid now rows =
     sql_update reservation_check (\<lambda>r. r_id r = rid \<and> r_state r \<in> open_states)
       (\<lambda>r. r\<lparr>r_state := Settled, r_phase := Finished, r_charged := Some (r_reserved r), r_settled_at := Some now\<rparr>) rows"

definition require_conservative_settlement :: "uuid \<Rightarrow> instant \<Rightarrow> core_db \<Rightarrow> budget_error + core_db" where
  "require_conservative_settlement rid now db =
     bindE (settle_budget_reservation rid now (reservations db)) (\<lambda>(n, rows).
       if n = 1 then Inr (db\<lparr>reservations := rows\<rparr>)
       else case find (\<lambda>r. r_id r = rid) rows of
              None \<Rightarrow> Inl (RuntimeErr ''provider_budget_reservation_settlement_unproven'')
            | Some r \<Rightarrow>
              if r_state r = Settled \<and> r_phase r = Finished \<and> r_settled_at r \<noteq> None \<and> r_charged r = Some (r_reserved r)
              then Inr (db\<lparr>reservations := rows\<rparr>)
              else Inl (RuntimeErr ''provider_budget_reservation_settlement_unproven''))"

abbreviation metadata_corrupt :: budget_error where
  "metadata_corrupt \<equiv> RuntimeErr ''provider_route_authority_metadata_corrupt''"

fun close_revoked ::
    "uuid \<Rightarrow> instant \<Rightarrow> call_row list \<Rightarrow> uuid list \<Rightarrow> core_db \<Rightarrow> budget_error + (uuid list \<times> core_db)" where
  "close_revoked subject now [] started db = Inr (started, db)"
| "close_revoked subject now (c # rest) started db =
     (case map_of (settings db) (RouteKey (c_authorization c)) of
        Some (RouteValue env) \<Rightarrow>
          if env_authorization env \<noteq> c_authorization c then Inl metadata_corrupt
          else if env_subject env \<noteq> Some subject then close_revoked subject now rest started db
          else if c_phase c \<notin> {ClaimBegun, MarkedSent, NetworkInvocationStarting}
          then Inl (RuntimeErr ''provider_call_transport_phase_unknown'')
          else
            bindE (sql_update call_check
                     (\<lambda>x. c_id x = c_id c \<and> c_outcome x = Started \<and> c_phase x = c_phase c)
                     (\<lambda>x. x\<lparr>c_outcome := (if c_phase c = ClaimBegun then Cancelled else Ambiguous),
                           c_phase := Finished, c_finished_at := Some now\<rparr>) (calls db)) (\<lambda>(_, cs).
              close_revoked subject now rest
                (if c_phase c = ClaimBegun then started else started @ [c_reservation c]) (db\<lparr>calls := cs\<rparr>))
      | _ \<Rightarrow> Inl metadata_corrupt)"

fun settle_revoked :: "instant \<Rightarrow> uuid list \<Rightarrow> core_db \<Rightarrow> budget_error + core_db" where
  "settle_revoked now [] db = Inr db"
| "settle_revoked now (rid # rest) db =
     bindE (require_conservative_settlement rid now db) (\<lambda>db'. settle_revoked now rest db')"

definition revoke_subject_locked :: "uuid \<Rightarrow> instant \<Rightarrow> core_db \<Rightarrow> budget_error + (uuid list \<times> core_db)" where
  "revoke_subject_locked subject now db =
     bindE (close_revoked subject now (filter (\<lambda>c. c_outcome c = Started) (calls db)) [] db) (\<lambda>(rids, db1).
     bindE (settle_revoked now rids db1) (\<lambda>db2. Inr (rids, db2)))"

definition reconcile_revoked_subject :: "uuid \<Rightarrow> instant \<Rightarrow> core_db \<Rightarrow> (budget_error + uuid list) \<times> core_db" where
  "reconcile_revoked_subject subject now db = run_uow (revoke_subject_locked subject now) db"

end
