(* ===== verification/Budget_Invariant.thy ===== *)
theory Budget_Invariant
  imports Budget_Guard
begin

text \<open>
  The invariant of the budget tables. \<open>store_ok\<close> is the table level: keys are unique, rows satisfy their
  checks, every call has its reservation, and a reservation and its call are in matching transport
  phases (\<open>pair_ok\<close>). \<open>cap_ok\<close> is the budget itself: the month's exposure is within the hard limit or the
  month is frozen. \<open>ledger_ok\<close> ties the cost ledger to settled reservations.
\<close>

subsection \<open>Statements on one row\<close>

lemma update_one_Inr:
  assumes "update_one chk P f err rows = Inr rows'"
  shows "rows' = map (\<lambda>r. if P r then f r else r) rows"
    "\<exists>r \<in> set rows. P r \<and> chk (f r) \<and> filter P rows = [r]"
proof -
  from assms show "rows' = map (\<lambda>r. if P r then f r else r) rows"
    by (auto simp: update_one_def sql_update_def bindE_eq_Inr split: if_splits)
  from assms have "length (filter P rows) = Suc 0" "list_all (\<lambda>r. P r \<longrightarrow> chk (f r)) rows"
    by (auto simp: update_one_def sql_update_def bindE_eq_Inr split: if_splits)
  then obtain r where "filter P rows = [r]" by (auto simp: length_Suc_conv)
  moreover then have "r \<in> set rows" "P r" by (metis (no_types, lifting) filter_eq_ConsD in_set_conv_decomp)+
  ultimately show "\<exists>r \<in> set rows. P r \<and> chk (f r) \<and> filter P rows = [r]"
    using \<open>list_all _ rows\<close> by (auto simp: list_all_iff)
qed

lemma filter_singleton_iff:
  assumes "filter P xs = [r]" "x \<in> set xs" shows "P x \<longleftrightarrow> x = r"
proof
  assume "P x"
  then have "x \<in> set (filter P xs)" using assms(2) by simp
  then show "x = r" using assms(1) by simp
next
  assume "x = r"
  then have "x \<in> set (filter P xs)" using assms(1) by simp
  then show "P x" by simp
qed

lemma sql_insert_Inr:
  "sql_insert chk conflict r rows = Inr rows' \<longleftrightarrow>
     rows' = rows @ [r] \<and> chk r \<and> (\<forall>x \<in> set rows. \<not> conflict x r)"
  by (auto simp: sql_insert_def list_all_iff)

lemma find_map_if:
  assumes "\<And>x. P x \<Longrightarrow> Q (f x) = Q x"
  shows "find Q (map (\<lambda>x. if P x then f x else x) xs) = map_option (\<lambda>x. if P x then f x else x) (find Q xs)"
  using assms by (induction xs) auto

lemma distinct_set_singleton:
  assumes "distinct ys" "set ys = {x}" shows "ys = [x]"
proof (cases ys)
  case (Cons y zs)
  then have "y = x" using assms(2) by auto
  moreover have "zs = []" using assms Cons \<open>y = x\<close> by (cases zs) auto
  ultimately show ?thesis using Cons by simp
qed (use assms in simp)

lemma filter_distinct:
  assumes "distinct (map key xs)" "x \<in> set xs" "Q x" and same: "\<And>y. Q y \<Longrightarrow> key y = key x"
  shows "filter Q xs = [x]"
proof -
  have inj: "inj_on key (set xs)" "distinct xs" using assms(1) by (simp_all add: distinct_map)
  have "y = x" if "y \<in> set xs" "Q y" for y
    using inj_onD [OF inj(1) same [OF that(2)] that(1) assms(2)] .
  then have "set (filter Q xs) = {x}" using assms(2,3) unfolding set_filter by blast
  moreover have "distinct (filter Q xs)" using inj(2) by simp
  ultimately show ?thesis by (intro distinct_set_singleton)
qed

lemma find_filter: "find Q xs = (case filter Q xs of [] \<Rightarrow> None | y # _ \<Rightarrow> Some y)"
  by (induction xs) simp_all

lemma find_distinct:
  assumes "distinct (map key xs)" "x \<in> set xs" "Q x" "\<And>y. Q y \<Longrightarrow> key y = key x"
  shows "find Q xs = Some x"
  using filter_distinct [where Q = Q, OF assms] by (simp add: find_filter)

lemma find_SomeD: "find P xs = Some x \<Longrightarrow> x \<in> set xs \<and> P x"
  by (metis find_Some_iff nth_mem)

subsection \<open>The table invariant\<close>

definition call_of :: "uuid \<Rightarrow> core_db \<Rightarrow> call_row option" where
  "call_of rid db = find (\<lambda>c. c_reservation c = rid) (calls db)"

definition closed_call :: "call_row \<Rightarrow> bool" where
  "closed_call c \<longleftrightarrow> c_outcome c \<noteq> Started \<and> c_phase c = Finished \<and> c_finished_at c \<noteq> None
     \<and> (c_outcome c \<noteq> Succeeded \<longrightarrow> no_receipt (c_receipt c))"

definition open_call :: "transport_phase \<Rightarrow> call_row \<Rightarrow> bool" where
  "open_call ph c \<longleftrightarrow> c_outcome c = Started \<and> c_phase c = ph \<and> no_receipt (c_receipt c)"

definition cancelled_call :: "call_row \<Rightarrow> bool" where
  "cancelled_call c \<longleftrightarrow> closed_call c \<and> c_outcome c = Cancelled"

definition pair_ok :: "reservation_row \<Rightarrow> call_row option \<Rightarrow> bool" where
  "pair_ok r co =
     (case r_state r of
        Denied \<Rightarrow> r_phase r = NotClaimed \<and> co = None
      | Reserved \<Rightarrow> r_phase r = NotClaimed \<and> co = None
          \<or> r_phase r = ClaimBegun \<and> (\<exists>c. co = Some c \<and> (open_call ClaimBegun c \<or> cancelled_call c))
      | Sent \<Rightarrow> (\<exists>c. co = Some c \<and>
          (open_call (r_phase r) c \<and> r_phase r \<in> {MarkedSent, NetworkInvocationStarting}
           \<or> closed_call c \<and> r_phase r = Finished))
      | Settled \<Rightarrow> r_phase r = Finished \<and> (\<exists>c. co = Some c \<and> closed_call c)
      | Released \<Rightarrow> r_phase r = Finished \<and> (co = None \<or> (\<exists>c. co = Some c \<and> cancelled_call c)))"

definition tables_ok :: "core_db \<Rightarrow> bool" where
  "tables_ok db \<longleftrightarrow>
     distinct (map r_id (reservations db)) \<and> distinct (map r_attempt (reservations db))
     \<and> (\<forall>r \<in> set (reservations db). reservation_check r)
     \<and> distinct (map c_id (calls db)) \<and> distinct (map c_reservation (calls db))
     \<and> (\<forall>c \<in> set (calls db). call_check c \<and> (\<exists>r \<in> set (reservations db). call_parent c r))"

definition store_ok :: "core_db \<Rightarrow> bool" where
  "store_ok db \<longleftrightarrow> tables_ok db \<and> (\<forall>r \<in> set (reservations db). pair_ok r (call_of (r_id r) db))"

definition same_key :: "reservation_row \<Rightarrow> reservation_row \<Rightarrow> bool" where
  "same_key r r' \<longleftrightarrow> r_id r' = r_id r \<and> r_request r' = r_request r \<and> r_attempt r' = r_attempt r \<and> r_month r' = r_month r
     \<and> r_category r' = r_category r \<and> r_provider r' = r_provider r \<and> r_model r' = r_model r
     \<and> r_outcome r' = r_outcome r \<and> r_reserved r' = r_reserved r \<and> r_price r' = r_price r
     \<and> r_usage_json r' = r_usage_json r"

definition same_call :: "call_row \<Rightarrow> call_row \<Rightarrow> bool" where
  "same_call c c' \<longleftrightarrow> c_id c' = c_id c \<and> c_reservation c' = c_reservation c \<and> c_request c' = c_request c
     \<and> c_attempt c' = c_attempt c \<and> c_authorization c' = c_authorization c \<and> c_provider c' = c_provider c
     \<and> c_model c' = c_model c \<and> c_category c' = c_category c"

lemma map_if_key: "(\<And>x. P x \<Longrightarrow> k (f x) = k x) \<Longrightarrow> map k (map (\<lambda>x. if P x then f x else x) xs) = map k xs"
  by simp

text \<open>An update of one reservation and of calls keeps the table level.\<close>

lemma tables_update:
  assumes ok: "tables_ok db"
    and res: "reservations db' = map (\<lambda>r. if P r then f r else r) (reservations db)"
      "\<And>r. P r \<Longrightarrow> same_key r (f r)" "\<And>r. r \<in> set (reservations db) \<Longrightarrow> P r \<Longrightarrow> reservation_check (f r)"
    and cal: "calls db' = map (\<lambda>c. if Q c then g c else c) (calls db)"
      "\<And>c. Q c \<Longrightarrow> same_call c (g c)" "\<And>c. c \<in> set (calls db) \<Longrightarrow> Q c \<Longrightarrow> call_check (g c)"
  shows "tables_ok db'"
proof -
  have keys: "map r_id (reservations db') = map r_id (reservations db)"
    "map r_attempt (reservations db') = map r_attempt (reservations db)"
    "map c_id (calls db') = map c_id (calls db)" "map c_reservation (calls db') = map c_reservation (calls db)"
    unfolding res(1) cal(1) by (rule map_if_key, use res(2) cal(2) in \<open>simp add: same_key_def same_call_def\<close>)+
  have rc: "\<forall>r \<in> set (reservations db'). reservation_check r"
    using ok res(1,3) by (auto simp: tables_ok_def)
  have cc: "call_check c' \<and> (\<exists>r \<in> set (reservations db'). call_parent c' r)" if c': "c' \<in> set (calls db')" for c'
  proof -
    obtain c where c: "c \<in> set (calls db)" "c' = (if Q c then g c else c)" using c' cal(1) by auto
    obtain r where r: "r \<in> set (reservations db)" "call_parent c r" using ok c(1) by (auto simp: tables_ok_def)
    have "call_parent c' (if P r then f r else r)"
      using r(2) c(2) cal(2) [of c] res(2) [of r] by (auto simp: call_parent_def same_call_def same_key_def)
    moreover have "(if P r then f r else r) \<in> set (reservations db')" using r(1) res(1) by auto
    ultimately show ?thesis using c ok cal(3) by (auto simp: tables_ok_def)
  qed
  show ?thesis using ok keys rc cc by (simp add: tables_ok_def)
qed

lemma call_of_update:
  assumes "calls db' = map (\<lambda>c. if Q c then g c else c) (calls db)" "\<And>c. Q c \<Longrightarrow> same_call c (g c)"
  shows "call_of rid db' = map_option (\<lambda>c. if Q c then g c else c) (call_of rid db)"
  unfolding call_of_def assms(1) by (rule find_map_if) (use assms(2) in \<open>simp add: same_call_def\<close>)

lemma call_of_reservation: "call_of rid db = Some c \<Longrightarrow> c_reservation c = rid \<and> c \<in> set (calls db)"
  unfolding call_of_def by (drule find_SomeD) simp

text \<open>A step that touches one reservation and its own call keeps the pair relation.\<close>

lemma store_update:
  assumes ok: "store_ok db"
    and r: "r \<in> set (reservations db)" "\<And>x. x \<in> set (reservations db) \<Longrightarrow> P x \<longleftrightarrow> x = r"
    and res: "reservations db' = map (\<lambda>r. if P r then f r else r) (reservations db)"
      "\<And>x. P x \<Longrightarrow> same_key x (f x)" "reservation_check (f r)"
    and cal: "calls db' = map (\<lambda>c. if Q c then g c else c) (calls db)"
      "\<And>c. Q c \<Longrightarrow> same_call c (g c)" "\<And>c. c \<in> set (calls db) \<Longrightarrow> Q c \<Longrightarrow> call_check (g c) \<and> c_reservation c = r_id r"
    and pair: "pair_ok (f r) (map_option (\<lambda>c. if Q c then g c else c) (call_of (r_id r) db))"
  shows "store_ok db'"
proof -
  have t: "tables_ok db'"
    by (rule tables_update [OF _ res(1,2) _ cal(1,2)]) (use ok r(2) res(3) cal(3) in \<open>auto simp: store_ok_def\<close>)
  have "pair_ok x (call_of (r_id x) db')" if x: "x \<in> set (reservations db')" for x
  proof -
    obtain y where y: "y \<in> set (reservations db)" "x = (if P y then f y else y)" using x res(1) by auto
    have co: "call_of (r_id x) db' = map_option (\<lambda>c. if Q c then g c else c) (call_of (r_id y) db)"
      using call_of_update [OF cal(1,2)] y res(2) [of y] by (simp add: same_key_def)
    show ?thesis
    proof (cases "y = r")
      case True
      then show ?thesis using co pair y r(2) by simp
    next
      case False
      then have "r_id y \<noteq> r_id r" using ok y(1) r(1) by (auto simp: store_ok_def tables_ok_def distinct_map inj_on_def)
      then have "\<not> Q c" if "call_of (r_id y) db = Some c" for c using call_of_reservation [OF that] cal(3) by auto
      then have "call_of (r_id x) db' = call_of (r_id y) db" using co by (cases "call_of (r_id y) db") auto
      then show ?thesis using False y r(2) ok by (auto simp: store_ok_def)
    qed
  qed
  then show ?thesis using t by (simp add: store_ok_def)
qed

lemma tables_find_reservation:
  assumes "tables_ok db" "r \<in> set (reservations db)"
  shows "find (\<lambda>x. r_id x = r_id r \<and> r_attempt x = r_attempt r) (reservations db) = Some r"
    "find (\<lambda>x. r_id x = r_id r) (reservations db) = Some r"
  by (rule find_distinct [where key = r_id]; use assms in \<open>simp add: tables_ok_def\<close>)+

text \<open>The calls of a reservation, selected by reservation and attempt, are its one call.\<close>

lemma calls_filter:
  assumes ok: "tables_ok db" and r: "r \<in> set (reservations db)"
  shows "filter (\<lambda>c. c_reservation c = r_id r \<and> c_attempt c = r_attempt r) (calls db)
    = (case call_of (r_id r) db of None \<Rightarrow> [] | Some c \<Rightarrow> [c])"
proof (cases "call_of (r_id r) db")
  case None
  then have "\<forall>c \<in> set (calls db). c_reservation c \<noteq> r_id r" by (auto simp: call_of_def find_None_iff)
  then show ?thesis using None by (simp add: filter_empty_conv)
next
  case (Some c)
  then have c: "c \<in> set (calls db)" "c_reservation c = r_id r" using call_of_reservation by blast+
  then obtain x where "x \<in> set (reservations db)" "call_parent c x" using ok by (auto simp: tables_ok_def)
  then have "c_attempt c = r_attempt r"
    using c ok r by (auto simp: call_parent_def tables_ok_def distinct_map inj_on_def)
  then have "filter (\<lambda>c. c_reservation c = r_id r \<and> c_attempt c = r_attempt r) (calls db) = [c]"
    by (intro filter_distinct [where key = c_reservation]) (use c ok in \<open>simp_all add: tables_ok_def\<close>)
  then show ?thesis using Some by simp
qed

lemma call_key_unique:
  assumes "tables_ok db" "c \<in> set (calls db)" "x \<in> set (calls db)" "c_id x = c_id c" shows "x = c"
  using assms by (auto simp: tables_ok_def distinct_map inj_on_def)

lemma reservation_key_unique:
  assumes "tables_ok db" "r \<in> set (reservations db)" "x \<in> set (reservations db)" "r_id x = r_id r" shows "x = r"
  using assms by (auto simp: tables_ok_def distinct_map inj_on_def)

lemma call_of_mem:
  assumes "tables_ok db" "c \<in> set (calls db)" shows "call_of (c_reservation c) db = Some c"
  unfolding call_of_def by (rule find_distinct [where key = c_reservation]) (use assms in \<open>simp_all add: tables_ok_def\<close>)

lemma call_parent_of:
  assumes "tables_ok db" "c \<in> set (calls db)"
  obtains r where "r \<in> set (reservations db)" "call_parent c r" "call_of (r_id r) db = Some c"
  using assms call_of_mem [OF assms] by (auto simp: tables_ok_def call_parent_def)


subsection \<open>Exposure of a month\<close>

definition contrib :: "string \<Rightarrow> reservation_row \<Rightarrow> int" where
  "contrib m r = (if r_month r = m \<and> r_state r \<in> counted_states then the (counted_amount r) else 0)"

definition exposure :: "string \<Rightarrow> core_db \<Rightarrow> int" where
  "exposure m db = sum_list (map (contrib m) (reservations db))"

definition cap_ok :: "guard_cfg \<Rightarrow> core_db \<Rightarrow> bool" where
  "cap_ok cfg db \<longleftrightarrow> (\<forall>m. exposure m db \<le> g_hard_limit cfg \<or> frozen_month m db)"

lemma total_amounts_Inr:
  assumes "total_amounts e acc rs = Inr t" "\<forall>r \<in> set rs. counted_amount r \<noteq> None"
  shows "t = acc + sum_list (map (\<lambda>r. the (counted_amount r)) rs)"
  using assms
proof (induction rs arbitrary: acc)
  case (Cons r rs)
  then obtain a where a: "counted_amount r = Some a" by auto
  then show ?case using Cons.prems Cons.IH [of "acc + a"]
    by (auto simp: bindE_eq_Inr lift_py_def checked_add_def split: if_splits)
qed simp

lemma counted_amount_some:
  assumes "reservation_check r" "r_state r \<in> counted_states" shows "counted_amount r \<noteq> None"
  using assms by (auto simp: reservation_check_def counted_amount_def)

lemma counted_amount_bounds:
  assumes "reservation_check r" "r_state r \<in> counted_states"
  shows "0 \<le> the (counted_amount r)" "the (counted_amount r) \<le> MAX_CHARGE_MICROS_SGD"
  using assms by (auto simp: reservation_check_def counted_amount_def split: option.splits)

lemma exposure_month_rows: "exposure m db = sum_list (map (\<lambda>r. the (counted_amount r)) (month_rows m db))"
proof -
  have "sum_list (map (contrib m) rs)
      = sum_list (map (\<lambda>r. the (counted_amount r)) (filter (\<lambda>r. r_month r = m \<and> r_state r \<in> counted_states) rs))" for rs
    by (induction rs) (auto simp: contrib_def)
  then show ?thesis unfolding exposure_def month_rows_def .
qed

lemma sum_list_others:
  assumes "distinct (map k rows)" "r \<in> set rows"
  shows "sum_list (map F rows) = (F r :: int) + sum_list (map F (filter (\<lambda>x. k x \<noteq> k r) rows))"
  using assms
proof (induction rows)
  case (Cons x rows)
  show ?case
  proof (cases "x = r")
    case True
    then have "\<forall>y \<in> set rows. k y \<noteq> k r" using Cons.prems(1) by (auto simp: image_iff)
    then have "filter (\<lambda>x. k x \<noteq> k r) rows = rows" by (simp add: filter_id_conv)
    then show ?thesis using True by simp
  next
    case False
    then have "r \<in> set rows" "k x \<noteq> k r" using Cons.prems by auto
    then show ?thesis using Cons by simp
  qed
qed simp

subsection \<open>Steps on one reservation\<close>

definition row_step :: "core_db \<Rightarrow> core_db \<Rightarrow> reservation_row \<Rightarrow> reservation_row \<Rightarrow> bool" where
  "row_step db db' r r' \<longleftrightarrow> r \<in> set (reservations db) \<and> same_key r r' \<and> reservation_check r'
     \<and> reservations db' = map (\<lambda>x. if r_id x = r_id r then r' else x) (reservations db)"

definition call_step :: "core_db \<Rightarrow> core_db \<Rightarrow> uuid \<Rightarrow> bool" where
  "call_step db db' rid \<longleftrightarrow> calls db' = calls db
     \<or> (\<exists>c c'. c \<in> set (calls db) \<and> c_reservation c = rid \<and> same_call c c' \<and> call_check c'
          \<and> calls db' = map (\<lambda>x. if c_id x = c_id c then c' else x) (calls db))"

lemma update_one_row:
  assumes "update_one reservation_check P f err (reservations db) = Inr rows" "tables_ok db"
  shows "\<exists>r \<in> set (reservations db). P r \<and> reservation_check (f r)
     \<and> rows = map (\<lambda>x. if r_id x = r_id r then f r else x) (reservations db)"
proof -
  from update_one_Inr [OF assms(1)] obtain r where r: "r \<in> set (reservations db)" "P r" "reservation_check (f r)"
    "filter P (reservations db) = [r]" "rows = map (\<lambda>r. if P r then f r else r) (reservations db)" by blast
  have "(if P x then f x else x) = (if r_id x = r_id r then f r else x)" if "x \<in> set (reservations db)" for x
    using filter_singleton_iff [OF r(4) that] reservation_key_unique [OF assms(2) r(1) that] by auto
  then show ?thesis using r by (intro bexI [of _ r]) simp_all
qed

lemma update_one_call:
  assumes "update_one call_check P f err (calls db) = Inr cs" "tables_ok db"
  shows "\<exists>c \<in> set (calls db). P c \<and> call_check (f c) \<and> cs = map (\<lambda>x. if c_id x = c_id c then f c else x) (calls db)"
proof -
  from update_one_Inr [OF assms(1)] obtain c where c: "c \<in> set (calls db)" "P c" "call_check (f c)"
    "filter P (calls db) = [c]" "cs = map (\<lambda>r. if P r then f r else r) (calls db)" by blast
  have "(if P x then f x else x) = (if c_id x = c_id c then f c else x)" if "x \<in> set (calls db)" for x
    using filter_singleton_iff [OF c(4) that] call_key_unique [OF assms(2) c(1) that] by auto
  then show ?thesis using c by (intro bexI [of _ c]) simp_all
qed

lemma call_of_step:
  assumes "tables_ok db" "c \<in> set (calls db)" "same_call c c'"
    "calls db' = map (\<lambda>x. if c_id x = c_id c then c' else x) (calls db)"
  shows "call_of rid db' = (if rid = c_reservation c then Some c' else call_of rid db)"
proof -
  have eq: "calls db' = map (\<lambda>x. if x = c then c' else x) (calls db)"
    unfolding assms(4) using call_key_unique [OF assms(1,2)] by (intro map_cong) auto
  have "call_of rid db' = map_option (\<lambda>x. if x = c then c' else x) (call_of rid db)"
    unfolding call_of_def eq by (rule find_map_if) (use assms(3) in \<open>simp add: same_call_def\<close>)
  moreover have "call_of (c_reservation c) db = Some c" using call_of_mem assms(1,2) .
  moreover have "call_of rid db \<noteq> Some c" if "rid \<noteq> c_reservation c"
    using that call_of_reservation by blast
  ultimately show ?thesis by (cases "call_of rid db") auto
qed

lemma store_row_step:
  assumes ok: "store_ok db" and row: "row_step db db' r r'" and call: "call_step db db' (r_id r)"
    and pair: "pair_ok r' (call_of (r_id r) db')"
  shows "store_ok db'"
proof -
  have t: "tables_ok db" using ok by (simp add: store_ok_def)
  have r: "r \<in> set (reservations db)" "same_key r r'" "reservation_check r'"
    and rows: "reservations db' = map (\<lambda>x. if x = r then r' else x) (reservations db)"
    using row reservation_key_unique [OF t] by (auto simp: row_step_def)
  consider (none) "calls db' = calls db"
    | (some) c c' where "c \<in> set (calls db)" "c_reservation c = r_id r" "same_call c c'" "call_check c'"
        "calls db' = map (\<lambda>x. if c_id x = c_id c then c' else x) (calls db)"
    using call unfolding call_step_def by blast
  then show ?thesis
  proof cases
    case none
    then have "call_of rid db' = call_of rid db" for rid by (simp add: call_of_def)
    with none pair show ?thesis
      by (intro store_update [OF ok r(1), where P = "\<lambda>x. x = r" and f = "\<lambda>_. r'" and Q = "\<lambda>_. False" and g = id])
         (simp_all add: rows r option.map_ident)
  next
    case some
    have cs: "calls db' = map (\<lambda>x. if x = c then c' else x) (calls db)"
      unfolding some(5) using call_key_unique [OF t some(1)] by (intro map_cong) auto
    have "call_of (r_id r) db = Some c" using call_of_mem [OF t some(1)] some(2) by simp
    moreover have "call_of (r_id r) db' = Some c'" using call_of_step [OF t some(1,3,5)] some(2) by simp
    ultimately show ?thesis using pair some
      by (intro store_update [OF ok r(1), where P = "\<lambda>x. x = r" and f = "\<lambda>_. r'" and Q = "\<lambda>x. x = c" and g = "\<lambda>_. c'"])
         (simp_all add: rows cs r)
  qed
qed

lemma exposure_row_step:
  assumes "tables_ok db" "row_step db db' r r'"
  shows "exposure m db' = exposure m db - contrib m r + contrib m r'"
proof -
  have r: "r \<in> set (reservations db)" and k: "r_id r' = r_id r"
    and rows: "reservations db' = map (\<lambda>x. if r_id x = r_id r then r' else x) (reservations db)"
    using assms(2) by (auto simp: row_step_def same_key_def)
  have d: "distinct (map r_id (reservations db))" using assms(1) by (simp add: tables_ok_def)
  have d': "distinct (map r_id (reservations db'))"
  proof -
    have "map r_id (reservations db') = map r_id (reservations db)" using k by (simp add: rows)
    then show ?thesis using d by simp
  qed
  have r': "r' \<in> set (reservations db')" using r by (auto simp: rows)
  have "filter (\<lambda>x. r_id x \<noteq> r_id r) (map (\<lambda>x. if r_id x = r_id r then r' else x) xs) = filter (\<lambda>x. r_id x \<noteq> r_id r) xs" for xs
    by (induction xs) (simp_all add: k)
  then have "filter (\<lambda>x. r_id x \<noteq> r_id r') (reservations db') = filter (\<lambda>x. r_id x \<noteq> r_id r) (reservations db)"
    unfolding rows k .
  then show ?thesis unfolding exposure_def using sum_list_others [OF d r, of "contrib m"] sum_list_others [OF d' r', of "contrib m"]
    by simp
qed


subsection \<open>The invariant\<close>

definition ledger_ok :: "core_db \<Rightarrow> bool" where
  "ledger_ok db \<longleftrightarrow> distinct (map l_reservation (ledger db))
     \<and> (\<forall>l \<in> set (ledger db). \<exists>r \<in> set (reservations db). ledger_parent l r \<and> r_state r = Settled)
     \<and> (\<forall>r \<in> set (reservations db). r_state r = Settled \<longrightarrow>
          (\<exists>l \<in> set (ledger db). l_reservation l = r_id r) \<or> r_charged r = Some (r_reserved r))"

definition budget_inv :: "guard_cfg \<Rightarrow> core_db \<Rightarrow> bool" where
  "budget_inv cfg db \<longleftrightarrow> store_ok db \<and> cap_ok cfg db \<and> ledger_ok db"

lemma row_step_mem:
  assumes "row_step db db' r r'" "tables_ok db" "x \<in> set (reservations db')"
  shows "x = r' \<or> x \<in> set (reservations db) \<and> x \<noteq> r \<and> r_id x \<noteq> r_id r"
  using assms reservation_key_unique [OF assms(2)] by (auto simp: row_step_def)

lemma ledger_row_step:
  assumes ok: "ledger_ok db" and t: "tables_ok db" and row: "row_step db db' r r'" and r: "r_state r \<in> open_states"
    and same: "ledger db' = ledger db" and settled: "r_state r' = Settled \<Longrightarrow> r_charged r' = Some (r_reserved r')"
  shows "ledger_ok db'"
proof -
  have "\<exists>x \<in> set (reservations db'). ledger_parent l x \<and> r_state x = Settled" if "l \<in> set (ledger db)" for l
  proof -
    obtain x where x: "x \<in> set (reservations db)" "ledger_parent l x" "r_state x = Settled"
      using ok \<open>l \<in> set (ledger db)\<close> by (auto simp: ledger_ok_def)
    then have "r_id x \<noteq> r_id r" using reservation_key_unique [OF t _ x(1), of r] row r by (auto simp: row_step_def)
    then have "x \<in> set (reservations db')" using x(1) row by (force simp: row_step_def)
    then show ?thesis using x by blast
  qed
  moreover have "(\<exists>l \<in> set (ledger db). l_reservation l = r_id x) \<or> r_charged x = Some (r_reserved x)"
    if "x \<in> set (reservations db')" "r_state x = Settled" for x
    using row_step_mem [OF row t that(1)] that(2) ok settled by (auto simp: ledger_ok_def)
  ultimately show ?thesis using ok by (simp add: ledger_ok_def same)
qed

lemma cap_row_step:
  assumes "cap_ok cfg db" "tables_ok db" "row_step db db' r r'" "\<And>m. contrib m r' \<le> contrib m r"
    "\<And>m. frozen_month m db \<Longrightarrow> frozen_month m db'"
  shows "cap_ok cfg db'"
  unfolding cap_ok_def
proof
  fix m
  have "exposure m db' \<le> exposure m db" using exposure_row_step [OF assms(2,3), of m] assms(4) [of m] by simp
  moreover have "exposure m db \<le> g_hard_limit cfg \<or> frozen_month m db" using assms(1) by (simp add: cap_ok_def)
  ultimately show "exposure m db' \<le> g_hard_limit cfg \<or> frozen_month m db'" using assms(5) by fastforce
qed

lemma inv_row_step:
  assumes inv: "budget_inv cfg db" and row: "row_step db db' r r'" "call_step db db' (r_id r)"
    and pair: "pair_ok r' (call_of (r_id r) db')" and r: "r_state r \<in> open_states" "\<And>m. contrib m r' \<le> contrib m r"
    and same: "ledger db' = ledger db" "settings db' = settings db"
    and settled: "r_state r' = Settled \<Longrightarrow> r_charged r' = Some (r_reserved r')"
  shows "budget_inv cfg db'"
proof -
  have t: "tables_ok db" using inv by (simp add: budget_inv_def store_ok_def)
  show ?thesis unfolding budget_inv_def
    using store_row_step [OF _ row pair] cap_row_step [OF _ t row(1) r(2)] ledger_row_step [OF _ t row(1) r(1) same(1) settled]
      inv same(2) by (simp add: budget_inv_def)
qed

text \<open>A reservation that stays open or is charged what it reserved counts the same.\<close>

lemma contrib_same:
  assumes "same_key r r'" "r_state r \<in> open_states"
    "r_state r' \<in> open_states \<or> r_state r' = Settled \<and> r_charged r' = Some (r_reserved r')"
  shows "contrib m r' = contrib m r"
  using assms by (auto simp: contrib_def counted_amount_def same_key_def)

lemma contrib_released:
  assumes "same_key r r'" "reservation_check r" "r_state r' = Released" shows "contrib m r' \<le> contrib m r"
  using assms counted_amount_bounds [OF assms(2)] by (auto simp: contrib_def)

lemma inv_tables: "budget_inv cfg db \<Longrightarrow> tables_ok db"
  by (simp add: budget_inv_def store_ok_def)

lemma inv_pair: "budget_inv cfg db \<Longrightarrow> r \<in> set (reservations db) \<Longrightarrow> pair_ok r (call_of (r_id r) db)"
  by (simp add: budget_inv_def store_ok_def)

lemma inv_check: "budget_inv cfg db \<Longrightarrow> r \<in> set (reservations db) \<Longrightarrow> reservation_check r"
  by (simp add: budget_inv_def store_ok_def tables_ok_def)

text \<open>A step on an open reservation together with its call.\<close>

definition put_row :: "reservation_row \<Rightarrow> core_db \<Rightarrow> core_db" where
  "put_row r' db = db\<lparr>reservations := map (\<lambda>x. if r_id x = r_id r' then r' else x) (reservations db)\<rparr>"

definition put_call :: "call_row \<Rightarrow> core_db \<Rightarrow> core_db" where
  "put_call c' db = db\<lparr>calls := map (\<lambda>x. if c_id x = c_id c' then c' else x) (calls db)\<rparr>"

lemma put_fields [simp]:
  "calls (put_row r db) = calls db" "ledger (put_row r db) = ledger db" "settings (put_row r db) = settings db"
  "reservations (put_call c db) = reservations db" "ledger (put_call c db) = ledger db" "settings (put_call c db) = settings db"
  by (simp_all add: put_row_def put_call_def)

definition may_become :: "reservation_row \<Rightarrow> reservation_row \<Rightarrow> bool" where
  "may_become r r' \<longleftrightarrow> same_key r r' \<and> reservation_check r' \<and> r_state r \<in> open_states
     \<and> (r_state r' \<in> open_states \<or> r_state r' = Released
        \<or> r_state r' = Settled \<and> r_charged r' = Some (r_reserved r'))"

lemma may_become_contrib: "may_become r r' \<Longrightarrow> reservation_check r \<Longrightarrow> contrib m r' \<le> contrib m r"
  using contrib_same [of r r' m] contrib_released [of r r' m] by (auto simp: may_become_def)

lemma inv_pair_step:
  assumes inv: "budget_inv cfg db" and r: "r \<in> set (reservations db)" "may_become r r'"
    and c: "c \<in> set (calls db)" "c_reservation c = r_id r" "same_call c c'" "call_check c'"
    and pair: "pair_ok r' (Some c')"
  shows "budget_inv cfg (put_call c' (put_row r' db))"
proof -
  note t = inv_tables [OF inv]
  let ?db = "put_call c' (put_row r' db)"
  have k: "r_id r' = r_id r" "c_id c' = c_id c" using r(2) c(3) by (simp_all add: may_become_def same_key_def same_call_def)
  have row: "row_step db ?db r r'" using r k by (simp add: row_step_def may_become_def put_row_def)
  have eq: "calls ?db = map (\<lambda>x. if c_id x = c_id c then c' else x) (calls db)" by (simp add: put_call_def k)
  have call: "call_step db ?db (r_id r)"
    unfolding call_step_def eq using c by (intro disjI2 exI [of _ c] exI [of _ c']) simp
  have "call_of (r_id r) ?db = Some c'" using call_of_step [OF t c(1,3) eq, of "r_id r"] c(2) by simp
  then have p: "pair_ok r' (call_of (r_id r) ?db)" using pair by simp
  show ?thesis
    by (rule inv_row_step [OF inv row call p])
       (use r may_become_contrib [OF r(2) inv_check [OF inv r(1)]] in \<open>auto simp: may_become_def\<close>)
qed

lemma inv_row_only_step:
  assumes inv: "budget_inv cfg db" and r: "r \<in> set (reservations db)" "may_become r r'"
    and pair: "pair_ok r' (call_of (r_id r) db)"
  shows "budget_inv cfg (put_row r' db)"
proof -
  have row: "row_step db (put_row r' db) r r'"
    using r by (simp add: row_step_def may_become_def put_row_def same_key_def)
  have call: "call_step db (put_row r' db) (r_id r)" by (simp add: call_step_def)
  have p: "pair_ok r' (call_of (r_id r) (put_row r' db))" using pair by (simp add: call_of_def)
  show ?thesis
    by (rule inv_row_step [OF inv row call p])
       (use r may_become_contrib [OF r(2) inv_check [OF inv r(1)]] in \<open>auto simp: may_become_def\<close>)
qed

lemma update_one_put_row:
  assumes "update_one reservation_check P f err (reservations db) = Inr rows" "tables_ok db" "\<And>r. r_id (f r) = r_id r"
  shows "\<exists>r \<in> set (reservations db). P r \<and> reservation_check (f r) \<and> db\<lparr>reservations := rows\<rparr> = put_row (f r) db"
  using update_one_row [OF assms(1,2)] assms(3) by (auto simp: put_row_def)

lemma update_one_put_call:
  assumes "update_one call_check P f err (calls db) = Inr cs" "tables_ok db" "\<And>c. c_id (f c) = c_id c"
  shows "\<exists>c \<in> set (calls db). P c \<and> call_check (f c) \<and> db\<lparr>calls := cs\<rparr> = put_call (f c) db"
  using update_one_call [OF assms(1,2)] assms(3) by (auto simp: put_call_def)

lemma put_both:
  assumes "db\<lparr>reservations := rows\<rparr> = put_row r' db" "db\<lparr>calls := cs\<rparr> = put_call c' db"
  shows "db\<lparr>reservations := rows, calls := cs\<rparr> = put_call c' (put_row r' db)"
  using assms unfolding put_row_def put_call_def by (cases db) simp

subsection \<open>Marking a call sent, starting it, finishing it\<close>

lemma mark_pair_effect:
  assumes t: "tables_ok db" and run: "mark_pair rid aid now db = Inr (u, db')"
  shows "\<exists>r c. r \<in> set (reservations db) \<and> r_id r = rid \<and> r_attempt r = aid \<and> r_state r = Reserved \<and> r_phase r = ClaimBegun
    \<and> r_expires_at r > now \<and> \<not> frozen_month (r_month r) db
    \<and> c \<in> set (calls db) \<and> c_reservation c = rid \<and> open_call ClaimBegun c
    \<and> reservation_check (r\<lparr>r_state := Sent, r_phase := MarkedSent\<rparr>) \<and> call_check (c\<lparr>c_phase := MarkedSent\<rparr>)
    \<and> db' = put_call (c\<lparr>c_phase := MarkedSent\<rparr>) (put_row (r\<lparr>r_state := Sent, r_phase := MarkedSent\<rparr>) db)"
proof -
  obtain res call rows cs where f: "find (\<lambda>r. r_id r = rid \<and> r_attempt r = aid) (reservations db) = Some res"
    "\<not> frozen_month (r_month res) db"
    "find (\<lambda>c. c_reservation c = rid \<and> c_attempt c = aid \<and> c_ordering c = 1 \<and> c_phase c = ClaimBegun \<and> c_outcome c = Started)
        (calls db) = Some call" "no_receipt (c_receipt call)"
    and u1: "update_one reservation_check (\<lambda>r. r_id r = rid \<and> r_attempt r = aid \<and> r_state r = Reserved \<and> r_expires_at r > now
          \<and> r_ordering r = 1 \<and> r_phase r = ClaimBegun) (\<lambda>r. r\<lparr>r_state := Sent, r_phase := MarkedSent\<rparr>)
          (PermissionErr ''reservation_not_markable_sent'') (reservations db) = Inr rows"
    and u2: "update_one call_check (\<lambda>c. c_id c = c_id call \<and> c_reservation c = rid \<and> c_attempt c = aid \<and> c_outcome c = Started
          \<and> c_ordering c = 1 \<and> c_phase c = ClaimBegun) (\<lambda>c. c\<lparr>c_phase := MarkedSent\<rparr>)
          (PermissionErr ''provider_claim_phase_race'') (calls db) = Inr cs"
    and db': "db' = db\<lparr>reservations := rows, calls := cs\<rparr>"
    using run by (auto simp: mark_pair_def bindE_eq_Inr split: option.splits if_splits)
  obtain r where r: "r \<in> set (reservations db)" "r_id r = rid" "r_attempt r = aid" "r_state r = Reserved" "r_phase r = ClaimBegun"
    "r_expires_at r > now" "reservation_check (r\<lparr>r_state := Sent, r_phase := MarkedSent\<rparr>)"
    "db\<lparr>reservations := rows\<rparr> = put_row (r\<lparr>r_state := Sent, r_phase := MarkedSent\<rparr>) db"
    using update_one_put_row [OF u1 t] by auto
  obtain c where c: "c \<in> set (calls db)" "c_id c = c_id call" "c_reservation c = rid" "c_phase c = ClaimBegun" "c_outcome c = Started"
    "call_check (c\<lparr>c_phase := MarkedSent\<rparr>)" "db\<lparr>calls := cs\<rparr> = put_call (c\<lparr>c_phase := MarkedSent\<rparr>) db"
    using update_one_put_call [OF u2 t] by auto
  have "res = r" using find_SomeD [OF f(1)] reservation_key_unique [OF t r(1)] r(2) by simp
  moreover have "call = c" using find_SomeD [OF f(3)] call_key_unique [OF t c(1), of call] c(2) by simp
  ultimately show ?thesis using f(2,4) r(1-7) c(1-6) unfolding db' put_both [OF r(8) c(7)]
    by (intro exI [of _ r] exI [of _ c]) (simp add: open_call_def)
qed

lemma mark_pair_inv:
  assumes inv: "budget_inv cfg db" and run: "mark_pair rid aid now db = Inr (u, db')"
  shows "budget_inv cfg db'"
  using mark_pair_effect [OF inv_tables [OF inv] run]
  by (auto intro!: inv_pair_step [OF inv] simp: may_become_def same_key_def same_call_def pair_ok_def open_call_def)

lemma advance_effect:
  assumes t: "tables_ok db" and run: "advance_locked cid db = Inr (u, db')"
  shows "\<exists>r c. r \<in> set (reservations db) \<and> r_state r = Sent \<and> r_phase r = MarkedSent
    \<and> c \<in> set (calls db) \<and> c_id c = cid \<and> c_reservation c = r_id r \<and> open_call MarkedSent c
    \<and> reservation_check (r\<lparr>r_phase := NetworkInvocationStarting\<rparr>) \<and> call_check (c\<lparr>c_phase := NetworkInvocationStarting\<rparr>)
    \<and> db' = put_call (c\<lparr>c_phase := NetworkInvocationStarting\<rparr>) (put_row (r\<lparr>r_phase := NetworkInvocationStarting\<rparr>) db)"
proof -
  obtain call rows cs where
    f: "find (\<lambda>c. c_id c = cid \<and> c_outcome c = Started \<and> c_ordering c = 1 \<and> c_phase c = MarkedSent) (calls db) = Some call"
      "no_receipt (c_receipt call)"
    and u1: "update_one reservation_check (\<lambda>r. r_id r = c_reservation call \<and> r_attempt r = c_attempt call \<and> r_state r = Sent
          \<and> r_ordering r = 1 \<and> r_phase r = MarkedSent) (\<lambda>r. r\<lparr>r_phase := NetworkInvocationStarting\<rparr>)
          (PermissionErr ''budget_proof_pair_mismatch'') (reservations db) = Inr rows"
    and u2: "update_one call_check (\<lambda>c. c_id c = cid \<and> c_outcome c = Started \<and> c_ordering c = 1 \<and> c_phase c = MarkedSent)
          (\<lambda>c. c\<lparr>c_phase := NetworkInvocationStarting\<rparr>) (PermissionErr ''provider_call_phase_race'') (calls db) = Inr cs"
    and db': "db' = db\<lparr>reservations := rows, calls := cs\<rparr>"
    using run by (auto simp: advance_locked_def bindE_eq_Inr split: option.splits if_splits)
  obtain r where r: "r \<in> set (reservations db)" "r_id r = c_reservation call" "r_state r = Sent" "r_phase r = MarkedSent"
    "reservation_check (r\<lparr>r_phase := NetworkInvocationStarting\<rparr>)"
    "db\<lparr>reservations := rows\<rparr> = put_row (r\<lparr>r_phase := NetworkInvocationStarting\<rparr>) db"
    using update_one_put_row [OF u1 t] by auto
  obtain c where c: "c \<in> set (calls db)" "c_id c = cid" "c_phase c = MarkedSent" "c_outcome c = Started"
    "call_check (c\<lparr>c_phase := NetworkInvocationStarting\<rparr>)" "db\<lparr>calls := cs\<rparr> = put_call (c\<lparr>c_phase := NetworkInvocationStarting\<rparr>) db"
    using update_one_put_call [OF u2 t] by auto
  have "call = c" using find_SomeD [OF f(1)] call_key_unique [OF t c(1), of call] c(2) by simp
  then show ?thesis using f(2) r(1-5) c(1-5) unfolding db' put_both [OF r(6) c(6)]
    by (intro exI [of _ r] exI [of _ c]) (simp add: open_call_def)
qed

lemma advance_inv:
  assumes inv: "budget_inv cfg db" and run: "advance_locked cid db = Inr (u, db')"
  shows "budget_inv cfg db'"
  using advance_effect [OF inv_tables [OF inv] run]
  by (auto intro!: inv_pair_step [OF inv] simp: may_become_def same_key_def same_call_def pair_ok_def open_call_def)

definition finish_columns :: "(usage_receipt \<times> string) option \<Rightarrow> receipt_columns" where
  "finish_columns receipt = (case receipt of None \<Rightarrow> (None, None, None)
     | Some (u, canonical) \<Rightarrow> (Some canonical, Some (u_key_id u), Some (u_hmac u)))"

lemma finish_effect:
  assumes t: "tables_ok db" and run: "finish_pair cid outcome rt receipt now db = Inr (u, db')"
  shows "db' = db \<or> (\<exists>r c. r \<in> set (reservations db) \<and> r_state r = Sent \<and> r_phase r \<in> {MarkedSent, NetworkInvocationStarting}
    \<and> c \<in> set (calls db) \<and> c_id c = cid \<and> c_reservation c = r_id r \<and> open_call (r_phase r) c
    \<and> (case receipt of None \<Rightarrow> True | Some (u, _) \<Rightarrow> receipt_bound u c)
    \<and> reservation_check (r\<lparr>r_phase := Finished\<rparr>)
    \<and> call_check (c\<lparr>c_outcome := outcome, c_phase := Finished, c_finished_at := Some now, c_receipt := finish_columns receipt\<rparr>)
    \<and> db' = put_call (c\<lparr>c_outcome := outcome, c_phase := Finished, c_finished_at := Some now, c_receipt := finish_columns receipt\<rparr>)
              (put_row (r\<lparr>r_phase := Finished\<rparr>) db))"
proof (cases "db' = db")
  case False
  obtain call rows cs where
    f: "find (\<lambda>c. c_id c = cid \<and> c_ordering c = 1) (calls db) = Some call"
      "c_outcome call = Started" "c_phase call \<in> {MarkedSent, NetworkInvocationStarting}" "no_receipt (c_receipt call)"
      "case receipt of None \<Rightarrow> True | Some (u, _) \<Rightarrow> receipt_bound u call"
    and u2: "update_one call_check (\<lambda>c. c_id c = cid \<and> c_outcome c = Started \<and> c_ordering c = 1 \<and> c_phase c = c_phase call)
          (\<lambda>c. c\<lparr>c_outcome := outcome, c_phase := Finished, c_finished_at := Some now, c_receipt := finish_columns receipt\<rparr>)
          (PermissionErr ''provider_call_finish_race'') (calls db) = Inr cs"
    and u1: "update_one reservation_check (\<lambda>r. r_id r = c_reservation call \<and> r_attempt r = c_attempt call \<and> r_state r = Sent
          \<and> r_ordering r = 1 \<and> r_phase r = c_phase call) (\<lambda>r. r\<lparr>r_phase := Finished\<rparr>)
          (PermissionErr ''provider_reservation_finish_race'') (reservations db) = Inr rows"
    and db': "db' = db\<lparr>reservations := rows, calls := cs\<rparr>"
    using run False unfolding finish_pair_def Let_def finish_columns_def [symmetric]
    by (simp add: bindE_eq_Inr split: option.splits if_splits) blast+
  obtain r where r: "r \<in> set (reservations db)" "r_id r = c_reservation call" "r_state r = Sent" "r_phase r = c_phase call"
    "reservation_check (r\<lparr>r_phase := Finished\<rparr>)" "db\<lparr>reservations := rows\<rparr> = put_row (r\<lparr>r_phase := Finished\<rparr>) db"
    using update_one_put_row [OF u1 t] by auto
  obtain c where c: "c \<in> set (calls db)" "c_id c = cid"
    "call_check (c\<lparr>c_outcome := outcome, c_phase := Finished, c_finished_at := Some now, c_receipt := finish_columns receipt\<rparr>)"
    "db\<lparr>calls := cs\<rparr> = put_call (c\<lparr>c_outcome := outcome, c_phase := Finished, c_finished_at := Some now, c_receipt := finish_columns receipt\<rparr>) db"
    using update_one_put_call [OF u2 t] by auto
  have cc: "call = c" using find_SomeD [OF f(1)] call_key_unique [OF t c(1), of call] c(2) by simp
  show ?thesis using f(2-5) r(1-5) c(1-3) unfolding db' put_both [OF r(6) c(4)] cc
    by (intro disjI2 exI [of _ r] exI [of _ c]) (simp add: open_call_def)
qed simp


lemma finish_inv:
  assumes inv: "budget_inv cfg db" and run: "finish_pair cid outcome rt receipt now db = Inr (u, db')"
    and outcome: "outcome \<noteq> Started" "outcome \<noteq> Succeeded \<Longrightarrow> receipt = None"
  shows "budget_inv cfg db'"
  using finish_effect [OF inv_tables [OF inv] run] inv outcome
  by (auto intro!: inv_pair_step [OF inv]
      simp: may_become_def same_key_def same_call_def pair_ok_def closed_call_def no_receipt_def finish_columns_def)

subsection \<open>Claiming\<close>

lemma claim_effect:
  assumes t: "tables_ok db" and run: "claim_locked cfg cid rt cs redaction now db = Inr (u, db')"
  shows "\<exists>r c. r \<in> set (reservations db) \<and> r_id r = rt_reservation rt \<and> r_state r = Reserved \<and> r_phase r = NotClaimed
    \<and> r_expires_at r > now \<and> reservation_check (r\<lparr>r_phase := ClaimBegun\<rparr>)
    \<and> c_reservation c = r_id r \<and> open_call ClaimBegun c \<and> call_check c \<and> call_parent c r
    \<and> (\<forall>x \<in> set (calls db). \<not> call_conflict x c)
    \<and> db' = (put_row (r\<lparr>r_phase := ClaimBegun\<rparr>) db)\<lparr>calls := calls db @ [c]\<rparr>"
proof -
  let ?c = "\<lparr>c_id = cid, c_request = rt_request rt, c_attempt = rt_attempt rt, c_authorization = rt_authorization rt,
     c_reservation = rt_reservation rt, c_purpose = rt_purpose rt, c_provider = rt_provider rt, c_model = rt_model rt,
     c_category = purpose_category (rt_purpose rt), c_redaction_receipt = redaction, c_outcome = Started, c_ordering = 1,
     c_phase = ClaimBegun, c_receipt = (None, None, None), c_started_at = now, c_finished_at = None\<rparr>"
  obtain rows cs' where u1: "update_one reservation_check
       (\<lambda>r. r_id r = rt_reservation rt \<and> r_request r = rt_request rt \<and> r_attempt r = rt_attempt rt
          \<and> r_provider r = rt_provider rt \<and> r_model r = rt_model rt
          \<and> r_category r = purpose_category (rt_purpose rt) \<and> r_state r = Reserved \<and> r_ordering r = 1
          \<and> r_phase r = NotClaimed \<and> r_expires_at r > now)
       (\<lambda>r. r\<lparr>r_phase := ClaimBegun\<rparr>) (PermissionErr ''reservation_not_claimable'') (reservations db) = Inr rows"
    and ins: "sql_insert call_check call_conflict ?c (calls db) = Inr cs'"
    and db': "db' = db\<lparr>reservations := rows, calls := cs'\<rparr>"
    using run unfolding claim_locked_def Let_def by (auto simp: bindE_eq_Inr)
  obtain r where r: "r \<in> set (reservations db)" "r_id r = rt_reservation rt" "r_request r = rt_request rt" "r_attempt r = rt_attempt rt"
    "r_provider r = rt_provider rt" "r_model r = rt_model rt" "r_category r = purpose_category (rt_purpose rt)"
    "r_state r = Reserved" "r_phase r = NotClaimed" "r_expires_at r > now" "reservation_check (r\<lparr>r_phase := ClaimBegun\<rparr>)"
    "db\<lparr>reservations := rows\<rparr> = put_row (r\<lparr>r_phase := ClaimBegun\<rparr>) db"
    using update_one_put_row [OF u1 t] by auto
  have c: "call_check ?c" "\<forall>x \<in> set (calls db). \<not> call_conflict x ?c" "cs' = calls db @ [?c]"
    using ins unfolding sql_insert_Inr by simp_all
  have "db' = (put_row (r\<lparr>r_phase := ClaimBegun\<rparr>) db)\<lparr>calls := calls db @ [?c]\<rparr>"
    unfolding db' c(3) r(12) [symmetric] by simp
  then show ?thesis using r(1-11) c(1,2)
    by (intro exI [of _ r] exI [of _ ?c]) (simp add: open_call_def no_receipt_def call_parent_def)
qed

lemma call_of_append:
  "call_of rid (db\<lparr>calls := calls db @ [c]\<rparr>) = (case call_of rid db of Some x \<Rightarrow> Some x
     | None \<Rightarrow> if c_reservation c = rid then Some c else None)"
proof -
  have "find P (xs @ [c]) = (case find P xs of Some x \<Rightarrow> Some x | None \<Rightarrow> if P c then Some c else None)"
    for P :: "call_row \<Rightarrow> bool" and xs by (induction xs) simp_all
  then show ?thesis by (simp add: call_of_def)
qed

lemma pair_ok_phase_None: "pair_ok r co \<Longrightarrow> r_state r = Reserved \<Longrightarrow> r_phase r = NotClaimed \<Longrightarrow> co = None"
  by (simp add: pair_ok_def)

lemma claim_store:
  assumes ok: "store_ok db" and r: "r \<in> set (reservations db)" "r_state r = Reserved" "r_phase r = NotClaimed"
      "reservation_check (r\<lparr>r_phase := ClaimBegun\<rparr>)"
    and c: "c_reservation c = r_id r" "open_call ClaimBegun c" "call_check c" "call_parent c r"
      "\<forall>x \<in> set (calls db). \<not> call_conflict x c"
  shows "store_ok ((put_row (r\<lparr>r_phase := ClaimBegun\<rparr>) db)\<lparr>calls := calls db @ [c]\<rparr>)"
proof -
  let ?r = "r\<lparr>r_phase := ClaimBegun\<rparr>"
  let ?db = "(put_row ?r db)\<lparr>calls := calls db @ [c]\<rparr>"
  have t: "tables_ok db" using ok by (simp add: store_ok_def)
  have row: "row_step db (put_row ?r db) r ?r" using r by (simp add: row_step_def same_key_def put_row_def)
  have t1: "tables_ok (put_row ?r db)"
    by (rule tables_update [OF t, where P = "\<lambda>x. x = r" and f = "\<lambda>_. ?r" and Q = "\<lambda>_. False" and g = id])
       (use r reservation_key_unique [OF t r(1)] in \<open>auto simp: put_row_def same_key_def\<close>)
  have rr: "?r \<in> set (reservations ?db)" using r(1) by (force simp: put_row_def)
  have "call_parent c ?r" using c(4) by (simp add: call_parent_def)
  then have "\<forall>x \<in> set (calls ?db). call_check x \<and> (\<exists>r \<in> set (reservations ?db). call_parent x r)"
    using t1 rr c(3) unfolding tables_ok_def by simp blast
  moreover have "distinct (map c_id (calls ?db))" "distinct (map c_reservation (calls ?db))"
    using t c(5) unfolding tables_ok_def call_conflict_def by auto
  ultimately have "tables_ok ?db" using t1 unfolding tables_ok_def by simp
  moreover have "pair_ok x (call_of (r_id x) ?db)" if x: "x \<in> set (reservations ?db)" for x
  proof -
    have none: "call_of (r_id r) db = None" using ok r pair_ok_phase_None unfolding store_ok_def by blast
    have co: "call_of rid ?db = (case call_of rid db of Some x \<Rightarrow> Some x
        | None \<Rightarrow> if c_reservation c = rid then Some c else None)" for rid
      using call_of_append [of rid "put_row ?r db" c] by (simp add: call_of_def)
    have "x \<in> set (reservations (put_row ?r db))" using x by simp
    from row_step_mem [OF row t this] show ?thesis
    proof (elim disjE conjE)
      assume "x = ?r"
      moreover have "call_of (r_id r) ?db = Some c" using co none c(1) by simp
      ultimately show ?thesis using c(2) r(2) by (simp add: pair_ok_def)
    next
      assume y: "x \<in> set (reservations db)" "r_id x \<noteq> r_id r"
      have "call_of (r_id x) ?db = call_of (r_id x) db" using co y(2) c(1) by (simp split: option.splits)
      then show ?thesis using ok y(1) by (simp add: store_ok_def)
    qed
  qed
  ultimately show ?thesis by (simp add: store_ok_def)
qed

lemma claim_inv:
  assumes inv: "budget_inv cfg db" and run: "claim_locked cfg' cid rt cs redaction now db = Inr (u, db')"
  shows "budget_inv cfg db'"
proof -
  note t = inv_tables [OF inv]
  obtain r c where e: "r \<in> set (reservations db)" "r_state r = Reserved" "r_phase r = NotClaimed"
    "reservation_check (r\<lparr>r_phase := ClaimBegun\<rparr>)" "c_reservation c = r_id r" "open_call ClaimBegun c" "call_check c" "call_parent c r"
    "\<forall>x \<in> set (calls db). \<not> call_conflict x c" "db' = (put_row (r\<lparr>r_phase := ClaimBegun\<rparr>) db)\<lparr>calls := calls db @ [c]\<rparr>"
    using claim_effect [OF t run] by auto
  have row: "row_step db db' r (r\<lparr>r_phase := ClaimBegun\<rparr>)"
    using e by (simp add: row_step_def same_key_def put_row_def)
  have "store_ok db'" using claim_store [OF _ e(1-9)] inv e(10) by (simp add: budget_inv_def)
  moreover have "cap_ok cfg db'"
    by (rule cap_row_step [OF _ t row]) (use inv e(10) in \<open>auto simp: budget_inv_def contrib_def counted_amount_def\<close>)
  moreover have "ledger_ok db'"
    by (rule ledger_row_step [OF _ t row]) (use inv e in \<open>auto simp: budget_inv_def\<close>)
  ultimately show ?thesis by (simp add: budget_inv_def)
qed


subsection \<open>Releasing\<close>

lemma release_effect:
  assumes t: "tables_ok db" and run: "release_unsent_locked rid aid now db = Inr (u, db')"
  shows "\<exists>r r'. r \<in> set (reservations db) \<and> r_id r = rid \<and> r_attempt r = aid \<and> r_state r = Reserved
    \<and> r' = r\<lparr>r_state := Released, r_phase := Finished, r_reconciled_at := Some now\<rparr> \<and> reservation_check r'
    \<and> (call_of rid db = None \<and> db' = put_row r' db
       \<or> (\<exists>c c'. call_of rid db = Some c \<and> open_call ClaimBegun c
            \<and> c' = c\<lparr>c_outcome := Cancelled, c_phase := Finished, c_finished_at := Some now\<rparr> \<and> call_check c'
            \<and> db' = put_call c' (put_row r' db)))"
proof -
  let ?cs = "filter (\<lambda>c. c_reservation c = rid \<and> c_attempt c = aid) (calls db)"
  obtain res cs rows where f: "find (\<lambda>r. r_id r = rid \<and> r_attempt r = aid) (reservations db) = Some res" "proven_unsent res ?cs"
    and u2: "(case ?cs of [] \<Rightarrow> Inr (calls db) | c # _ \<Rightarrow> update_one call_check
        (\<lambda>x. c_id x = c_id c \<and> c_outcome x = Started \<and> c_ordering x = 1 \<and> c_phase x = ClaimBegun)
        (\<lambda>x. x\<lparr>c_outcome := Cancelled, c_phase := Finished, c_finished_at := Some now\<rparr>)
        SentReservationRequiresSettlement (calls db)) = Inr cs"
    and u1: "update_one reservation_check
        (\<lambda>r. r_id r = rid \<and> r_attempt r = aid \<and> r_state r = Reserved \<and> r_ordering r = 1 \<and> r_phase r = r_phase res)
        (\<lambda>r. r\<lparr>r_state := Released, r_phase := Finished, r_reconciled_at := Some now\<rparr>)
        SentReservationRequiresSettlement (reservations db) = Inr rows"
    and db': "db' = db\<lparr>reservations := rows, calls := cs\<rparr>"
    using run unfolding release_unsent_locked_def Let_def
    by (simp add: bindE_eq_Inr split: option.splits if_splits) blast
  let ?f = "\<lambda>r. r\<lparr>r_state := Released, r_phase := Finished, r_reconciled_at := Some now\<rparr>"
  obtain r where r: "r \<in> set (reservations db)" "r_id r = rid" "r_attempt r = aid" "r_state r = Reserved"
    "reservation_check (?f r)" "db\<lparr>reservations := rows\<rparr> = put_row (?f r) db"
    using update_one_put_row [OF u1 t] by auto
  have rr: "res = r" using find_SomeD [OF f(1)] reservation_key_unique [OF t r(1)] r(2) by simp
  have cs_eq: "?cs = (case call_of rid db of None \<Rightarrow> [] | Some c \<Rightarrow> [c])"
    using calls_filter [OF t r(1)] r(2,3) by simp
  show ?thesis
  proof (cases "call_of rid db")
    case None
    then have "cs = calls db" using u2 cs_eq by simp
    then have "db' = put_row (?f r) db" unfolding db' r(6) [symmetric] by simp
    then show ?thesis using None r(1-5) by blast
  next
    case (Some c)
    have oc: "open_call ClaimBegun c" using f(2) cs_eq Some rr by (auto simp: proven_unsent_def open_call_def)
    let ?g = "\<lambda>x. x\<lparr>c_outcome := Cancelled, c_phase := Finished, c_finished_at := Some now\<rparr>"
    have "update_one call_check (\<lambda>x. c_id x = c_id c \<and> c_outcome x = Started \<and> c_ordering x = 1 \<and> c_phase x = ClaimBegun) ?g
        SentReservationRequiresSettlement (calls db) = Inr cs" using u2 cs_eq Some by simp
    from update_one_put_call [OF this t] obtain x where x: "x \<in> set (calls db)" "c_id x = c_id c" "call_check (?g x)"
      "db\<lparr>calls := cs\<rparr> = put_call (?g x) db" by auto
    have "x = c" using call_key_unique [OF t _ x(1,2)] call_of_reservation [OF Some] by blast
    then have "db' = put_call (?g c) (put_row (?f r) db)" using put_both [OF r(6) x(4)] db' by simp
    then show ?thesis using Some oc r(1-5) x(3) \<open>x = c\<close> by blast
  qed
qed

lemma release_inv:
  assumes inv: "budget_inv cfg db" and run: "release_unsent_locked rid aid now db = Inr (u, db')"
  shows "budget_inv cfg db'"
proof -
  note t = inv_tables [OF inv]
  from release_effect [OF t run] obtain r r' where r: "r \<in> set (reservations db)" "r_id r = rid" "r_state r = Reserved"
    "r' = r\<lparr>r_state := Released, r_phase := Finished, r_reconciled_at := Some now\<rparr>" "reservation_check r'"
    and d: "call_of rid db = None \<and> db' = put_row r' db
       \<or> (\<exists>c c'. call_of rid db = Some c \<and> open_call ClaimBegun c
            \<and> c' = c\<lparr>c_outcome := Cancelled, c_phase := Finished, c_finished_at := Some now\<rparr> \<and> call_check c'
            \<and> db' = put_call c' (put_row r' db))" by blast
  have mb: "may_become r r'" using r by (simp add: may_become_def same_key_def)
  from d show ?thesis
  proof (elim disjE exE conjE)
    assume a: "call_of rid db = None" "db' = put_row r' db"
    show ?thesis unfolding a(2) by (rule inv_row_only_step [OF inv r(1) mb]) (use a r in \<open>simp add: pair_ok_def\<close>)
  next
    fix c c' assume a: "call_of rid db = Some c" "open_call ClaimBegun c"
      "c' = c\<lparr>c_outcome := Cancelled, c_phase := Finished, c_finished_at := Some now\<rparr>" "call_check c'" "db' = put_call c' (put_row r' db)"
    show ?thesis unfolding a(5)
      by (rule inv_pair_step [OF inv r(1) mb])
         (use a r call_of_reservation [OF a(1)] in
           \<open>auto simp: pair_ok_def same_call_def cancelled_call_def closed_call_def open_call_def\<close>)
  qed
qed

subsection \<open>Freezing\<close>

lemma insert_setting_or_keep_fields [simp]:
  "reservations (insert_setting_or_keep k v db) = reservations db" "calls (insert_setting_or_keep k v db) = calls db"
  "ledger (insert_setting_or_keep k v db) = ledger db"
  by (simp_all add: insert_setting_or_keep_def)

lemma insert_setting_or_keep_map:
  "map_of (settings (insert_setting_or_keep k v db)) j
     = (case map_of (settings db) j of Some w \<Rightarrow> Some w | None \<Rightarrow> if j = k then Some v else None)"
  by (auto simp: insert_setting_or_keep_def map_add_def split: option.splits)

lemma record_freeze_effect:
  assumes "record_freeze month reason tot hard rid db = Inr db'"
  shows "reservations db' = reservations db" "calls db' = calls db" "ledger db' = ledger db" "frozen_month month db'"
    "\<And>m. frozen_month m db \<Longrightarrow> frozen_month m db'"
    "\<And>k. k \<notin> {FreezeKey month, AlertKey month rid} \<Longrightarrow> map_of (settings db') k = map_of (settings db) k"
  using assms unfolding record_freeze_def Let_def
  by (auto simp: insert_setting_or_keep_map split: option.splits if_splits)

lemma same_tables_inv:
  assumes "budget_inv cfg db" "reservations db' = reservations db" "calls db' = calls db" "ledger db' = ledger db"
    "\<And>m. frozen_month m db \<Longrightarrow> frozen_month m db'"
  shows "budget_inv cfg db'"
  using assms unfolding budget_inv_def store_ok_def tables_ok_def cap_ok_def ledger_ok_def exposure_def call_of_def
  by (simp, blast)

lemma record_freeze_inv:
  assumes "budget_inv cfg db" "record_freeze month reason tot hard rid db = Inr db'" shows "budget_inv cfg db'"
  by (rule same_tables_inv [OF assms(1)]) (use record_freeze_effect [OF assms(2)] in auto)


subsection \<open>Settling\<close>

lemma settle_evidence_effect:
  assumes t: "tables_ok db" and r: "r \<in> set (reservations db)"
    and ev: "settle_evidence cfg r now db = Inr (cs, receipt, force)"
  shows "call_step db (db\<lparr>calls := cs\<rparr>) (r_id r)"
    "\<exists>c. call_of (r_id r) (db\<lparr>calls := cs\<rparr>) = Some c \<and> closed_call c"
    "receipt = None \<longleftrightarrow> force"
proof -
  obtain c where co: "call_of (r_id r) db = Some c"
    using ev calls_filter [OF t r] by (auto simp: settle_evidence_def split: option.splits if_splits)
  then have c: "c \<in> set (calls db)" "c_reservation c = r_id r" using call_of_reservation by blast+
  have one: "filter (\<lambda>c. c_reservation c = r_id r \<and> c_attempt c = r_attempt r) (calls db) = [c]"
    using calls_filter [OF t r] co by simp
  let ?g = "\<lambda>c. c\<lparr>c_outcome := Ambiguous, c_phase := Finished, c_finished_at := Some now\<rparr>"
  consider (closed) "cs = calls db" "closed_call c" "receipt = None \<longleftrightarrow> force"
    | (live) "no_receipt (c_receipt c)" "update_one call_check
         (\<lambda>x. c_id x = c_id c \<and> c_outcome x = Started \<and> c_ordering x = 1 \<and> c_phase x = c_phase c) ?g
         transport_quarantined (calls db) = Inr cs" "receipt = None" "force"
    using ev unfolding settle_evidence_def one Let_def
    by (auto simp: bindE_eq_Inr closed_call_def split: if_splits)
  then have "call_step db (db\<lparr>calls := cs\<rparr>) (r_id r) \<and> (\<exists>c. call_of (r_id r) (db\<lparr>calls := cs\<rparr>) = Some c \<and> closed_call c)
     \<and> (receipt = None \<longleftrightarrow> force)"
  proof cases
    case closed
    then show ?thesis using co by (simp add: call_step_def call_of_def)
  next
    case live
    from update_one_call [OF live(2) t] obtain x where x: "x \<in> set (calls db)" "c_id x = c_id c" "call_check (?g x)"
      "cs = map (\<lambda>y. if c_id y = c_id x then ?g x else y) (calls db)" by auto
    have xc: "x = c" using call_key_unique [OF t c(1) x(1,2)] .
    have sc: "same_call c (?g c)" by (simp add: same_call_def)
    have eq: "calls (db\<lparr>calls := cs\<rparr>) = map (\<lambda>y. if c_id y = c_id c then ?g c else y) (calls db)" using x(4) xc by simp
    have "call_of (r_id r) (db\<lparr>calls := cs\<rparr>) = Some (?g c)" using call_of_step [OF t c(1) sc eq] c(2) by simp
    moreover have "closed_call (?g c)" using live(1) by (simp add: closed_call_def)
    moreover have "call_step db (db\<lparr>calls := cs\<rparr>) (r_id r)"
      unfolding call_step_def eq using c sc x(3) xc by (intro disjI2 exI [of _ c] exI [of _ "?g c"]) simp
    ultimately show ?thesis using live(3,4) by blast
  qed
  then show "call_step db (db\<lparr>calls := cs\<rparr>) (r_id r)"
    "\<exists>c. call_of (r_id r) (db\<lparr>calls := cs\<rparr>) = Some c \<and> closed_call c" "receipt = None \<longleftrightarrow> force" by blast+
qed

lemma write_settlement_effect:
  assumes t: "tables_ok db" and r: "r \<in> set (reservations db)" "r_state r \<in> open_states"
    and run: "write_settlement cfg lid r cs receipt charged conservative monthly now db = Inr (s, db')"
  shows "\<exists>p l. reservation_check (settled_row charged now r) \<and> r_price r = Some p
    \<and> l = settlement_ledger_row cfg lid r p receipt charged conservative monthly now
    \<and> (\<forall>x \<in> set (ledger db). l_reservation x \<noteq> r_id r)
    \<and> s = \<lparr>s_reservation = r_id r, s_charged = charged, s_conservative = conservative, s_overrun = (charged > r_reserved r),
           s_frozen = (monthly > g_hard_limit cfg \<or> charged > r_reserved r)\<rparr>
    \<and> (case freeze_reason (monthly > g_hard_limit cfg) (charged > r_reserved r) of
         None \<Rightarrow> db' = (put_row (settled_row charged now r) db)\<lparr>calls := cs, ledger := ledger db @ [l]\<rparr>
       | Some why \<Rightarrow> record_freeze (r_month r) why (Some monthly) (g_hard_limit cfg) (r_id r)
              ((put_row (settled_row charged now r) db)\<lparr>calls := cs, ledger := ledger db @ [l]\<rparr>) = Inr db')"
proof -
  obtain rows p ls where u: "update_one reservation_check
        (\<lambda>x. r_id x = r_id r \<and> r_attempt x = r_attempt r \<and> r_state x \<in> open_states) (settled_row charged now)
        ReservationNotSettleable (reservations db) = Inr rows"
    and p: "r_price r = Some p"
    and ins: "sql_insert ledger_check ledger_conflict (settlement_ledger_row cfg lid r p receipt charged conservative monthly now)
        (ledger db) = Inr ls"
    and fin: "bindE (case freeze_reason (monthly > g_hard_limit cfg) (charged > r_reserved r) of
          None \<Rightarrow> Inr (db\<lparr>reservations := rows, calls := cs, ledger := ls\<rparr>)
        | Some why \<Rightarrow> record_freeze (r_month r) why (Some monthly) (g_hard_limit cfg) (r_id r)
            (db\<lparr>reservations := rows, calls := cs, ledger := ls\<rparr>)) (\<lambda>db2.
          Inr (\<lparr>s_reservation = r_id r, s_charged = charged, s_conservative = conservative,
                s_overrun = (charged > r_reserved r),
                s_frozen = (freeze_reason (monthly > g_hard_limit cfg) (charged > r_reserved r) \<noteq> None)\<rparr>, db2)) = Inr (s, db')"
    using run unfolding write_settlement_def Let_def by (auto simp: bindE_eq_Inr split: option.splits)
  obtain x where x: "x \<in> set (reservations db)" "r_id x = r_id r" "reservation_check (settled_row charged now x)"
      "db\<lparr>reservations := rows\<rparr> = put_row (settled_row charged now x) db"
    using update_one_put_row [OF u t] by (auto simp: settled_row_def)
  have xr: "x = r" using reservation_key_unique [OF t r(1) x(1,2)] .
  have ls: "ls = ledger db @ [settlement_ledger_row cfg lid r p receipt charged conservative monthly now]"
      "\<forall>x \<in> set (ledger db). l_reservation x \<noteq> r_id r"
    using ins unfolding sql_insert_Inr by (auto simp: ledger_conflict_def settlement_ledger_row_def)
  have dbeq: "db\<lparr>reservations := rows, calls := cs, ledger := ls\<rparr>
      = (put_row (settled_row charged now r) db)\<lparr>calls := cs, ledger := ls\<rparr>"
    using x(4) unfolding xr by (simp flip: x(4))
  have fr: "freeze_reason a b \<noteq> None \<longleftrightarrow> a \<or> b" for a b by (simp add: freeze_reason_def)
  show ?thesis using fin x(3) p ls unfolding dbeq fr xr
    by (auto simp: bindE_eq_Inr split: option.splits)
qed

lemma settle_effect:
  assumes t: "tables_ok db" and run: "settle_locked cfg lid rid aid now db = Inr (s, db')"
  shows "\<exists>r snapshot cs receipt force charged conservative monthly.
    r \<in> set (reservations db) \<and> r_id r = rid \<and> r_attempt r = aid \<and> r_state r \<in> open_states \<and> r_outcome r \<in> allowing
    \<and> require_pricing_snapshot (g_evidence cfg) r = Inr snapshot
    \<and> settle_evidence cfg r now db = Inr (cs, receipt, force)
    \<and> settle_charge snapshot (r_reserved r) receipt force = Inr (charged, conservative)
    \<and> total_amounts (BudgetEvidenceQuarantined ''budget_total_missing_unknown_overage'') charged
        (filter (\<lambda>r. r_id r \<noteq> rid) (month_rows (r_month r) db)) = Inr monthly
    \<and> write_settlement cfg lid r cs receipt charged conservative monthly now db = Inr (s, db')"
proof -
  obtain r where find: "find (\<lambda>r. r_id r = rid \<and> r_attempt r = aid) (reservations db) = Some r"
    and op: "r_state r \<in> open_states" "r_outcome r \<in> allowing"
    using run by (auto simp: settle_locked_def split: option.splits if_splits)
  show ?thesis using run op find_SomeD [OF find] unfolding settle_locked_def find
    by (intro exI [of _ r]) (auto simp: bindE_eq_Inr)
qed

lemma monthly_total:
  assumes t: "tables_ok db" and r: "r \<in> set (reservations db)" "r_state r \<in> open_states" "reservation_check (settled_row charged now r)"
    and tot: "total_amounts e charged (filter (\<lambda>x. r_id x \<noteq> r_id r) (month_rows (r_month r) db)) = Inr monthly"
    and db': "reservations db' = reservations (put_row (settled_row charged now r) db)"
  shows "exposure (r_month r) db' = monthly" "m \<noteq> r_month r \<Longrightarrow> exposure m db' = exposure m db"
proof -
  let ?r = "settled_row charged now r"
  have row: "row_step db db' r ?r"
    using r by (simp add: row_step_def db' put_row_def settled_row_def same_key_def)
  have "\<forall>x \<in> set (filter (\<lambda>x. r_id x \<noteq> r_id r) (month_rows (r_month r) db)). counted_amount x \<noteq> None"
    using t counted_amount_some by (auto simp: month_rows_def tables_ok_def)
  then have m: "monthly = charged + sum_list (map (\<lambda>x. the (counted_amount x)) (filter (\<lambda>x. r_id x \<noteq> r_id r) (month_rows (r_month r) db)))"
    by (rule total_amounts_Inr [OF tot])
  have d: "distinct (map r_id (month_rows (r_month r) db))" "r \<in> set (month_rows (r_month r) db)"
    using t r by (auto simp: month_rows_def tables_ok_def distinct_map_filter)
  have "exposure (r_month r) db = the (counted_amount r)
      + sum_list (map (\<lambda>x. the (counted_amount x)) (filter (\<lambda>x. r_id x \<noteq> r_id r) (month_rows (r_month r) db)))"
    unfolding exposure_month_rows by (rule sum_list_others [OF d])
  moreover have "contrib (r_month r) r = the (counted_amount r)" "contrib (r_month r) ?r = charged"
    using r by (auto simp: contrib_def settled_row_def counted_amount_def)
  ultimately show "exposure (r_month r) db' = monthly" using exposure_row_step [OF t row, of "r_month r"] m by simp
  show "exposure m db' = exposure m db" if "m \<noteq> r_month r"
    using exposure_row_step [OF t row, of m] that by (simp add: contrib_def settled_row_def)
qed


lemma ledger_settle_step:
  assumes ok: "ledger_ok db" and t: "tables_ok db" and row: "row_step db db' r r'" and r: "r_state r \<in> open_states" "r_state r' = Settled"
    and l: "ledger db' = ledger db @ [l]" "ledger_parent l r'" "\<forall>x \<in> set (ledger db). l_reservation x \<noteq> r_id r"
  shows "ledger_ok db'"
proof -
  have k: "r_id r' = r_id r" using row by (simp add: row_step_def same_key_def)
  have r': "r' \<in> set (reservations db')" using row by (force simp: row_step_def)
  have "\<exists>x \<in> set (reservations db'). ledger_parent y x \<and> r_state x = Settled" if y: "y \<in> set (ledger db)" for y
  proof -
    obtain x where x: "x \<in> set (reservations db)" "ledger_parent y x" "r_state x = Settled"
      using ok y by (auto simp: ledger_ok_def)
    then have "r_id x \<noteq> r_id r" using l(3) y by (auto simp: ledger_parent_def)
    then have "x \<in> set (reservations db')" using x(1) row by (force simp: row_step_def)
    then show ?thesis using x by blast
  qed
  moreover have "(\<exists>y \<in> set (ledger db @ [l]). l_reservation y = r_id x) \<or> r_charged x = Some (r_reserved x)"
    if "x \<in> set (reservations db')" "r_state x = Settled" for x
    using row_step_mem [OF row t that(1)] that(2) ok l(2) k by (auto simp: ledger_ok_def ledger_parent_def)
  moreover have "distinct (map l_reservation (ledger db @ [l]))"
    using ok l(2,3) k by (auto simp: ledger_ok_def ledger_parent_def)
  ultimately show ?thesis unfolding ledger_ok_def l(1) using r' r(2) l(2) by auto
qed

lemma settlement_parent:
  "r_price r = Some p \<Longrightarrow>
   ledger_parent (settlement_ledger_row cfg lid r p receipt charged conservative monthly now) (settled_row charged now r)"
  by (simp add: ledger_parent_def settlement_ledger_row_def settled_row_def)

lemma settle_inv:
  assumes inv: "budget_inv cfg db" and run: "settle_locked cfg lid rid aid now db = Inr (s, db')"
  shows "budget_inv cfg db'"
proof -
  note t = inv_tables [OF inv]
  obtain r cs receipt force charged conservative monthly e where
    r: "r \<in> set (reservations db)" "r_id r = rid" "r_state r \<in> open_states"
    and ev: "settle_evidence cfg r now db = Inr (cs, receipt, force)"
    and tot: "total_amounts e charged (filter (\<lambda>x. r_id x \<noteq> r_id r) (month_rows (r_month r) db)) = Inr monthly"
    and w: "write_settlement cfg lid r cs receipt charged conservative monthly now db = Inr (s, db')"
    using settle_effect [OF t run] by blast
  let ?r = "settled_row charged now r"
  obtain p where p: "reservation_check ?r" "r_price r = Some p" "\<forall>x \<in> set (ledger db). l_reservation x \<noteq> r_id r"
    and fin: "case freeze_reason (monthly > g_hard_limit cfg) (charged > r_reserved r) of
         None \<Rightarrow> db' = (put_row ?r db)\<lparr>calls := cs,
           ledger := ledger db @ [settlement_ledger_row cfg lid r p receipt charged conservative monthly now]\<rparr>
       | Some why \<Rightarrow> record_freeze (r_month r) why (Some monthly) (g_hard_limit cfg) (r_id r) ((put_row ?r db)\<lparr>calls := cs,
           ledger := ledger db @ [settlement_ledger_row cfg lid r p receipt charged conservative monthly now]\<rparr>) = Inr db'"
    using write_settlement_effect [OF t r(1,3) w] by blast
  define l where "l = settlement_ledger_row cfg lid r p receipt charged conservative monthly now"
  define db1 where "db1 = (put_row ?r db)\<lparr>calls := cs, ledger := ledger db @ [l]\<rparr>"
  have tabs: "reservations db' = reservations db1" "calls db' = calls db1" "ledger db' = ledger db1"
    and fz: "\<And>m. frozen_month m db \<Longrightarrow> frozen_month m db'" "monthly > g_hard_limit cfg \<Longrightarrow> frozen_month (r_month r) db'"
    using fin record_freeze_effect [of "r_month r" _ _ _ _ db1 db'] unfolding l_def [symmetric] db1_def [symmetric]
    by (auto simp: db1_def freeze_reason_def split: if_splits option.splits)
  have row: "row_step db db' r ?r"
    using r p(1) tabs(1) by (simp add: row_step_def db1_def put_row_def settled_row_def same_key_def)
  note sev = settle_evidence_effect [OF t r(1) ev]
  have cs: "calls db' = cs" using tabs(2) by (simp add: db1_def)
  have call: "call_step db db' (r_id r)" using sev(1) cs by (simp add: call_step_def)
  have "call_of (r_id r) db' = call_of (r_id r) (db\<lparr>calls := cs\<rparr>)" using cs by (simp add: call_of_def)
  then have "pair_ok ?r (call_of (r_id r) db')" using sev(2) by (auto simp: pair_ok_def settled_row_def)
  then have "store_ok db'" using store_row_step [OF _ row call] inv by (simp add: budget_inv_def)
  moreover have "cap_ok cfg db'" unfolding cap_ok_def
  proof
    fix m
    have rdb: "reservations db' = reservations (put_row ?r db)" using tabs(1) by (simp add: db1_def)
    note tm = monthly_total [OF t r(1,3) p(1) tot rdb]
    have "exposure m db \<le> g_hard_limit cfg \<or> frozen_month m db" using inv by (simp add: budget_inv_def cap_ok_def)
    then show "exposure m db' \<le> g_hard_limit cfg \<or> frozen_month m db'"
      using tm(1) tm(2) [of m] fz by (cases "m = r_month r") fastforce+
  qed
  moreover have "ledger_ok db'"
    by (rule ledger_settle_step [OF _ t row r(3)])
       (use inv p tabs(3) settlement_parent [OF p(2)] in \<open>auto simp: budget_inv_def db1_def l_def settled_row_def\<close>)
  ultimately show ?thesis by (simp add: budget_inv_def)
qed


subsection \<open>Reserving\<close>

lemma insert_setting_effect:
  assumes "insert_setting k v db = Inr db'"
  shows "reservations db' = reservations db" "calls db' = calls db" "ledger db' = ledger db"
    "map_of (settings db) k = None" "map_of (settings db') = (map_of (settings db))(k \<mapsto> v)"
  using assms by (auto simp: insert_setting_def map_add_def fun_eq_iff split: if_splits option.splits)

definition reservation_row_of ::
    "guard_cfg \<Rightarrow> uuid \<Rightarrow> reservation_request \<Rightarrow> (price_quote \<times> signed_snapshot) option \<Rightarrow> budget_outcome \<Rightarrow> instant \<Rightarrow> reservation_row" where
  "reservation_row_of cfg rid q priced outcome now =
     \<lparr>r_id = rid, r_request = q_request q, r_attempt = q_attempt q, r_month = rq_month q,
      r_category = rq_category q, r_provider = rq_provider q, r_model = rq_model q, r_outcome = outcome,
      r_reserved = (if outcome \<in> allowing then case priced of None \<Rightarrow> 0 | Some (quo, _) \<Rightarrow> q_amount quo else 0),
      r_charged = None, r_usage_json = canon_usage (g_evidence cfg) (rq_usage q),
      r_price = map_option (\<lambda>(quo, s). price_columns_of quo s)
        (if outcome \<in> {DenyUnknownPrice, DenyCloudEgressFrozen} then None else priced), r_overrun = False,
      r_state = (if outcome \<in> allowing then Reserved else Denied), r_ordering = 1, r_phase = NotClaimed, r_created_at = now,
      r_expires_at = now + g_expiry cfg, r_settled_at = None, r_reconciled_at = None\<rparr>"

lemma reserve_effect:
  assumes t: "tables_ok db" and run: "reserve_locked cfg rid q purpose priced now db = Inr (b, db')"
  shows "\<exists>row amt outcome. row = reservation_row_of cfg rid q priced outcome now
    \<and> amt = (case priced of None \<Rightarrow> 0 | Some (quo, _) \<Rightarrow> q_amount quo)
    \<and> outcome = decide_outcome (frozen_month (rq_month q) db) (priced = None) (exposure (rq_month q) db + amt)
         (g_hard_limit cfg) (g_soft_limit cfg) (map_of (settings db) (WarningKey (rq_month q)) \<noteq> None)
    \<and> reservation_check row \<and> (\<forall>x \<in> set (reservations db). \<not> reservation_conflict x row)
    \<and> reservations db' = reservations db @ [row] \<and> calls db' = calls db \<and> ledger db' = ledger db
    \<and> b_outcome b = outcome \<and> b_amount b = r_reserved row \<and> b_reservation b = rid
    \<and> map_of (settings db') = (if outcome = AllowSoftWarning
         then (map_of (settings db))(TurnKey rid \<mapsto> TurnValue \<lparr>tb_household = q_household q, tb_turn = q_turn q,
           tb_request = q_request q, tb_attempt = q_attempt q\<rparr>, WarningKey (rq_month q) \<mapsto> EmittedValue)
         else (map_of (settings db))(TurnKey rid \<mapsto> TurnValue \<lparr>tb_household = q_household q, tb_turn = q_turn q,
           tb_request = q_request q, tb_attempt = q_attempt q\<rparr>))"
proof -
  let ?amt = "case priced of None \<Rightarrow> 0 | Some (quo, _) \<Rightarrow> q_amount quo"
  let ?b = "TurnValue \<lparr>tb_household = q_household q, tb_turn = q_turn q, tb_request = q_request q, tb_attempt = q_attempt q\<rparr>"
  obtain tot where tot: "total_amounts (PermissionErr ''budget_terminal_amount_missing'') 0 (month_rows (rq_month q) db) = Inr tot"
    using run unfolding reserve_locked_def Let_def by (auto simp: bindE_eq_Inr)
  have "\<forall>x \<in> set (month_rows (rq_month q) db). counted_amount x \<noteq> None"
    using t counted_amount_some by (auto simp: month_rows_def tables_ok_def)
  from total_amounts_Inr [OF tot this] have tt: "tot = exposure (rq_month q) db" by (simp add: exposure_month_rows)
  define outcome where "outcome = decide_outcome (frozen_month (rq_month q) db) (priced = None) (exposure (rq_month q) db + ?amt)
         (g_hard_limit cfg) (g_soft_limit cfg) (map_of (settings db) (WarningKey (rq_month q)) \<noteq> None)"
  define row where "row = reservation_row_of cfg rid q priced outcome now"
  obtain rows db1 db2 where ins: "sql_insert reservation_check reservation_conflict row (reservations db) = Inr rows"
    and s1: "insert_setting (TurnKey rid) ?b (db\<lparr>reservations := rows\<rparr>) = Inr db1"
    and s2: "(if outcome = AllowSoftWarning then insert_setting (WarningKey (rq_month q)) EmittedValue db1 else Inr db1) = Inr db2"
    and b: "b_outcome b = outcome" "b_amount b = r_reserved row" "b_reservation b = rid" "db' = db2"
    using run tot unfolding reserve_locked_def Let_def
    by (auto simp: bindE_eq_Inr lift_py_def checked_add_def tt row_def reservation_row_of_def outcome_def split: if_splits)
  note i = ins [unfolded sql_insert_Inr] and e1 = insert_setting_effect [OF s1]
  have "reservations db' = rows" "calls db' = calls db" "ledger db' = ledger db"
    "map_of (settings db') = (if outcome = AllowSoftWarning
       then (map_of (settings db))(TurnKey rid \<mapsto> ?b, WarningKey (rq_month q) \<mapsto> EmittedValue)
       else (map_of (settings db))(TurnKey rid \<mapsto> ?b))"
    using s2 e1 insert_setting_effect [of "WarningKey (rq_month q)" EmittedValue db1 db2] b(4)
    by (auto split: if_splits)
  then show ?thesis using i b unfolding row_def outcome_def by blast
qed


lemma decide_allowing:
  "decide_outcome frozen unknown projected hard soft warned \<in> allowing
     \<longleftrightarrow> \<not> frozen \<and> \<not> unknown \<and> projected \<le> hard"
  by (auto simp: decide_outcome_def)

lemma reserve_store:
  assumes ok: "store_ok db" and row: "reservation_check row" "\<forall>x \<in> set (reservations db). \<not> reservation_conflict x row"
    "r_phase row = NotClaimed" "r_state row \<in> {Reserved, Denied}"
    and db': "reservations db' = reservations db @ [row]" "calls db' = calls db"
  shows "store_ok db'"
proof -
  have t: "tables_ok db" using ok by (simp add: store_ok_def)
  have "tables_ok db'" using t row unfolding tables_ok_def db' reservation_conflict_def by auto
  moreover have co: "call_of rid db' = call_of rid db" for rid by (simp add: call_of_def db')
  moreover have "call_of (r_id row) db = None"
  proof (cases "call_of (r_id row) db")
    case (Some c)
    then have c: "c \<in> set (calls db)" "c_reservation c = r_id row" using call_of_reservation by blast+
    then obtain r where "r \<in> set (reservations db)" "call_parent c r" using t unfolding tables_ok_def by blast
    then show ?thesis using row(2) c(2) by (auto simp: call_parent_def reservation_conflict_def)
  qed
  ultimately show ?thesis using ok row(3,4) by (auto simp: store_ok_def db'(1) pair_ok_def)
qed

lemma reserve_freeze:
  assumes "tables_ok db" "reserve_locked cfg rid q purpose priced now db = Inr (b, db')"
  shows "map_of (settings db') (FreezeKey m) = map_of (settings db) (FreezeKey m)"
  using reserve_effect [OF assms] by (elim exE conjE) simp

lemma reserve_inv:
  assumes inv: "budget_inv cfg db" and run: "reserve_locked cfg rid q purpose priced now db = Inr (b, db')"
  shows "budget_inv cfg db'"
proof -
  obtain row amt outcome where e: "row = reservation_row_of cfg rid q priced outcome now"
    "amt = (case priced of None \<Rightarrow> 0 | Some (quo, _) \<Rightarrow> q_amount quo)"
    "outcome = decide_outcome (frozen_month (rq_month q) db) (priced = None) (exposure (rq_month q) db + amt)
         (g_hard_limit cfg) (g_soft_limit cfg) (map_of (settings db) (WarningKey (rq_month q)) \<noteq> None)"
    "reservation_check row" "\<forall>x \<in> set (reservations db). \<not> reservation_conflict x row"
    "reservations db' = reservations db @ [row]" "calls db' = calls db" "ledger db' = ledger db"
    using reserve_effect [OF inv_tables [OF inv] run] by (elim exE conjE) (rule that; assumption)
  note st = reserve_freeze [OF inv_tables [OF inv] run]
  have state: "r_state row = (if outcome \<in> allowing then Reserved else Denied)" "r_phase row = NotClaimed"
    "r_month row = rq_month q" "r_reserved row = (if outcome \<in> allowing then amt else 0)"
    using e(1,2) by (simp_all add: reservation_row_of_def)
  have "store_ok db'"
    by (rule reserve_store [OF _ e(4,5) state(2) _ e(6,7)]) (use inv state(1) in \<open>auto simp: budget_inv_def\<close>)
  moreover have "cap_ok cfg db'" unfolding cap_ok_def
  proof
    fix m
    have x: "exposure m db' = exposure m db + contrib m row" by (simp add: exposure_def e(6))
    have old: "exposure m db \<le> g_hard_limit cfg \<or> frozen_month m db" using inv by (simp add: budget_inv_def cap_ok_def)
    show "exposure m db' \<le> g_hard_limit cfg \<or> frozen_month m db'"
    proof (cases "outcome \<in> allowing \<and> m = rq_month q")
      case True
      then have "exposure m db + amt \<le> g_hard_limit cfg" unfolding e(3) decide_allowing by simp
      moreover have "contrib m row = amt" using True state by (auto simp: contrib_def counted_amount_def)
      ultimately show ?thesis using x by simp
    next
      case False
      then have "contrib m row = 0" using state by (auto simp: contrib_def)
      then show ?thesis using x old st by simp
    qed
  qed
  moreover have "ledger_ok db'" using inv state(1) by (auto simp: budget_inv_def ledger_ok_def e(6,8))
  ultimately show ?thesis by (simp add: budget_inv_def)
qed

subsection \<open>Revoking\<close>

text \<open>
  Between closing the calls and settling their reservations, the reservations in \<open>pending\<close> are sent while
  their call is already closed.
\<close>

definition pair_upto :: "uuid list \<Rightarrow> reservation_row \<Rightarrow> call_row option \<Rightarrow> bool" where
  "pair_upto pending r co \<longleftrightarrow> pair_ok r co
     \<or> r_id r \<in> set pending \<and> r_state r = Sent \<and> (\<exists>c. co = Some c \<and> closed_call c)"

definition inv_upto :: "guard_cfg \<Rightarrow> uuid list \<Rightarrow> core_db \<Rightarrow> bool" where
  "inv_upto cfg pending db \<longleftrightarrow> tables_ok db \<and> cap_ok cfg db \<and> ledger_ok db
     \<and> (\<forall>r \<in> set (reservations db). pair_upto pending r (call_of (r_id r) db))
     \<and> (\<forall>rid \<in> set pending. \<exists>c. call_of rid db = Some c \<and> closed_call c)"

lemma inv_upto_Nil: "inv_upto cfg [] db \<longleftrightarrow> budget_inv cfg db"
  by (auto simp: inv_upto_def budget_inv_def store_ok_def pair_upto_def)

lemma pair_upto_mono: "pair_upto pending r co \<Longrightarrow> set pending \<subseteq> set pending' \<Longrightarrow> pair_upto pending' r co"
  by (auto simp: pair_upto_def)

lemma put_call_upto:
  assumes inv: "inv_upto cfg pending db" and c: "c \<in> set (calls db)" "same_call c c'" "call_check c'" "closed_call c'"
    and pend: "set pending \<subseteq> set pending'" "set pending' \<subseteq> insert (c_reservation c) (set pending)"
    and pair: "\<And>r. r \<in> set (reservations db) \<Longrightarrow> r_id r = c_reservation c \<Longrightarrow> pair_upto pending' r (Some c')"
  shows "inv_upto cfg pending' (put_call c' db)"
proof -
  have t: "tables_ok db" using inv by (simp add: inv_upto_def)
  have eq: "calls (put_call c' db) = map (\<lambda>x. if c_id x = c_id c then c' else x) (calls db)"
    using c(2) by (simp add: put_call_def same_call_def)
  have "tables_ok (put_call c' db)"
    by (rule tables_update [OF t, where P = "\<lambda>_. False" and f = id and Q = "\<lambda>x. x = c" and g = "\<lambda>_. c'"])
       (use c call_key_unique [OF t c(1)] in \<open>auto simp: eq\<close>)
  moreover have "pair_upto pending' r (call_of (r_id r) (put_call c' db))" if "r \<in> set (reservations db)" for r
    using call_of_step [OF t c(1,2) eq, of "r_id r"] pair [OF that] inv that pair_upto_mono [OF _ pend(1)]
    by (auto simp: inv_upto_def)
  moreover have "\<exists>x. call_of rid (put_call c' db) = Some x \<and> closed_call x" if "rid \<in> set pending'" for rid
    using call_of_step [OF t c(1,2) eq, of rid] that pend(2) c(4) inv by (auto simp: inv_upto_def)
  ultimately show ?thesis using inv by (simp add: inv_upto_def cap_ok_def ledger_ok_def exposure_def)
qed

lemma put_row_upto:
  assumes inv: "inv_upto cfg (rid # pending) db" and r: "r \<in> set (reservations db)" "r_id r = rid" "may_become r r'"
    and pair: "pair_ok r' (call_of rid db)"
  shows "inv_upto cfg pending (put_row r' db)"
proof -
  have t: "tables_ok db" using inv by (simp add: inv_upto_def)
  have chk: "reservation_check r" using t r(1) by (simp add: tables_ok_def)
  have row: "row_step db (put_row r' db) r r'"
    using r by (simp add: row_step_def may_become_def put_row_def same_key_def)
  have k: "r_id r' = r_id r" using r(3) by (simp add: may_become_def same_key_def)
  have rows: "reservations (put_row r' db) = map (\<lambda>x. if x = r then r' else x) (reservations db)"
    unfolding put_row_def k using reservation_key_unique [OF t r(1)] by auto
  have "tables_ok (put_row r' db)"
    by (rule tables_update [OF t, where P = "\<lambda>x. x = r" and f = "\<lambda>_. r'" and Q = "\<lambda>_. False" and g = id])
       (use r(3) k rows in \<open>simp_all add: may_become_def\<close>)
  moreover have "cap_ok cfg (put_row r' db)"
    by (rule cap_row_step [OF _ t row may_become_contrib [OF r(3) chk]]) (use inv in \<open>auto simp: inv_upto_def\<close>)
  moreover have "ledger_ok (put_row r' db)"
    by (rule ledger_row_step [OF _ t row]) (use inv r(3) in \<open>auto simp: inv_upto_def may_become_def\<close>)
  moreover have "pair_upto pending x (call_of (r_id x) (put_row r' db))" if x: "x \<in> set (reservations (put_row r' db))" for x
  proof -
    have co: "call_of k (put_row r' db) = call_of k db" for k by (simp add: call_of_def)
    from row_step_mem [OF row t x] show ?thesis
    proof (elim disjE conjE)
      assume "x = r'"
      then show ?thesis using pair co r by (simp add: pair_upto_def may_become_def same_key_def)
    next
      assume "x \<in> set (reservations db)" "r_id x \<noteq> r_id r"
      then show ?thesis using inv co r(2) by (auto simp: inv_upto_def pair_upto_def)
    qed
  qed
  moreover have "\<forall>k \<in> set pending. \<exists>c. call_of k (put_row r' db) = Some c \<and> closed_call c"
    using inv by (simp add: inv_upto_def call_of_def)
  ultimately show ?thesis by (simp add: inv_upto_def)
qed


lemma sql_update_call:
  assumes t: "tables_ok db" and c: "c \<in> set (calls db)" "P c" "\<And>x. P x \<Longrightarrow> c_id x = c_id c"
    and up: "sql_update call_check P f (calls db) = Inr (n, cs)" and k: "c_id (f c) = c_id c"
  shows "db\<lparr>calls := cs\<rparr> = put_call (f c) db" "call_check (f c)"
proof -
  have "(if P x then f x else x) = (if c_id x = c_id (f c) then f c else x)" if "x \<in> set (calls db)" for x
  proof (cases "P x")
    case True
    then have "x = c" using call_key_unique [OF t c(1) that c(3)] by blast
    then show ?thesis using c(2) k by simp
  next
    case False
    then have "c_id x \<noteq> c_id c" using call_key_unique [OF t c(1) that] c(2) by blast
    then show ?thesis using False k by simp
  qed
  then show "db\<lparr>calls := cs\<rparr> = put_call (f c) db" using up by (auto simp: sql_update_def put_call_def split: if_splits)
  show "call_check (f c)" using up c(1,2) by (auto simp: sql_update_def list_all_iff split: if_splits)
qed

text \<open>Closing one revoked call: an unsent call is cancelled, a sent one leaves its reservation pending.\<close>

lemma close_call_upto:
  assumes inv: "inv_upto cfg started db" and c: "c \<in> set (calls db)" "c_outcome c = Started"
    and c': "c' = c\<lparr>c_outcome := (if c_phase c = ClaimBegun then Cancelled else Ambiguous), c_phase := Finished,
               c_finished_at := Some now\<rparr>" "call_check c'"
  shows "inv_upto cfg (if c_phase c = ClaimBegun then started else started @ [c_reservation c]) (put_call c' db)"
proof (rule put_call_upto [OF inv c(1) _ c'(2)])
  have t: "tables_ok db" using inv by (simp add: inv_upto_def)
  obtain r where r: "r \<in> set (reservations db)" "call_parent c r" "call_of (r_id r) db = Some c"
    using call_parent_of [OF t c(1)] by blast
  then have "pair_upto started r (Some c)" using inv by (auto simp: inv_upto_def)
  then have "no_receipt (c_receipt c)" using c(2)
    by (auto simp: pair_upto_def pair_ok_def open_call_def closed_call_def cancelled_call_def split: reservation_state.splits)
  then show "closed_call c'" using c'(1) by (simp add: closed_call_def)
next
  fix r assume r: "r \<in> set (reservations db)" "r_id r = c_reservation c"
  have t: "tables_ok db" using inv by (simp add: inv_upto_def)
  have "pair_upto started r (Some c)" using inv r call_of_mem [OF t c(1)] by (auto simp: inv_upto_def)
  then have p: "pair_ok r (Some c)" using c(2) by (auto simp: pair_upto_def closed_call_def)
  show "pair_upto (if c_phase c = ClaimBegun then started else started @ [c_reservation c]) r (Some c')"
  proof (cases "c_phase c = ClaimBegun")
    case True
    then have "r_state r = Reserved" "r_phase r = ClaimBegun" "no_receipt (c_receipt c)"
      using p c(2) by (auto simp: pair_ok_def open_call_def closed_call_def cancelled_call_def split: reservation_state.splits)
    then show ?thesis using c'(1) True by (simp add: pair_upto_def pair_ok_def cancelled_call_def closed_call_def)
  next
    case False
    then have "r_state r = Sent" "no_receipt (c_receipt c)"
      using p c(2) by (auto simp: pair_ok_def open_call_def closed_call_def cancelled_call_def split: reservation_state.splits)
    then show ?thesis using c'(1) False r(2) by (auto simp: pair_upto_def closed_call_def)
  qed
qed (use c'(1) in \<open>auto simp: same_call_def\<close>)

lemma close_revoked_upto:
  assumes "inv_upto cfg started db" "close_revoked subject now rest started db = Inr (rids, db')"
    "set rest \<subseteq> set (calls db)" "distinct (map c_id rest)" "\<forall>c \<in> set rest. c_outcome c = Started"
  shows "inv_upto cfg rids db' \<and> settings db' = settings db"
  using assms
proof (induction rest arbitrary: started db)
  case (Cons c rest)
  note prems = Cons.prems
  have t: "tables_ok db" using prems(1) by (simp add: inv_upto_def)
  obtain env where env: "map_of (settings db) (RouteKey (c_authorization c)) = Some (RouteValue env)"
    using prems(2) by (auto split: option.splits setting_value.splits)
  show ?case
  proof (cases "env_subject env = Some subject")
    case False
    then have "close_revoked subject now rest started db = Inr (rids, db')" using prems(2) env by (auto split: if_splits)
    then show ?thesis using Cons.IH [OF prems(1)] prems by simp
  next
    case True
    let ?P = "\<lambda>x. c_id x = c_id c \<and> c_outcome x = Started \<and> c_phase x = c_phase c"
    let ?f = "\<lambda>x. x\<lparr>c_outcome := (if c_phase c = ClaimBegun then Cancelled else Ambiguous), c_phase := Finished,
        c_finished_at := Some now\<rparr>"
    let ?started = "if c_phase c = ClaimBegun then started else started @ [c_reservation c]"
    obtain n cs where up: "sql_update call_check ?P ?f (calls db) = Inr (n, cs)"
      and rec: "close_revoked subject now rest ?started (db\<lparr>calls := cs\<rparr>) = Inr (rids, db')"
      using prems(2) env True by (auto simp: bindE_eq_Inr split: if_splits)
    have c: "c \<in> set (calls db)" "c_outcome c = Started" using prems by simp_all
    note up' = sql_update_call [OF t c(1), of ?P ?f n cs, OF _ _ up]
    have dbeq: "db\<lparr>calls := cs\<rparr> = put_call (?f c) db" "call_check (?f c)"
      using up' c(2) by simp_all
    have inv: "inv_upto cfg ?started (put_call (?f c) db)" using close_call_upto [OF prems(1) c refl dbeq(2)] .
    have sub: "set rest \<subseteq> set (calls (put_call (?f c) db))"
    proof
      fix d assume d: "d \<in> set rest"
      then have "c_id d \<noteq> c_id (?f c)" "d \<in> set (calls db)" using prems(3,4) by (auto simp: image_iff)
      then show "d \<in> set (calls (put_call (?f c) db))" unfolding put_call_def by (auto simp: image_iff)
    qed
    show ?thesis using Cons.IH [OF inv rec [unfolded dbeq(1)] sub] prems(4,5) by simp
  qed
qed simp

lemma settle_one_revoked:
  assumes inv: "inv_upto cfg (rid # pending) db" and run: "require_conservative_settlement rid now db = Inr db'"
  shows "inv_upto cfg pending db' \<and> settings db' = settings db"
proof -
  have t: "tables_ok db" using inv by (simp add: inv_upto_def)
  let ?P = "\<lambda>r. r_id r = rid \<and> r_state r \<in> open_states"
  let ?f = "\<lambda>r. r\<lparr>r_state := Settled, r_phase := Finished, r_charged := Some (r_reserved r), r_settled_at := Some now\<rparr>"
  let ?rows = "map (\<lambda>r. if ?P r then ?f r else r) (reservations db)"
  have chk: "list_all (\<lambda>r. ?P r \<longrightarrow> reservation_check (?f r)) (reservations db)"
    and res: "db' = db\<lparr>reservations := ?rows\<rparr>"
    using run by (auto simp: require_conservative_settlement_def settle_budget_reservation_def sql_update_def bindE_eq_Inr
        split: if_splits option.splits)
  show ?thesis
  proof (cases "\<exists>r \<in> set (reservations db). ?P r")
    case True
    then obtain r where r: "r \<in> set (reservations db)" "r_id r = rid" "r_state r \<in> open_states" by blast
    have "(if ?P x then ?f x else x) = (if r_id x = r_id (?f r) then ?f r else x)" if "x \<in> set (reservations db)" for x
    proof (cases "x = r")
      case False
      then have "r_id x \<noteq> r_id r" using reservation_key_unique [OF t r(1) that] by blast
      then show ?thesis using r(2) by simp
    qed (use r in simp)
    then have eq: "db' = put_row (?f r) db" unfolding res put_row_def by simp
    have mb: "may_become r (?f r)" using chk r by (simp add: may_become_def same_key_def list_all_iff)
    have sent: "\<exists>c. call_of rid db = Some c \<and> closed_call c" using inv by (simp add: inv_upto_def)
    have "pair_ok (?f r) (call_of rid db)" using sent by (simp add: pair_ok_def)
    then show ?thesis using put_row_upto [OF inv r(1,2) mb] eq by simp
  next
    case False
    then have "?rows = reservations db" by (intro map_idI) meson
    then have "db' = db" using res by simp
    moreover have "pair_upto pending x (call_of (r_id x) db)" if x: "x \<in> set (reservations db)" for x
    proof -
      have "pair_upto (rid # pending) x (call_of (r_id x) db)" using inv x unfolding inv_upto_def by blast
      moreover have "\<not> (r_id x = rid \<and> r_state x = Sent)" using False x by blast
      ultimately show ?thesis by (auto simp: pair_upto_def)
    qed
    then have "inv_upto cfg pending db" using inv unfolding inv_upto_def by simp
    ultimately show ?thesis by simp
  qed
qed


lemma settle_revoked_upto:
  assumes "inv_upto cfg rids db" "settle_revoked now rids db = Inr db'"
  shows "budget_inv cfg db' \<and> settings db' = settings db"
  using assms
proof (induction rids arbitrary: db)
  case (Cons rid rids)
  then obtain db1 where "require_conservative_settlement rid now db = Inr db1" "settle_revoked now rids db1 = Inr db'"
    by (auto simp: bindE_eq_Inr)
  then show ?case using Cons.IH [of db1] settle_one_revoked [OF Cons.prems(1)] by simp
qed (simp add: inv_upto_Nil)

lemma revoke_effect:
  assumes inv: "budget_inv cfg db" and run: "revoke_subject_locked subject now db = Inr (rids, db')"
  shows "budget_inv cfg db' \<and> settings db' = settings db"
proof -
  let ?rest = "filter (\<lambda>c. c_outcome c = Started) (calls db)"
  obtain db1 where c: "close_revoked subject now ?rest [] db = Inr (rids, db1)" "settle_revoked now rids db1 = Inr db'"
    using run by (auto simp: revoke_subject_locked_def bindE_eq_Inr)
  have "inv_upto cfg rids db1 \<and> settings db1 = settings db"
    by (rule close_revoked_upto [OF _ c(1)])
       (use inv inv_tables [OF inv] in \<open>auto simp: inv_upto_Nil tables_ok_def distinct_map_filter\<close>)
  then show ?thesis using settle_revoked_upto [OF _ c(2), where cfg = cfg] by simp
qed

end
