(* ===== verification/Budget_Frame.thy ===== *)
theory Budget_Frame
  imports Budget_Invariant
begin

text \<open>
  What the operations leave alone. A reservation in a terminal state is never changed again. A claim whose
  call was cancelled by a revocation while its reservation stays claimed is not touched by any operation.
  A provider call never disappears, never moves back to an earlier transport phase, and is not changed any
  more once it is closed.
\<close>

definition keeps_terminal :: "core_db \<Rightarrow> core_db \<Rightarrow> bool" where
  "keeps_terminal db db' \<longleftrightarrow>
     (\<forall>x \<in> set (reservations db). r_state x \<in> terminal_states \<longrightarrow> x \<in> set (reservations db'))"

definition stuck_claim :: "reservation_row \<Rightarrow> core_db \<Rightarrow> bool" where
  "stuck_claim r db \<longleftrightarrow> r \<in> set (reservations db) \<and> r_state r = Reserved \<and> r_phase r = ClaimBegun
     \<and> (\<exists>c. call_of (r_id r) db = Some c \<and> cancelled_call c)"

definition rows_frame :: "core_db \<Rightarrow> core_db \<Rightarrow> bool" where
  "rows_frame db db' \<longleftrightarrow> keeps_terminal db db' \<and> (\<forall>r. stuck_claim r db \<longrightarrow> stuck_claim r db')"

lemma rows_refl [simp]: "rows_frame db db"
  by (simp add: rows_frame_def keeps_terminal_def)

lemma rows_trans: "rows_frame db db1 \<Longrightarrow> rows_frame db1 db2 \<Longrightarrow> rows_frame db db2"
  by (simp add: rows_frame_def keeps_terminal_def)

lemma rows_same: "reservations db' = reservations db \<Longrightarrow> calls db' = calls db \<Longrightarrow> rows_frame db db'"
  by (simp add: rows_frame_def keeps_terminal_def stuck_claim_def call_of_def)

text \<open>A step on an open reservation that is not stuck, with its own call.\<close>

lemma rows_row_step:
  assumes t: "tables_ok db" and row: "row_step db db' r r'" "r_state r \<in> open_states" and call: "call_step db db' (r_id r)"
    and free: "\<not> stuck_claim r db"
  shows "rows_frame db db'"
proof -
  have keep: "x \<in> set (reservations db')" if "x \<in> set (reservations db)" "x \<noteq> r" for x
  proof -
    have "r_id x \<noteq> r_id r" using reservation_key_unique [OF t _ that(1), of r] row(1) that(2) by (auto simp: row_step_def)
    then show ?thesis using that(1) row(1) by (force simp: row_step_def)
  qed
  have "stuck_claim x db'" if x: "stuck_claim x db" for x
  proof -
    have xr: "x \<noteq> r" using x free by blast
    have xm: "x \<in> set (reservations db)" using x by (simp add: stuck_claim_def)
    have "r_id x \<noteq> r_id r" using reservation_key_unique [OF t _ xm, of r] row(1) xr by (auto simp: row_step_def)
    then have "call_of (r_id x) db' = call_of (r_id x) db"
      using call call_of_step [OF t, of _ _ db' "r_id x"] unfolding call_step_def by (auto simp: call_of_def)
    then show ?thesis using x keep [OF xm xr] by (simp add: stuck_claim_def)
  qed
  then show ?thesis using keep row(2) unfolding rows_frame_def keeps_terminal_def by fastforce
qed

lemma put_steps:
  assumes "r \<in> set (reservations db)" "same_key r r'" "reservation_check r'" "c \<in> set (calls db)" "c_reservation c = r_id r"
    "same_call c c'" "call_check c'"
  shows "row_step db (put_call c' (put_row r' db)) r r'" "call_step db (put_call c' (put_row r' db)) (r_id r)"
proof -
  show "row_step db (put_call c' (put_row r' db)) r r'" using assms by (simp add: row_step_def put_row_def same_key_def)
  have "calls (put_call c' (put_row r' db)) = map (\<lambda>x. if c_id x = c_id c then c' else x) (calls db)"
    using assms(6) by (simp add: put_call_def same_call_def)
  then show "call_step db (put_call c' (put_row r' db)) (r_id r)"
    unfolding call_step_def using assms by (intro disjI2 exI [of _ c] exI [of _ c']) simp
qed

lemma open_not_stuck:
  assumes "tables_ok db" "c \<in> set (calls db)" "c_reservation c = r_id r" "c_outcome c = Started" shows "\<not> stuck_claim r db"
  using call_of_mem [OF assms(1,2)] assms(3,4) by (auto simp: stuck_claim_def cancelled_call_def closed_call_def)

lemma mark_rows:
  assumes t: "tables_ok db" and run: "mark_pair rid aid now db = Inr (u, db')" shows "rows_frame db db'"
proof -
  obtain r c where e: "r \<in> set (reservations db)" "r_id r = rid" "r_state r = Reserved" "c \<in> set (calls db)" "c_reservation c = rid"
    "open_call ClaimBegun c" "reservation_check (r\<lparr>r_state := Sent, r_phase := MarkedSent\<rparr>)" "call_check (c\<lparr>c_phase := MarkedSent\<rparr>)"
    "db' = put_call (c\<lparr>c_phase := MarkedSent\<rparr>) (put_row (r\<lparr>r_state := Sent, r_phase := MarkedSent\<rparr>) db)"
    using mark_pair_effect [OF t run] by blast
  have cr: "c_reservation c = r_id r" using e by simp
  show ?thesis unfolding e(9)
    by (rule rows_row_step [OF t put_steps(1) [OF e(1) _ e(7,4) cr _ e(8)] _ put_steps(2) [OF e(1) _ e(7,4) cr _ e(8)]])
       (use e open_not_stuck [OF t e(4) cr] in \<open>simp_all add: same_key_def same_call_def open_call_def\<close>)
qed

lemma advance_rows:
  assumes t: "tables_ok db" and run: "advance_locked cid db = Inr (u, db')" shows "rows_frame db db'"
proof -
  obtain r c where e: "r \<in> set (reservations db)" "r_state r = Sent" "c \<in> set (calls db)" "c_reservation c = r_id r"
    "open_call MarkedSent c" "reservation_check (r\<lparr>r_phase := NetworkInvocationStarting\<rparr>)" "call_check (c\<lparr>c_phase := NetworkInvocationStarting\<rparr>)"
    "db' = put_call (c\<lparr>c_phase := NetworkInvocationStarting\<rparr>) (put_row (r\<lparr>r_phase := NetworkInvocationStarting\<rparr>) db)"
    using advance_effect [OF t run] by blast
  show ?thesis unfolding e(8)
    by (rule rows_row_step [OF t put_steps(1) [OF e(1) _ e(6,3,4) _ e(7)] _ put_steps(2) [OF e(1) _ e(6,3,4) _ e(7)]])
       (use e open_not_stuck [OF t e(3,4)] in \<open>simp_all add: same_key_def same_call_def open_call_def\<close>)
qed

lemma finish_rows:
  assumes t: "tables_ok db" and run: "finish_pair cid outcome rt receipt now db = Inr (u, db')" shows "rows_frame db db'"
proof (cases "db' = db")
  case False
  then obtain r c c' where e: "r \<in> set (reservations db)" "r_state r = Sent" "c \<in> set (calls db)" "c_reservation c = r_id r"
    "open_call (r_phase r) c" "reservation_check (r\<lparr>r_phase := Finished\<rparr>)" "call_check c'" "same_call c c'"
    "db' = put_call c' (put_row (r\<lparr>r_phase := Finished\<rparr>) db)"
    using finish_effect [OF t run] by (fastforce simp: same_call_def)
  show ?thesis unfolding e(9)
    by (rule rows_row_step [OF t put_steps(1) [OF e(1) _ e(6,3,4,8,7)] _ put_steps(2) [OF e(1) _ e(6,3,4,8,7)]])
       (use e open_not_stuck [OF t e(3,4)] in \<open>simp_all add: same_key_def open_call_def\<close>)
qed simp

lemma release_rows:
  assumes t: "tables_ok db" and run: "release_unsent_locked rid aid now db = Inr (u, db')" shows "rows_frame db db'"
proof -
  from release_effect [OF t run] obtain r r' where r: "r \<in> set (reservations db)" "r_id r = rid" "r_state r = Reserved"
    "r' = r\<lparr>r_state := Released, r_phase := Finished, r_reconciled_at := Some now\<rparr>" "reservation_check r'"
    and d: "call_of rid db = None \<and> db' = put_row r' db
       \<or> (\<exists>c c'. call_of rid db = Some c \<and> open_call ClaimBegun c
            \<and> c' = c\<lparr>c_outcome := Cancelled, c_phase := Finished, c_finished_at := Some now\<rparr> \<and> call_check c'
            \<and> db' = put_call c' (put_row r' db))" by blast
  have sk: "same_key r r'" using r by (simp add: same_key_def)
  from d show ?thesis
  proof (elim disjE exE conjE)
    assume a: "call_of rid db = None" "db' = put_row r' db"
    have row: "row_step db db' r r'" using r sk a(2) by (simp add: row_step_def put_row_def)
    show ?thesis by (rule rows_row_step [OF t row]) (use a r in \<open>simp_all add: call_step_def stuck_claim_def\<close>)
  next
    fix c c' assume a: "call_of rid db = Some c" "open_call ClaimBegun c"
      "c' = c\<lparr>c_outcome := Cancelled, c_phase := Finished, c_finished_at := Some now\<rparr>" "call_check c'" "db' = put_call c' (put_row r' db)"
    have c: "c \<in> set (calls db)" "c_reservation c = r_id r" using call_of_reservation [OF a(1)] r(2) by simp_all
    have sc: "same_call c c'" using a(3) by (simp add: same_call_def)
    show ?thesis unfolding a(5)
      by (rule rows_row_step [OF t put_steps(1) [OF r(1) sk r(5) c sc a(4)] _ put_steps(2) [OF r(1) sk r(5) c sc a(4)]])
         (use r a open_not_stuck [OF t c] in \<open>simp_all add: open_call_def\<close>)
  qed
qed

lemma claim_rows:
  assumes t: "tables_ok db" and run: "claim_locked cfg cid rt cs redaction now db = Inr (u, db')" shows "rows_frame db db'"
proof -
  obtain r c where e: "r \<in> set (reservations db)" "r_state r = Reserved" "r_phase r = NotClaimed"
    "reservation_check (r\<lparr>r_phase := ClaimBegun\<rparr>)" "db' = (put_row (r\<lparr>r_phase := ClaimBegun\<rparr>) db)\<lparr>calls := calls db @ [c]\<rparr>"
    using claim_effect [OF t run] by blast
  let ?db = "put_row (r\<lparr>r_phase := ClaimBegun\<rparr>) db"
  have row: "row_step db ?db r (r\<lparr>r_phase := ClaimBegun\<rparr>)" using e by (simp add: row_step_def put_row_def same_key_def)
  have "rows_frame db ?db"
    by (rule rows_row_step [OF t row]) (use e in \<open>simp_all add: call_step_def stuck_claim_def\<close>)
  moreover have "rows_frame ?db db'"
    unfolding rows_frame_def keeps_terminal_def stuck_claim_def e(5) call_of_append [of _ ?db, simplified] by auto
  ultimately show ?thesis by (rule rows_trans)
qed

lemma reserve_rows:
  assumes t: "tables_ok db" and run: "reserve_locked cfg rid q purpose priced now db = Inr (b, db')" shows "rows_frame db db'"
proof -
  obtain row where "reservations db' = reservations db @ [row]" "calls db' = calls db"
    using reserve_effect [OF t run] by (elim exE conjE) (rule that; assumption)
  then show ?thesis by (auto simp: rows_frame_def keeps_terminal_def stuck_claim_def call_of_def)
qed


lemma stuck_evidence:
  assumes t: "tables_ok db" and st: "stuck_claim r db"
  shows "settle_evidence cfg r now db = Inl transport_quarantined"
proof -
  obtain c where c: "r \<in> set (reservations db)" "call_of (r_id r) db = Some c" "cancelled_call c" "r_phase r = ClaimBegun"
    using st by (auto simp: stuck_claim_def)
  have "filter (\<lambda>c. c_reservation c = r_id r \<and> c_attempt c = r_attempt r) (calls db) = [c]"
    using calls_filter [OF t c(1)] c(2) by simp
  then show ?thesis using c(3,4) by (simp add: settle_evidence_def cancelled_call_def closed_call_def)
qed

lemma settle_steps:
  assumes t: "tables_ok db" and run: "settle_locked cfg lid rid aid now db = Inr (s, db')"
  shows "\<exists>r. r \<in> set (reservations db) \<and> r_id r = rid \<and> r_attempt r = aid \<and> r_state r \<in> open_states
    \<and> row_step db db' r (settled_row (s_charged s) now r)
    \<and> call_step db db' (r_id r) \<and> (\<exists>e. settle_evidence cfg r now db = Inr e)"
proof -
  obtain r cs receipt force charged conservative monthly where
    r: "r \<in> set (reservations db)" "r_id r = rid" "r_attempt r = aid" "r_state r \<in> open_states"
    and ev: "settle_evidence cfg r now db = Inr (cs, receipt, force)"
    and w: "write_settlement cfg lid r cs receipt charged conservative monthly now db = Inr (s, db')"
    using settle_effect [OF t run] by blast
  obtain l db1 where db1: "db1 = (put_row (settled_row charged now r) db)\<lparr>calls := cs, ledger := ledger db @ [l]\<rparr>"
    and chk: "reservation_check (settled_row charged now r)" and sc: "s_charged s = charged"
    and fin: "case freeze_reason (monthly > g_hard_limit cfg) (charged > r_reserved r) of None \<Rightarrow> db' = db1
       | Some why \<Rightarrow> record_freeze (r_month r) why (Some monthly) (g_hard_limit cfg) (r_id r) db1 = Inr db'"
    using write_settlement_effect [OF t r(1,4) w] by fastforce
  have tabs: "reservations db' = reservations db1" "calls db' = calls db1"
    using fin record_freeze_effect(1,2) [of "r_month r" _ _ _ _ db1 db'] by (auto split: option.splits)
  have row: "row_step db db' r (settled_row charged now r)"
    using r chk tabs(1) by (simp add: row_step_def db1 put_row_def settled_row_def same_key_def)
  have "call_step db db' (r_id r)"
    using settle_evidence_effect(1) [OF t r(1) ev] tabs(2) by (simp add: call_step_def db1)
  then show ?thesis using r row ev sc by blast
qed

lemma settle_rows:
  assumes t: "tables_ok db" and run: "settle_locked cfg lid rid aid now db = Inr (s, db')" shows "rows_frame db db'"
proof -
  obtain r e where r: "r_state r \<in> open_states" "row_step db db' r (settled_row (s_charged s) now r)" "call_step db db' (r_id r)"
    "settle_evidence cfg r now db = Inr e" using settle_steps [OF t run] by blast
  have "\<not> stuck_claim r db" using stuck_evidence [OF t] r(4) by force
  then show ?thesis by (rule rows_row_step [OF t r(2,1,3)])
qed

text \<open>Revocation closes started calls and settles their reservations; nothing else changes.\<close>

lemma close_revoked_frame:
  assumes "close_revoked subject now rest started db = Inr (rids, db')" "tables_ok db"
    "set rest \<subseteq> set (calls db)" "distinct (map c_id rest)" "\<forall>c \<in> set rest. c_outcome c = Started"
  shows "reservations db' = reservations db
    \<and> (\<forall>rid c. call_of rid db = Some c \<longrightarrow> c_outcome c \<noteq> Started \<longrightarrow> call_of rid db' = Some c)
    \<and> set rids \<subseteq> set started \<union> c_reservation ` set rest"
  using assms
proof (induction rest arbitrary: started db)
  case (Cons c rest)
  note prems = Cons.prems
  obtain env where env: "map_of (settings db) (RouteKey (c_authorization c)) = Some (RouteValue env)"
    using prems(1) by (auto split: option.splits setting_value.splits)
  show ?case
  proof (cases "env_subject env = Some subject")
    case False
    then have "close_revoked subject now rest started db = Inr (rids, db')" using prems(1) env by (auto split: if_splits)
    then show ?thesis using Cons.IH [of started db] prems by auto
  next
    case True
    let ?P = "\<lambda>x. c_id x = c_id c \<and> c_outcome x = Started \<and> c_phase x = c_phase c"
    let ?f = "\<lambda>x. x\<lparr>c_outcome := (if c_phase c = ClaimBegun then Cancelled else Ambiguous), c_phase := Finished,
        c_finished_at := Some now\<rparr>"
    let ?started = "if c_phase c = ClaimBegun then started else started @ [c_reservation c]"
    obtain n cs where up: "sql_update call_check ?P ?f (calls db) = Inr (n, cs)"
      and rec: "close_revoked subject now rest ?started (db\<lparr>calls := cs\<rparr>) = Inr (rids, db')"
      using prems(1) env True by (auto simp: bindE_eq_Inr split: if_splits)
    have c: "c \<in> set (calls db)" "c_outcome c = Started" using prems by simp_all
    note up' = sql_update_call [OF prems(2) c(1), of ?P ?f n cs, OF _ _ up]
    have dbeq: "db\<lparr>calls := cs\<rparr> = put_call (?f c) db" "call_check (?f c)" using up' c(2) by simp_all
    have sc: "same_call c (?f c)" by (simp add: same_call_def)
    have eq: "calls (put_call (?f c) db) = map (\<lambda>x. if c_id x = c_id c then ?f c else x) (calls db)" by (simp add: put_call_def)
    have t': "tables_ok (put_call (?f c) db)"
      by (rule tables_update [OF prems(2), where P = "\<lambda>_. False" and f = id and Q = "\<lambda>x. x = c" and g = "\<lambda>_. ?f c"])
         (use c dbeq(2) sc call_key_unique [OF prems(2) c(1)] in \<open>auto simp: eq\<close>)
    have sub: "set rest \<subseteq> set (calls (put_call (?f c) db))"
    proof
      fix d assume d: "d \<in> set rest"
      then have "c_id d \<noteq> c_id (?f c)" "d \<in> set (calls db)" using prems(3,4) by (auto simp: image_iff)
      then show "d \<in> set (calls (put_call (?f c) db))" unfolding put_call_def by (auto simp: image_iff)
    qed
    have same: "call_of rid (put_call (?f c) db) = Some x" if "call_of rid db = Some x" "c_outcome x \<noteq> Started" for rid x
      using call_of_step [OF prems(2) c(1) sc eq, of rid] call_of_mem [OF prems(2) c(1)] that c(2) by auto
    show ?thesis using Cons.IH [OF rec [unfolded dbeq(1)] t' sub] prems(4,5) same by (auto split: if_splits)
  qed
qed simp

lemma settle_revoked_frame:
  assumes "settle_revoked now rids db = Inr db'"
  shows "calls db' = calls db
    \<and> (\<forall>x \<in> set (reservations db). r_state x \<in> terminal_states \<or> r_id x \<notin> set rids \<longrightarrow> x \<in> set (reservations db'))"
  using assms
proof (induction rids arbitrary: db)
  case (Cons rid rids)
  then obtain db1 where d: "require_conservative_settlement rid now db = Inr db1" "settle_revoked now rids db1 = Inr db'"
    by (auto simp: bindE_eq_Inr)
  have one: "calls db1 = calls db" "reservations db1 = map (\<lambda>r. if r_id r = rid \<and> r_state r \<in> open_states
      then r\<lparr>r_state := Settled, r_phase := Finished, r_charged := Some (r_reserved r), r_settled_at := Some now\<rparr> else r) (reservations db)"
    using d(1) by (auto simp: require_conservative_settlement_def settle_budget_reservation_def sql_update_def bindE_eq_Inr
        split: if_splits option.splits)
  have "x \<in> set (reservations db1)" if "x \<in> set (reservations db)" "r_state x \<in> terminal_states \<or> r_id x \<notin> set (rid # rids)" for x
    unfolding one(2) using that by (auto simp: image_iff intro!: bexI [of _ x])
  then show ?case using Cons.IH [OF d(2)] one(1) by auto
qed simp

lemma revoke_rows:
  assumes t: "tables_ok db" and run: "revoke_subject_locked subject now db = Inr (rids, db')" shows "rows_frame db db'"
proof -
  let ?rest = "filter (\<lambda>c. c_outcome c = Started) (calls db)"
  obtain db1 where c: "close_revoked subject now ?rest [] db = Inr (rids, db1)" "settle_revoked now rids db1 = Inr db'"
    using run by (auto simp: revoke_subject_locked_def bindE_eq_Inr)
  have d: "distinct (map c_id ?rest)" using t by (simp add: tables_ok_def distinct_map_filter)
  have f1: "reservations db1 = reservations db" "set rids \<subseteq> c_reservation ` set ?rest"
    and same: "\<And>rid c. call_of rid db = Some c \<Longrightarrow> c_outcome c \<noteq> Started \<Longrightarrow> call_of rid db1 = Some c"
    using close_revoked_frame [OF c(1) t filter_is_subset d] by simp_all
  note f2 = settle_revoked_frame [OF c(2)]
  have "stuck_claim r db'" if st: "stuck_claim r db" for r
  proof -
    obtain x where x: "r \<in> set (reservations db)" "call_of (r_id r) db = Some x" "cancelled_call x" using st by (auto simp: stuck_claim_def)
    then have xs: "c_outcome x \<noteq> Started" by (simp add: cancelled_call_def closed_call_def)
    have "r_id r \<notin> set rids"
    proof
      assume "r_id r \<in> set rids"
      then obtain y where "y \<in> set (calls db)" "c_outcome y = Started" "c_reservation y = r_id r" using f1(2) by auto
      then show False using call_of_mem [OF t, of y] x(2) xs by simp
    qed
    then have "r \<in> set (reservations db')" using f2 x(1) f1(1) by simp
    moreover have "call_of (r_id r) db' = Some x" using same [OF x(2) xs] f2 by (simp add: call_of_def)
    ultimately show ?thesis using st x(3) by (auto simp: stuck_claim_def)
  qed
  then show ?thesis unfolding rows_frame_def keeps_terminal_def using f2 f1(1) by simp
qed

subsection \<open>Calls only move forward\<close>

fun phase_rank :: "transport_phase \<Rightarrow> nat" where
  "phase_rank NotClaimed = 0"
| "phase_rank ClaimBegun = 1"
| "phase_rank MarkedSent = 2"
| "phase_rank NetworkInvocationStarting = 3"
| "phase_rank Finished = 4"

definition call_later :: "call_row \<Rightarrow> call_row \<Rightarrow> bool" where
  "call_later c c' \<longleftrightarrow> same_call c c' \<and> phase_rank (c_phase c) \<le> phase_rank (c_phase c') \<and> (c_outcome c \<noteq> Started \<longrightarrow> c' = c)"

definition calls_progress :: "core_db \<Rightarrow> core_db \<Rightarrow> bool" where
  "calls_progress db db' \<longleftrightarrow> (\<forall>c \<in> set (calls db). \<exists>c' \<in> set (calls db'). call_later c c')"

lemma call_later_refl [simp]: "call_later c c"
  by (simp add: call_later_def same_call_def)

lemma call_later_trans: "call_later c c1 \<Longrightarrow> call_later c1 c2 \<Longrightarrow> call_later c c2"
  by (auto simp: call_later_def same_call_def)

lemma progress_sub: "set (calls db) \<subseteq> set (calls db') \<Longrightarrow> calls_progress db db'"
  unfolding calls_progress_def using call_later_refl by blast

lemma progress_trans: "calls_progress db db1 \<Longrightarrow> calls_progress db1 db2 \<Longrightarrow> calls_progress db db2"
  unfolding calls_progress_def using call_later_trans by blast

lemma progress_map:
  assumes "calls db' = map (\<lambda>x. if P x then f x else x) (calls db)" "\<And>x. P x \<Longrightarrow> call_later x (f x)"
  shows "calls_progress db db'"
  unfolding calls_progress_def
proof
  fix c assume "c \<in> set (calls db)"
  then have "(if P c then f c else c) \<in> set (calls db')" unfolding assms(1) by auto
  moreover have "call_later c (if P c then f c else c)" using assms(2) by simp
  ultimately show "\<exists>c' \<in> set (calls db'). call_later c c'" by blast
qed

lemma progress_update:
  assumes "update_one call_check P f err (calls db) = Inr cs" "calls db' = cs" "\<And>x. P x \<Longrightarrow> call_later x (f x)"
  shows "calls_progress db db'"
  by (rule progress_map [where P = P and f = f]) (use update_one_Inr(1) [OF assms(1)] assms(2,3) in simp_all)

lemma mark_progress: "mark_pair rid aid now db = Inr (u, db') \<Longrightarrow> calls_progress db db'"
  by (auto simp: mark_pair_def bindE_eq_Inr call_later_def same_call_def split: option.splits if_splits elim!: progress_update)

lemma advance_progress: "advance_locked cid db = Inr (u, db') \<Longrightarrow> calls_progress db db'"
  by (auto simp: advance_locked_def bindE_eq_Inr call_later_def same_call_def split: option.splits if_splits elim!: progress_update)

lemma phase_rank_le: "phase_rank p \<le> 4"
  by (cases p) simp_all

lemma closing_later: "c_outcome c = Started \<Longrightarrow> same_call c c' \<Longrightarrow> c_phase c' = Finished \<Longrightarrow> call_later c c'"
  by (simp add: call_later_def phase_rank_le)

lemma progress_put:
  assumes t: "tables_ok db" and c: "c \<in> set (calls db)" "call_later c c'" and eq: "calls db' = calls (put_call c' db)"
  shows "calls_progress db db'"
  unfolding calls_progress_def
proof
  fix x assume x: "x \<in> set (calls db)"
  have "c_id c' = c_id c" using c(2) by (simp add: call_later_def same_call_def)
  then have "(if c_id x = c_id c then c' else x) \<in> set (calls db')" using x unfolding eq put_call_def by auto
  moreover have "call_later x (if c_id x = c_id c then c' else x)" using call_key_unique [OF t c(1) x] c(2) by auto
  ultimately show "\<exists>y \<in> set (calls db'). call_later x y" by blast
qed

lemma finish_progress:
  assumes t: "tables_ok db" and run: "finish_pair cid outcome rt receipt now db = Inr (u, db')" shows "calls_progress db db'"
proof (cases "db' = db")
  case False
  let ?f = "\<lambda>c. c\<lparr>c_outcome := outcome, c_phase := Finished, c_finished_at := Some now, c_receipt := finish_columns receipt\<rparr>"
  obtain r c where e: "c \<in> set (calls db)" "open_call (r_phase r) c"
    "db' = put_call (?f c) (put_row (r\<lparr>r_phase := Finished\<rparr>) db)"
    using finish_effect [OF t run] False by blast
  have "call_later c (?f c)" by (rule closing_later) (use e(2) in \<open>simp_all add: open_call_def same_call_def\<close>)
  then show ?thesis by (rule progress_put [OF t e(1)]) (simp add: e(3) put_call_def)
qed (simp add: progress_sub)

lemma release_progress: "release_unsent_locked rid aid now db = Inr (u, db') \<Longrightarrow> calls_progress db db'"
  by (auto simp: release_unsent_locked_def Let_def bindE_eq_Inr same_call_def progress_sub split: option.splits if_splits list.splits
      elim!: progress_update intro!: closing_later)

lemma claim_progress: "claim_locked cfg cid rt cs redaction now db = Inr (u, db') \<Longrightarrow> calls_progress db db'"
  by (auto simp: claim_locked_def Let_def bindE_eq_Inr sql_insert_Inr intro!: progress_sub)

lemma reserve_progress:
  assumes "tables_ok db" "reserve_locked cfg rid q purpose priced now db = Inr (b, db')" shows "calls_progress db db'"
  by (rule progress_sub) (use reserve_effect [OF assms] in auto)

lemma settle_progress:
  assumes t: "tables_ok db" and run: "settle_locked cfg lid rid aid now db = Inr (s, db')" shows "calls_progress db db'"
proof -
  obtain r cs receipt force charged conservative monthly where
    r: "r \<in> set (reservations db)" "r_state r \<in> open_states"
    and ev: "settle_evidence cfg r now db = Inr (cs, receipt, force)"
    and w: "write_settlement cfg lid r cs receipt charged conservative monthly now db = Inr (s, db')"
    using settle_effect [OF t run] by blast
  have "calls_progress db (db\<lparr>calls := cs\<rparr>)"
    using ev by (auto simp: settle_evidence_def Let_def bindE_eq_Inr same_call_def progress_sub split: list.splits if_splits
      elim!: progress_update intro!: closing_later)
  moreover have "calls db' = cs"
    using write_settlement_effect [OF t r w] record_freeze_effect(2) by (fastforce split: option.splits)
  ultimately show ?thesis by (simp add: calls_progress_def)
qed

lemma close_revoked_progress: "close_revoked subject now rest started db = Inr (rids, db') \<Longrightarrow> calls_progress db db'"
proof (induction rest arbitrary: started db)
  case (Cons c rest)
  then consider "close_revoked subject now rest started db = Inr (rids, db')"
    | started' n cs where "sql_update call_check (\<lambda>x. c_id x = c_id c \<and> c_outcome x = Started \<and> c_phase x = c_phase c)
        (\<lambda>x. x\<lparr>c_outcome := (if c_phase c = ClaimBegun then Cancelled else Ambiguous), c_phase := Finished, c_finished_at := Some now\<rparr>)
        (calls db) = Inr (n, cs)" "close_revoked subject now rest started' (db\<lparr>calls := cs\<rparr>) = Inr (rids, db')"
    by (auto simp: bindE_eq_Inr split: option.splits setting_value.splits if_splits)
  then show ?case
  proof cases
    case 2
    have "calls_progress db (db\<lparr>calls := cs\<rparr>)"
      by (rule progress_map [where P = "\<lambda>x. c_id x = c_id c \<and> c_outcome x = Started \<and> c_phase x = c_phase c"
          and f = "\<lambda>x. x\<lparr>c_outcome := (if c_phase c = ClaimBegun then Cancelled else Ambiguous), c_phase := Finished, c_finished_at := Some now\<rparr>"])
         (use 2(1) in \<open>simp add: sql_update_def split: if_splits, simp add: same_call_def closing_later\<close>)
    then show ?thesis using Cons.IH [OF 2(2)] progress_trans by blast
  qed (rule Cons.IH)
qed (simp add: progress_sub)

lemma revoke_progress:
  assumes "revoke_subject_locked subject now db = Inr (rids, db')" shows "calls_progress db db'"
proof -
  obtain db1 where c: "close_revoked subject now (filter (\<lambda>c. c_outcome c = Started) (calls db)) [] db = Inr (rids, db1)"
    "settle_revoked now rids db1 = Inr db'"
    using assms by (auto simp: revoke_subject_locked_def bindE_eq_Inr)
  show ?thesis using close_revoked_progress [OF c(1)] settle_revoked_frame [OF c(2)] by (simp add: calls_progress_def)
qed

subsection \<open>The whole frame\<close>

definition frame_ok :: "core_db \<Rightarrow> core_db \<Rightarrow> bool" where
  "frame_ok db db' \<longleftrightarrow> rows_frame db db' \<and> calls_progress db db'"

lemma frame_refl [simp]: "frame_ok db db"
  by (simp add: frame_ok_def progress_sub)

lemma frame_trans: "frame_ok db db1 \<Longrightarrow> frame_ok db1 db2 \<Longrightarrow> frame_ok db db2"
  unfolding frame_ok_def using rows_trans progress_trans by blast

lemma frame_same: "reservations db' = reservations db \<Longrightarrow> calls db' = calls db \<Longrightarrow> frame_ok db db'"
  by (simp add: frame_ok_def rows_same progress_sub)

lemma frame_keeps:
  assumes "frame_ok db db'"
  shows "x \<in> set (reservations db) \<Longrightarrow> r_state x \<in> terminal_states \<Longrightarrow> x \<in> set (reservations db')"
    "stuck_claim r db \<Longrightarrow> stuck_claim r db'" "c \<in> set (calls db) \<Longrightarrow> \<exists>c' \<in> set (calls db'). call_later c c'"
  using assms unfolding frame_ok_def rows_frame_def keeps_terminal_def calls_progress_def by blast+

lemmas transaction_frames = mark_rows mark_progress advance_rows advance_progress finish_rows finish_progress
  release_rows release_progress claim_rows claim_progress reserve_rows reserve_progress settle_rows settle_progress
  revoke_rows revoke_progress

lemma mark_frame: "tables_ok db \<Longrightarrow> mark_pair rid aid now db = Inr (u, db') \<Longrightarrow> frame_ok db db'"
  and advance_frame: "tables_ok db \<Longrightarrow> advance_locked cid db = Inr (u, db') \<Longrightarrow> frame_ok db db'"
  and finish_frame: "tables_ok db \<Longrightarrow> finish_pair cid outcome rt receipt now db = Inr (u, db') \<Longrightarrow> frame_ok db db'"
  and release_frame: "tables_ok db \<Longrightarrow> release_unsent_locked rid aid now db = Inr (u, db') \<Longrightarrow> frame_ok db db'"
  and claim_frame: "tables_ok db \<Longrightarrow> claim_locked cfg cid' rt cs redaction now db = Inr (v, db') \<Longrightarrow> frame_ok db db'"
  and reserve_frame: "tables_ok db \<Longrightarrow> reserve_locked cfg rid q purpose priced now db = Inr (b, db') \<Longrightarrow> frame_ok db db'"
  and settle_frame: "tables_ok db \<Longrightarrow> settle_locked cfg lid rid aid now db = Inr (s, db') \<Longrightarrow> frame_ok db db'"
  and revoke_frame: "tables_ok db \<Longrightarrow> revoke_subject_locked subject now db = Inr (rids, db') \<Longrightarrow> frame_ok db db'"
  by (simp_all add: frame_ok_def transaction_frames)

end
