(* ===== verification/Budget_System.thy ===== *)
theory Budget_System
  imports Budget_Frame
begin

text \<open>
  The budget as a system: every operation of the guard, of the call repository, of the reconciler and of
  the revocation handler is one step, and a store is reachable when steps lead to it from the empty
  store. A transaction that keeps the invariant is an instance of the locale \<open>budget_transaction\<close>; the
  operations are its interpretations.
\<close>

subsection \<open>Transactions\<close>

locale budget_transaction =
  fixes cfg :: guard_cfg and body :: "core_db \<Rightarrow> budget_error + ('a \<times> core_db)"
  assumes keeps_inv: "budget_inv cfg db \<Longrightarrow> body db = Inr (x, db') \<Longrightarrow> budget_inv cfg db'"
    and keeps_frozen: "budget_inv cfg db \<Longrightarrow> body db = Inr (x, db') \<Longrightarrow> frozen_month m db \<Longrightarrow> frozen_month m db'"
    and keeps_frame: "budget_inv cfg db \<Longrightarrow> body db = Inr (x, db') \<Longrightarrow> frame_ok db db'"
begin

lemma run_inv: "budget_inv cfg db \<Longrightarrow> budget_inv cfg (snd (run_uow body db))"
  using keeps_inv by (auto simp: run_uow_def split: sum.split prod.split)

lemma run_frozen: "budget_inv cfg db \<Longrightarrow> frozen_month m db \<Longrightarrow> frozen_month m (snd (run_uow body db))"
  using keeps_frozen by (auto simp: run_uow_def split: sum.split prod.split)

lemma run_frame: "budget_inv cfg db \<Longrightarrow> frame_ok db (snd (run_uow body db))"
  using keeps_frame by (auto simp: run_uow_def split: sum.split prod.split)

lemma run_error_unchanged: "fst (run_uow body db) = Inl e \<Longrightarrow> snd (run_uow body db) = db"
  by (auto simp: run_uow_def split: sum.splits prod.splits)

end

interpretation reserve_tx: budget_transaction cfg "reserve_locked cfg rid q purpose priced now"
  for cfg rid q purpose priced now
  by unfold_locales (auto intro: reserve_inv simp: reserve_freeze [OF inv_tables] reserve_frame [OF inv_tables])

lemma claim_settings: "tables_ok db \<Longrightarrow> claim_locked cfg cid rt cs redaction now db = Inr (u, db') \<Longrightarrow> settings db' = settings db"
  using claim_effect by fastforce

interpretation claim_tx: budget_transaction cfg "claim_locked cfg' cid rt cs redaction now"
  for cfg cfg' cid rt cs redaction now
  by unfold_locales (auto intro: claim_inv simp: claim_settings [OF inv_tables] claim_frame [OF inv_tables])

lemma mark_settings: "tables_ok db \<Longrightarrow> mark_pair rid aid now db = Inr (u, db') \<Longrightarrow> settings db' = settings db"
  using mark_pair_effect by fastforce

interpretation mark_tx: budget_transaction cfg "mark_pair rid aid now" for cfg rid aid now
  by unfold_locales (auto intro: mark_pair_inv simp: mark_settings [OF inv_tables] mark_frame [OF inv_tables])

lemma advance_settings: "tables_ok db \<Longrightarrow> advance_locked cid db = Inr (u, db') \<Longrightarrow> settings db' = settings db"
  using advance_effect by fastforce

interpretation advance_tx: budget_transaction cfg "advance_locked cid" for cfg cid
  by unfold_locales (auto intro: advance_inv simp: advance_settings [OF inv_tables] advance_frame [OF inv_tables])

lemma finish_settings: "tables_ok db \<Longrightarrow> finish_pair cid outcome rt receipt now db = Inr (u, db') \<Longrightarrow> settings db' = settings db"
  using finish_effect by fastforce

lemma finish_tx:
  assumes "outcome \<noteq> Started" "outcome \<noteq> Succeeded \<Longrightarrow> receipt = None"
  shows "budget_transaction cfg (finish_pair cid outcome rt receipt now)"
  by unfold_locales (use assms in \<open>auto intro: finish_inv simp: finish_settings [OF inv_tables] finish_frame [OF inv_tables]\<close>)

lemma release_settings: "tables_ok db \<Longrightarrow> release_unsent_locked rid aid now db = Inr (u, db') \<Longrightarrow> settings db' = settings db"
  using release_effect by fastforce

interpretation release_tx: budget_transaction cfg "release_unsent_locked rid aid now" for cfg rid aid now
  by unfold_locales (auto intro: release_inv simp: release_settings [OF inv_tables] release_frame [OF inv_tables])

lemma settle_frozen:
  assumes "tables_ok db" "settle_locked cfg lid rid aid now db = Inr (s, db')" "frozen_month m db"
  shows "frozen_month m db'"
proof -
  obtain r cs receipt charged conservative monthly where
    r: "r \<in> set (reservations db)" "r_state r \<in> open_states"
    and w: "write_settlement cfg lid r cs receipt charged conservative monthly now db = Inr (s, db')"
    using settle_effect [OF assms(1,2)] by blast
  obtain l db1 where db1: "db1 = (put_row (settled_row charged now r) db)\<lparr>calls := cs, ledger := ledger db @ [l]\<rparr>"
    and fin: "case freeze_reason (monthly > g_hard_limit cfg) (charged > r_reserved r) of None \<Rightarrow> db' = db1
       | Some why \<Rightarrow> record_freeze (r_month r) why (Some monthly) (g_hard_limit cfg) (r_id r) db1 = Inr db'"
    using write_settlement_effect [OF assms(1) r w] by blast
  have "settings db1 = settings db" by (simp add: db1)
  with assms(3) have "frozen_month m db1" by simp
  with fin show ?thesis using record_freeze_effect(5) by (cases "freeze_reason (monthly > g_hard_limit cfg) (charged > r_reserved r)") fastforce+
qed

interpretation settle_tx: budget_transaction cfg "settle_locked cfg lid rid aid now" for cfg lid rid aid now
proof unfold_locales
  fix db x db' m
  assume a: "budget_inv cfg db" "settle_locked cfg lid rid aid now db = Inr (x, db')"
  show "budget_inv cfg db'" by (rule settle_inv [OF a])
  show "frame_ok db db'" by (rule settle_frame [OF inv_tables [OF a(1)] a(2)])
  assume "frozen_month m db"
  then show "frozen_month m db'" by (rule settle_frozen [OF inv_tables [OF a(1)] a(2)])
qed

interpretation revoke_tx: budget_transaction cfg "revoke_subject_locked subject now" for cfg subject now
  by unfold_locales (auto dest: revoke_effect simp: revoke_frame [OF inv_tables])

interpretation freeze_tx: budget_transaction cfg
  "\<lambda>db. case find (\<lambda>r. r_id r = rid \<and> r_attempt r = aid) (reservations db) of
      None \<Rightarrow> Inr ((), db)
    | Some r \<Rightarrow> bindE (record_freeze (r_month r) reason None (g_hard_limit cfg) rid db) (\<lambda>db'. Inr ((), db'))"
  for cfg rid aid reason
proof unfold_locales
  fix db x db' m
  let ?body = "case find (\<lambda>r. r_id r = rid \<and> r_attempt r = aid) (reservations db) of None \<Rightarrow> Inr ((), db)
    | Some r \<Rightarrow> bindE (record_freeze (r_month r) reason None (g_hard_limit cfg) rid db) (\<lambda>db'. Inr ((), db'))"
  assume inv: "budget_inv cfg db" and run: "?body = Inr (x, db')"
  then consider "db' = db" | month where "record_freeze month reason None (g_hard_limit cfg) rid db = Inr db'"
    by (auto simp: bindE_eq_Inr split: option.splits)
  then show "budget_inv cfg db'" using inv record_freeze_inv by cases simp_all
  show "frame_ok db db'" using run by (auto simp: bindE_eq_Inr record_freeze_effect intro!: frame_same split: option.splits)
  assume "frozen_month m db"
  then show "frozen_month m db'" using inv run record_freeze_effect(5)
    by (cases "find (\<lambda>r. r_id r = rid \<and> r_attempt r = aid) (reservations db)") (fastforce simp: bindE_eq_Inr)+
qed


subsection \<open>Operations\<close>

text \<open>An operation is safe when it keeps the invariant, never lifts a freeze and respects the frame.\<close>

definition safe_result :: "guard_cfg \<Rightarrow> core_db \<Rightarrow> core_db \<Rightarrow> bool" where
  "safe_result cfg db db' \<longleftrightarrow> budget_inv cfg db' \<and> (\<forall>m. frozen_month m db \<longrightarrow> frozen_month m db')
     \<and> frame_ok db db'"

lemma safe_refl [simp]: "safe_result cfg db db \<longleftrightarrow> budget_inv cfg db"
  by (simp add: safe_result_def)

lemma safe_trans: "safe_result cfg db db1 \<Longrightarrow> safe_result cfg db1 db2 \<Longrightarrow> safe_result cfg db db2"
  by (auto simp: safe_result_def intro: frame_trans)

context budget_transaction
begin

lemma run_safe: "budget_inv cfg db \<Longrightarrow> safe_result cfg db (snd (run_uow body db))"
  unfolding safe_result_def using run_inv run_frozen run_frame by blast

lemma body_safe: "budget_inv cfg db \<Longrightarrow> body db = Inr (x, db') \<Longrightarrow> safe_result cfg db db'"
  unfolding safe_result_def using keeps_inv keeps_frozen keeps_frame by blast

end

lemma freeze_safe: "budget_inv cfg db \<Longrightarrow> safe_result cfg db (snd (freeze_evidence_quarantine cfg rid aid reason db))"
  unfolding freeze_evidence_quarantine_def by (rule freeze_tx.run_safe)

lemma reserve_safe: "budget_inv cfg db \<Longrightarrow> safe_result cfg db (snd (reserve cfg rid q now db))"
  by (auto simp: reserve_def reserve_tx.run_safe split: option.split)

lemma begin_safe: "budget_inv cfg db \<Longrightarrow> safe_result cfg db (snd (begin_call cfg cid rt cs redaction now db))"
  using claim_tx.run_safe [of cfg db cfg cid rt cs redaction now]
  by (auto simp: begin_call_def split: sum.split prod.split budget_error.split)

lemma mark_sent_safe: "budget_inv cfg db \<Longrightarrow> safe_result cfg db (snd (mark_sent rid aid now db))"
  unfolding mark_sent_def by (rule mark_tx.run_safe)

lemma network_safe: "budget_inv cfg db \<Longrightarrow> safe_result cfg db (snd (mark_network_invocation_starting cid db))"
  unfolding mark_network_invocation_starting_def by (rule advance_tx.run_safe)

lemma finish_safe:
  assumes "budget_inv cfg db" shows "safe_result cfg db (snd (finish_call cfg' cid outcome rt receipt now db))"
proof (cases "outcome = Started")
  case False
  show ?thesis
  proof (cases receipt)
    case None
    then show ?thesis using budget_transaction.run_safe [OF finish_tx, OF False refl assms] False by (simp add: finish_call_def)
  next
    case (Some u)
    then show ?thesis using assms budget_transaction.run_safe [OF finish_tx [of Succeeded], OF _ _ assms]
      by (auto simp: finish_call_def split: sum.split)
  qed
qed (use assms in \<open>simp add: finish_call_def\<close>)

lemma settle_safe:
  assumes inv: "budget_inv cfg db" shows "safe_result cfg db (snd (settle cfg lid rid aid now db))"
proof -
  have run: "safe_result cfg db (snd (run_uow (settle_locked cfg lid rid aid now) db))" using inv by (rule settle_tx.run_safe)
  obtain res db1 where r: "run_uow (settle_locked cfg lid rid aid now) db = (res, db1)" by (cases "run_uow (settle_locked cfg lid rid aid now) db")
  have s1: "safe_result cfg db db1" using run r by simp
  have fz: "safe_result cfg db (snd (freeze_evidence_quarantine cfg rid aid reason db1))" for reason
    using safe_trans [OF s1 freeze_safe] s1 by (simp add: safe_result_def)
  show ?thesis unfolding settle_def r using s1 fz
    by (auto split: sum.split budget_error.split prod.split) (metis snd_conv)+
qed

lemma release_safe: "budget_inv cfg db \<Longrightarrow> safe_result cfg db (snd (release_proven_unsent rid aid now db))"
  unfolding release_proven_unsent_def by (rule release_tx.run_safe)

lemma release_unsent_safe: "budget_inv cfg db \<Longrightarrow> safe_result cfg db (snd (release_unsent rid aid proof now db))"
  by (simp add: release_unsent_def release_safe)

lemma revoke_safe: "budget_inv cfg db \<Longrightarrow> safe_result cfg db (snd (reconcile_revoked_subject subject now db))"
  unfolding reconcile_revoked_subject_def by (rule revoke_tx.run_safe)

lemma turn_loop_safe: "budget_inv cfg db \<Longrightarrow> safe_result cfg db (snd (reconcile_turn_loop cfg fresh now bound db))"
proof (induction bound arbitrary: db)
  case (Cons b bound)
  obtain rid aid state where b: "b = (rid, aid, state)" by (cases b)
  have h: "safe_result cfg db (snd (reconcile_turn_loop cfg fresh now bound db'))" if "safe_result cfg db db'" for db'
    using safe_trans [OF that Cons.IH] that by (simp add: safe_result_def)
  obtain res db1 where r1: "release_proven_unsent rid aid now db = (res, db1)" by (cases "release_proven_unsent rid aid now db")
  have s1: "safe_result cfg db db1" using release_safe [OF Cons.prems, of rid aid now] r1 by simp
  then have i1: "budget_inv cfg db1" by (simp add: safe_result_def)
  obtain res' db2 where r2: "settle cfg (fresh rid) rid aid now db1 = (res', db2)" by (cases "settle cfg (fresh rid) rid aid now db1")
  have s2: "safe_result cfg db db2" using safe_trans [OF s1] settle_safe [OF i1, of "fresh rid" rid aid now] r2 by simp
  have h2: "safe_result cfg db (snd (case reconcile_turn_loop cfg fresh now bound db2 of
      (Inr ss, db3) \<Rightarrow> (Inr (s # ss), db3) | (Inl e, db3) \<Rightarrow> (Inl e, db3)))" for s
    using h [OF s2] by (auto split: prod.split sum.split)
  show ?case unfolding b using h [of db] h [OF s1] h [OF s2] h2 s1 s2 Cons.prems
    by (simp add: r1 r2 split: sum.split)
qed simp

lemma turn_safe: "budget_inv cfg db \<Longrightarrow> safe_result cfg db (snd (reconcile_turn cfg fresh turn proofs now db))"
  by (simp add: reconcile_turn_def Let_def turn_loop_safe split: sum.split)

lemma reconcile_row_safe:
  assumes inv: "budget_inv cfg db" and run: "reconcile_row cfg fresh now r db = Inr db'"
  shows "safe_result cfg db db'"
proof -
  consider u where "release_unsent_locked (r_id r) (r_attempt r) now db = Inr (u, db')"
    | s where "settle_locked cfg (fresh (r_id r)) (r_id r) (r_attempt r) now db = Inr (s, db')"
    using run by (auto simp: reconcile_row_def Let_def as_batch_def bindE_eq_Inr split: if_splits sum.splits budget_error.splits)
  then show ?thesis using inv release_tx.body_safe settle_tx.body_safe by cases blast+
qed

lemma reconcile_rows_safe:
  "budget_inv cfg db \<Longrightarrow> reconcile_rows cfg fresh now rs db = Inr db' \<Longrightarrow> safe_result cfg db db'"
proof (induction rs arbitrary: db)
  case (Cons r rs)
  then obtain db1 where "reconcile_row cfg fresh now r db = Inr db1" "reconcile_rows cfg fresh now rs db1 = Inr db'"
    by (auto simp: bindE_eq_Inr)
  moreover then have "safe_result cfg db db1" using reconcile_row_safe [OF Cons.prems(1)] by blast
  moreover then have "budget_inv cfg db1" by (simp add: safe_result_def)
  ultimately show ?case using Cons.IH safe_trans by blast
qed simp

lemma batch_safe:
  assumes inv: "budget_inv cfg db" shows "safe_result cfg db (snd (reconcile_batch cfg fresh batch_size now cutoff db))"
  using inv reconcile_rows_safe [OF inv] freeze_safe [OF inv]
  by (auto simp: reconcile_batch_def Let_def split: sum.split batch_error.split prod.split) (metis snd_conv)+

lemma drain_safe:
  "budget_inv cfg db \<Longrightarrow> drain_before_ready fuel cfg fresh batch_size now cutoff db = Some (res, db') \<Longrightarrow> safe_result cfg db db'"
proof (induction fuel arbitrary: db)
  case (Suc fuel)
  obtain out db1 where b: "reconcile_batch cfg fresh batch_size now cutoff db = (out, db1)"
    by (cases "reconcile_batch cfg fresh batch_size now cutoff db")
  have s: "safe_result cfg db db1" using batch_safe [OF Suc.prems(1)] b by (metis snd_conv)
  then show ?case using Suc.prems(2) Suc.IH [of db1] safe_trans [OF s] b
    by (auto simp: safe_result_def split: sum.splits if_splits)
qed simp

subsection \<open>Reachable stores\<close>

definition empty_db :: core_db where
  "empty_db = \<lparr>reservations = [], calls = [], ledger = [], settings = []\<rparr>"

inductive budget_step :: "guard_cfg \<Rightarrow> core_db \<Rightarrow> core_db \<Rightarrow> bool" for cfg where
  step_reserve: "budget_step cfg db (snd (reserve cfg rid q now db))"
| step_begin: "budget_step cfg db (snd (begin_call cfg cid rt cs redaction now db))"
| step_mark_sent: "budget_step cfg db (snd (mark_sent rid aid now db))"
| step_network: "budget_step cfg db (snd (mark_network_invocation_starting cid db))"
| step_finish: "budget_step cfg db (snd (finish_call cfg cid outcome rt receipt now db))"
| step_settle: "budget_step cfg db (snd (settle cfg lid rid aid now db))"
| step_release: "budget_step cfg db (snd (release_unsent rid aid proof now db))"
| step_turn: "budget_step cfg db (snd (reconcile_turn cfg fresh turn proofs now db))"
| step_batch: "budget_step cfg db (snd (reconcile_batch cfg fresh batch_size now cutoff db))"
| step_revoke: "budget_step cfg db (snd (reconcile_revoked_subject subject now db))"
| step_route: "budget_step cfg db (insert_setting_or_keep (RouteKey a) v db)"

definition budget_reach :: "guard_cfg \<Rightarrow> core_db \<Rightarrow> bool" where
  "budget_reach cfg db \<longleftrightarrow> (budget_step cfg)\<^sup>*\<^sup>* empty_db db"

lemma step_safe: "budget_step cfg db db' \<Longrightarrow> budget_inv cfg db \<Longrightarrow> safe_result cfg db db'"
proof (induction rule: budget_step.induct)
  case (step_route db a v)
  have "budget_inv cfg (insert_setting_or_keep (RouteKey a) v db)"
    by (rule same_tables_inv [OF step_route]) (simp_all add: insert_setting_or_keep_map split: option.split)
  moreover have "frame_ok db (insert_setting_or_keep (RouteKey a) v db)" by (rule frame_same) simp_all
  ultimately show ?case by (simp add: safe_result_def insert_setting_or_keep_map split: option.split)
qed (simp_all add: reserve_safe begin_safe mark_sent_safe network_safe finish_safe settle_safe release_unsent_safe turn_safe
      batch_safe revoke_safe)

lemma steps_safe: "(budget_step cfg)\<^sup>*\<^sup>* db db' \<Longrightarrow> budget_inv cfg db \<Longrightarrow> safe_result cfg db db'"
proof (induction rule: rtranclp_induct)
  case (step db1 db2)
  then show ?case using safe_trans step_safe by (metis safe_result_def)
qed simp

lemma empty_inv: "0 \<le> g_hard_limit cfg \<Longrightarrow> budget_inv cfg empty_db"
  by (simp add: budget_inv_def empty_db_def store_ok_def tables_ok_def cap_ok_def ledger_ok_def exposure_def)

lemma reach_inv: "budget_reach cfg db \<Longrightarrow> 0 \<le> g_hard_limit cfg \<Longrightarrow> budget_inv cfg db"
  using steps_safe empty_inv by (simp add: budget_reach_def safe_result_def)


subsection \<open>Properties of reachable stores\<close>

text \<open>
  C1: The hard limit holds or the month is frozen: in every reachable store and for every month, what is
  reserved, sent and charged in that month is at most the hard limit, or cloud egress of that month is
  frozen. Overruns reported by a provider and revocations are included.
\<close>

theorem hard_limit_or_frozen:
  assumes "budget_reach cfg db" "0 \<le> g_hard_limit cfg"
  shows "exposure m db \<le> g_hard_limit cfg \<or> frozen_month m db"
  using reach_inv [OF assms] by (simp add: budget_inv_def cap_ok_def)

lemma frozen_mark:
  assumes "tables_ok db" "frozen_month m db" "r \<in> set (reservations db)" "r_month r = m"
  shows "\<exists>e. fst (mark_sent (r_id r) (r_attempt r) now db) = Inl e"
proof -
  have "mark_pair (r_id r) (r_attempt r) now db = Inl (PermissionErr ''budget_cloud_egress_frozen'')"
    unfolding mark_pair_def tables_find_reservation [OF assms(1,3)] using assms(2,4) by simp
  then show ?thesis by (simp add: mark_sent_def run_uow_def)
qed

lemma frozen_reserve:
  assumes "tables_ok db" "frozen_month (rq_month q) db" "fst (reserve cfg rid q now db) = Inr b"
  shows "b_outcome b = DenyCloudEgressFrozen" "b_amount b = 0"
proof -
  obtain purpose priced db' where run: "reserve_locked cfg rid q purpose priced now db = Inr (b, db')"
    using assms(3) by (auto simp: reserve_def run_uow_def split: if_splits option.splits sum.splits prod.splits)
  obtain row outcome where o: "row = reservation_row_of cfg rid q priced outcome now" "b_outcome b = outcome" "b_amount b = r_reserved row"
    "outcome = decide_outcome (frozen_month (rq_month q) db) (priced = None)
       (exposure (rq_month q) db + (case priced of None \<Rightarrow> 0 | Some (quo, _) \<Rightarrow> q_amount quo))
         (g_hard_limit cfg) (g_soft_limit cfg) (map_of (settings db) (WarningKey (rq_month q)) \<noteq> None)"
    using reserve_effect [OF assms(1) run] by (elim exE conjE) (rule that; simp)
  have "outcome = DenyCloudEgressFrozen" unfolding o(4) using assms(2) by (simp add: decide_outcome_def)
  then show "b_outcome b = DenyCloudEgressFrozen" "b_amount b = 0" using o(1-3) by (simp_all add: reservation_row_of_def)
qed

text \<open>
  C16: A freeze is final: once a month is frozen, it stays frozen in every later store; no reservation of that
  month can be marked sent, and every reservation request for it is denied with amount zero.
\<close>

theorem freeze_final:
  assumes "budget_reach cfg db" "0 \<le> g_hard_limit cfg" "frozen_month m db" "(budget_step cfg)\<^sup>*\<^sup>* db db'"
  shows "frozen_month m db'
    \<and> (\<forall>r now. r \<in> set (reservations db') \<longrightarrow> r_month r = m \<longrightarrow> (\<exists>e. fst (mark_sent (r_id r) (r_attempt r) now db') = Inl e))
    \<and> (\<forall>rid q now b. rq_month q = m \<longrightarrow> fst (reserve cfg rid q now db') = Inr b
         \<longrightarrow> b_outcome b = DenyCloudEgressFrozen \<and> b_amount b = 0)"
proof -
  have "safe_result cfg db db'" using steps_safe [OF assms(4) reach_inv [OF assms(1,2)]] .
  then have d: "budget_inv cfg db'" "frozen_month m db'" using assms(3) by (simp_all add: safe_result_def)
  note t = inv_tables [OF d(1)]
  show ?thesis using d(2) frozen_mark [OF t d(2)] frozen_reserve [OF t] by blast
qed

text \<open>
  C15: A terminal reservation is never changed again: once settled, released or denied, its row is the same in
  every later store, so a charge is made once and a released attempt is never sent.
\<close>

theorem terminal_immutable:
  assumes "budget_reach cfg db" "0 \<le> g_hard_limit cfg" "r \<in> set (reservations db)" "r_state r \<in> terminal_states"
    and "(budget_step cfg)\<^sup>*\<^sup>* db db'"
  shows "r \<in> set (reservations db') \<and> find (\<lambda>x. r_id x = r_id r) (reservations db') = Some r
    \<and> (\<exists>e. fst (mark_sent (r_id r) (r_attempt r) now db') = Inl e)
    \<and> fst (settle cfg lid (r_id r) (r_attempt r) now db') = Inl ReservationNotSettleable"
proof -
  have "safe_result cfg db db'" using steps_safe [OF assms(5) reach_inv [OF assms(1,2)]] .
  then have d: "budget_inv cfg db'" "r \<in> set (reservations db')"
    using assms(3,4) frame_keeps(1) unfolding safe_result_def by blast+
  note t = inv_tables [OF d(1)]
  have "mark_pair (r_id r) (r_attempt r) now db' \<noteq> Inr x" for x
  proof
    assume "mark_pair (r_id r) (r_attempt r) now db' = Inr x"
    moreover obtain u db'' where "x = (u, db'')" by (cases x)
    ultimately obtain r' where "r' \<in> set (reservations db')" "r_id r' = r_id r" "r_state r' = Reserved"
      using mark_pair_effect [OF t] by blast
    then have "r' = r" using reservation_key_unique [OF t d(2)] by blast
    then show False using \<open>r_state r' = Reserved\<close> assms(4) by simp
  qed
  then have "\<exists>e. fst (mark_sent (r_id r) (r_attempt r) now db') = Inl e"
    by (cases "mark_pair (r_id r) (r_attempt r) now db'") (auto simp: mark_sent_def run_uow_def)
  moreover have "settle_locked cfg lid (r_id r) (r_attempt r) now db' = Inl ReservationNotSettleable"
    unfolding settle_locked_def tables_find_reservation [OF t d(2)] using assms(4) by auto
  ultimately show ?thesis using d(2) tables_find_reservation(2) [OF t d(2)] by (simp add: settle_def run_uow_def)
qed



lemma exposure_lower:
  assumes "tables_ok db" "r \<in> set (reservations db)" "r_state r \<in> open_states"
  shows "r_reserved r \<le> exposure (r_month r) db"
proof -
  have nn: "0 \<le> contrib m x" if "x \<in> set (reservations db)" for m x
    using counted_amount_bounds [of x] assms(1) that by (auto simp: contrib_def tables_ok_def)
  have "exposure (r_month r) db = contrib (r_month r) r
      + sum_list (map (contrib (r_month r)) (filter (\<lambda>x. r_id x \<noteq> r_id r) (reservations db)))"
    unfolding exposure_def using assms by (intro sum_list_others) (simp_all add: tables_ok_def)
  moreover have "0 \<le> sum_list (map (contrib (r_month r)) (filter (\<lambda>x. r_id x \<noteq> r_id r) (reservations db)))"
    using nn by (intro sum_list_nonneg) auto
  moreover have "contrib (r_month r) r = r_reserved r" using assms(3) by (auto simp: contrib_def counted_amount_def)
  ultimately show ?thesis by simp
qed

lemma stuck_settle:
  assumes "tables_ok db" "stuck_claim r db"
  shows "\<exists>e. settle_locked cfg lid (r_id r) (r_attempt r) now db = Inl e"
proof -
  have r: "r \<in> set (reservations db)" using assms(2) by (simp add: stuck_claim_def)
  show ?thesis unfolding settle_locked_def tables_find_reservation(1) [OF assms(1) r] stuck_evidence [OF assms]
    by (cases "require_pricing_snapshot (g_evidence cfg) r") (auto simp: stuck_evidence [OF assms])
qed

lemma stuck_not_proven:
  assumes "tables_ok db" "stuck_claim r db"
  shows "\<not> proven_unsent r (filter (\<lambda>c. c_reservation c = r_id r \<and> c_attempt c = r_attempt r) (calls db))"
  using assms calls_filter [OF assms(1), of r]
  by (auto simp: stuck_claim_def proven_unsent_def cancelled_call_def closed_call_def)

lemma stuck_row_fails:
  assumes "tables_ok db" "stuck_claim r db" shows "\<exists>e. reconcile_row cfg fresh now r db = Inl e"
proof -
  obtain e where "settle_locked cfg (fresh (r_id r)) (r_id r) (r_attempt r) now db = Inl e" using stuck_settle [OF assms] by blast
  then show ?thesis using stuck_not_proven [OF assms]
    by (auto simp: reconcile_row_def Let_def as_batch_def split: budget_error.split)
qed

lemma stuck_rows_fail:
  "budget_inv cfg db \<Longrightarrow> stuck_claim r db \<Longrightarrow> r \<in> set rs \<Longrightarrow> \<exists>e. reconcile_rows cfg fresh now rs db = Inl e"
proof (induction rs arbitrary: db)
  case (Cons x rs)
  show ?case
  proof (cases "reconcile_row cfg fresh now x db")
    case (Inr db1)
    then have s: "safe_result cfg db db1" using reconcile_row_safe [OF Cons.prems(1)] by blast
    then have "budget_inv cfg db1" "stuck_claim r db1" using Cons.prems(2) frame_keeps(2) unfolding safe_result_def by blast+
    moreover have "x \<noteq> r" using stuck_row_fails [OF inv_tables [OF Cons.prems(1)] Cons.prems(2), of cfg fresh now] Inr by auto
    ultimately show ?thesis using Cons.IH Cons.prems(3) Inr by auto
  qed simp
qed simp

lemma freeze_same_rows: "reservations (snd (freeze_evidence_quarantine cfg rid aid reason db)) = reservations db"
  by (auto simp: freeze_evidence_quarantine_def run_uow_def bindE_eq_Inr record_freeze_effect split: option.splits sum.splits)

lemma stuck_batch_fails:
  assumes "budget_inv cfg db" "stuck_claim r db" "r \<in> set (batch_rows n now cutoff db)"
  shows "(\<exists>e. fst (reconcile_batch cfg fresh n now cutoff db) = Inl e)
    \<and> reservations (snd (reconcile_batch cfg fresh n now cutoff db)) = reservations db"
proof -
  obtain e where e: "reconcile_rows cfg fresh now (batch_rows n now cutoff db) db = Inl e"
    using stuck_rows_fail [OF assms] by blast
  show ?thesis
  proof (cases e)
    case (Plain x)
    then show ?thesis using e by (simp add: reconcile_batch_def)
  next
    case (ReconciliationEvidenceQuarantined rid aid reason)
    then show ?thesis using e freeze_same_rows [of cfg rid aid reason db]
      by (auto simp: reconcile_batch_def split: prod.split sum.split)
  qed
qed

text \<open>
  C29: A revoked claim blocks its budget for good: when a revocation cancelled the call of a reservation that
  was claimed but not yet sent, the reservation stays reserved in every later store. Its amount counts
  against its month forever, it can be neither released nor settled, and every reconciliation batch that
  selects it raises and settles nothing, the other expired reservations of the batch included.
\<close>

theorem revoked_claim_blocks:
  assumes "budget_reach cfg db" "0 \<le> g_hard_limit cfg" "stuck_claim r db" "(budget_step cfg)\<^sup>*\<^sup>* db db'"
  shows "r \<in> set (reservations db') \<and> r_state r = Reserved \<and> r_reserved r \<le> exposure (r_month r) db'
    \<and> (\<exists>e. fst (release_proven_unsent (r_id r) (r_attempt r) now db') = Inl e)
    \<and> (\<exists>e. settle_locked cfg lid (r_id r) (r_attempt r) now db' = Inl e)
    \<and> (r \<in> set (batch_rows n now cutoff db') \<longrightarrow> (\<exists>e. fst (reconcile_batch cfg fresh n now cutoff db') = Inl e)
         \<and> reservations (snd (reconcile_batch cfg fresh n now cutoff db')) = reservations db')"
proof -
  have "safe_result cfg db db'" using steps_safe [OF assms(4) reach_inv [OF assms(1,2)]] .
  then have d: "budget_inv cfg db'" "stuck_claim r db'" using assms(3) frame_keeps(2) unfolding safe_result_def by blast+
  note t = inv_tables [OF d(1)]
  have r: "r \<in> set (reservations db')" "r_state r = Reserved" using d(2) by (simp_all add: stuck_claim_def)
  have "release_unsent_locked (r_id r) (r_attempt r) now db' = Inl SentReservationRequiresSettlement"
    unfolding release_unsent_locked_def Let_def tables_find_reservation(1) [OF t r(1)] using stuck_not_proven [OF t d(2)] by simp
  then have "\<exists>e. fst (release_proven_unsent (r_id r) (r_attempt r) now db') = Inl e" by (simp add: release_proven_unsent_def run_uow_def)
  then show ?thesis using r exposure_lower [OF t r(1)] stuck_settle [OF t d(2)] stuck_batch_fails [OF d] by simp
qed


subsection \<open>Settlement returns\<close>

lemma total_amounts_total:
  assumes "0 \<le> acc" "\<forall>r \<in> set rs. counted_amount r \<noteq> None \<and> 0 \<le> the (counted_amount r)"
    "acc + sum_list (map (\<lambda>r. the (counted_amount r)) rs) \<le> MAX_AGGREGATE_MICROS_SGD"
  shows "total_amounts e acc rs = Inr (acc + sum_list (map (\<lambda>r. the (counted_amount r)) rs))"
  using assms
proof (induction rs arbitrary: acc)
  case (Cons r rs)
  then obtain a where a: "counted_amount r = Some a" "0 \<le> a" by force
  have nn: "0 \<le> sum_list (map (\<lambda>r. the (counted_amount r)) rs)" using Cons.prems(2) by (intro sum_list_nonneg) auto
  have "acc + a + sum_list (map (\<lambda>r. the (counted_amount r)) rs) \<le> MAX_AGGREGATE_MICROS_SGD" using Cons.prems(3) a by simp
  then show ?case using Cons.IH [of "acc + a"] Cons.prems a nn by (simp add: lift_py_def checked_add_def)
qed simp

lemma update_one_unique:
  assumes "filter P rows = [r]" "chk (f r)"
  shows "update_one chk P f err rows = Inr (map (\<lambda>x. if P x then f x else x) rows)"
proof -
  have "list_all (\<lambda>x. P x \<longrightarrow> chk (f x)) rows"
    using filter_singleton_iff [OF assms(1)] assms(2) by (auto simp: list_all_iff)
  then show ?thesis using assms(1) by (simp add: update_one_def sql_update_def)
qed

text \<open>The evidence of a sent reservation whose call did not report success: a conservative settlement.\<close>

lemma settle_evidence_conservative:
  assumes t: "tables_ok db" and r: "r \<in> set (reservations db)" "r_state r = Sent" "pair_ok r (Some c)"
    and c: "call_of (r_id r) db = Some c" "c_outcome c \<noteq> Succeeded"
  shows "\<exists>cs. settle_evidence cfg r now db = Inr (cs, None, True)"
proof -
  have one: "filter (\<lambda>c. c_reservation c = r_id r \<and> c_attempt c = r_attempt r) (calls db) = [c]"
    using calls_filter [OF t r(1)] c(1) by simp
  have cm: "c \<in> set (calls db)" using call_of_reservation [OF c(1)] by simp
  have chk: "call_check c" "r_ordering r = 1" using t cm r(1) by (auto simp: tables_ok_def reservation_check_def)
  from r(3) consider (live) "open_call (r_phase r) c" "r_phase r \<in> {MarkedSent, NetworkInvocationStarting}"
    | (closed) "closed_call c" "r_phase r = Finished" using r(2) by (auto simp: pair_ok_def)
  then show ?thesis
  proof cases
    case live
    have "filter (\<lambda>x. c_id x = c_id c \<and> c_outcome x = Started \<and> c_ordering x = 1 \<and> c_phase x = c_phase c) (calls db) = [c]"
      by (rule filter_distinct [where key = c_id]) (use t cm live chk in \<open>auto simp: tables_ok_def open_call_def call_check_def\<close>)
    from update_one_unique [OF this, where chk = call_check] show ?thesis
      unfolding settle_evidence_def one Let_def using live chk r(2)
      by (auto simp: open_call_def call_check_def)
  next
    case closed
    then show ?thesis unfolding settle_evidence_def one Let_def using c(2) chk by (simp add: closed_call_def call_check_def)
  qed
qed

lemma settled_check:
  assumes "reservation_check r" "r_state r \<in> open_states" "0 \<le> charged" "charged \<le> MAX_CHARGE_MICROS_SGD"
  shows "reservation_check (settled_row charged now r)"
  using assms by (auto simp: reservation_check_def settled_row_def outcome_shape_ok_def split: budget_outcome.splits)

lemma open_allowing:
  assumes "reservation_check r" "r_state r \<in> open_states"
  shows "r_outcome r \<in> allowing" "\<exists>p. r_price r = Some p" "1 \<le> r_reserved r" "r_reserved r \<le> MAX_CHARGE_MICROS_SGD"
  using assms by (auto simp: reservation_check_def outcome_shape_ok_def split: budget_outcome.splits)

lemma write_conservative:
  assumes inv: "budget_inv cfg db" and r: "r \<in> set (reservations db)" "r_state r = Sent"
    and fresh: "\<forall>l \<in> set (ledger db). l_id l \<noteq> lid" and m: "monthly \<le> g_hard_limit cfg"
  shows "\<exists>db'. write_settlement cfg lid r cs None (r_reserved r) True monthly now db =
    Inr (\<lparr>s_reservation = r_id r, s_charged = r_reserved r, s_conservative = True, s_overrun = False, s_frozen = False\<rparr>, db')"
proof -
  note t = inv_tables [OF inv] and chk = inv_check [OF inv r(1)]
  have op: "r_state r \<in> open_states" using r(2) by simp
  note oa = open_allowing [OF chk op]
  obtain p where p: "r_price r = Some p" using oa(2) by blast
  let ?P = "\<lambda>x. r_id x = r_id r \<and> r_attempt x = r_attempt r \<and> r_state x \<in> open_states"
  let ?l = "settlement_ledger_row cfg lid r p None (r_reserved r) True monthly now"
  let ?rows = "map (\<lambda>x. if ?P x then settled_row (r_reserved r) now x else x) (reservations db)"
  have "filter ?P (reservations db) = [r]"
    by (rule filter_distinct [where key = r_id]) (use t r in \<open>simp_all add: tables_ok_def\<close>)
  then have up: "update_one reservation_check ?P (settled_row (r_reserved r) now) ReservationNotSettleable (reservations db) = Inr ?rows"
    using settled_check [OF chk op, of "r_reserved r" now] oa by (intro update_one_unique) simp_all
  have "settled_row (r_reserved r) now r \<in> set ?rows" using r by force
  then have par: "list_ex (ledger_parent ?l) ?rows" using settlement_parent [OF p] unfolding list_ex_iff by blast
  have "l_reservation x \<noteq> r_id r" if "x \<in> set (ledger db)" for x
    using inv that reservation_key_unique [OF t r(1)] r(2) by (fastforce simp: budget_inv_def ledger_ok_def ledger_parent_def)
  then have "\<forall>x \<in> set (ledger db). \<not> ledger_conflict x ?l"
    using fresh by (simp add: ledger_conflict_def settlement_ledger_row_def)
  moreover have "ledger_check ?l"
    using chk oa p by (simp add: ledger_check_def settlement_ledger_row_def reservation_check_def no_receipt_def)
  ultimately have ins: "sql_insert ledger_check ledger_conflict ?l (ledger db) = Inr (ledger db @ [?l])"
    unfolding sql_insert_Inr by simp
  show ?thesis unfolding write_settlement_def Let_def up using p par ins m by (simp add: freeze_reason_def)
qed

text \<open>
  C25: Settlement returns and is conservative: in every reachable store, a sent reservation whose pricing
  evidence verifies and whose call did not succeed (still open, failed, cancelled or ambiguous) settles,
  provided the month is within its limit and the ledger identifier is fresh. It is charged exactly the full
  reservation, which is marked as a conservative estimate, and no freeze is recorded.
\<close>

theorem settle_conservative_returns:
  assumes "budget_reach cfg db" "0 \<le> g_hard_limit cfg" "r \<in> set (reservations db)" "r_state r = Sent"
    and "require_pricing_snapshot (g_evidence cfg) r = Inr snapshot"
    and "call_of (r_id r) db = Some c" "c_outcome c \<noteq> Succeeded"
    and "exposure (r_month r) db \<le> g_hard_limit cfg" "g_hard_limit cfg \<le> MAX_AGGREGATE_MICROS_SGD"
    and "\<forall>l \<in> set (ledger db). l_id l \<noteq> lid"
  shows "fst (settle cfg lid (r_id r) (r_attempt r) now db) =
    Inr \<lparr>s_reservation = r_id r, s_charged = r_reserved r, s_conservative = True, s_overrun = False, s_frozen = False\<rparr>"
proof -
  note inv = reach_inv [OF assms(1,2)]
  note t = inv_tables [OF inv] and chk = inv_check [OF inv assms(3)]
  have op: "r_state r \<in> open_states" using assms(4) by simp
  note oa = open_allowing [OF chk op]
  obtain cs where ev: "settle_evidence cfg r now db = Inr (cs, None, True)"
    using settle_evidence_conservative [OF t assms(3,4) _ assms(6,7)] inv_pair [OF inv assms(3)] assms(6) by auto
  have charge: "settle_charge snapshot (r_reserved r) None True = Inr (r_reserved r, True)"
    using oa(3,4) by (simp add: settle_charge_def max_def)
  let ?others = "filter (\<lambda>x. r_id x \<noteq> r_id r) (month_rows (r_month r) db)"
  have sum: "exposure (r_month r) db = r_reserved r + sum_list (map (\<lambda>x. the (counted_amount x)) ?others)"
  proof -
    have "distinct (map r_id (month_rows (r_month r) db))" "r \<in> set (month_rows (r_month r) db)"
      using t assms(3,4) by (simp_all add: month_rows_def tables_ok_def distinct_map_filter)
    from sum_list_others [OF this, of "\<lambda>x. the (counted_amount x)"] show ?thesis
      unfolding exposure_month_rows using assms(4) by (simp add: counted_amount_def)
  qed
  have "\<forall>x \<in> set ?others. counted_amount x \<noteq> None \<and> 0 \<le> the (counted_amount x)"
  proof
    fix x assume "x \<in> set ?others"
    then have "reservation_check x" "r_state x \<in> counted_states" using t by (auto simp: month_rows_def tables_ok_def)
    then show "counted_amount x \<noteq> None \<and> 0 \<le> the (counted_amount x)" using counted_amount_some counted_amount_bounds by blast
  qed
  then have tot: "total_amounts e (r_reserved r) ?others = Inr (exposure (r_month r) db)" for e
    using total_amounts_total [of "r_reserved r" ?others e] sum assms(8,9) oa(3) by simp
  obtain db' where w: "write_settlement cfg lid r cs None (r_reserved r) True (exposure (r_month r) db) now db =
    Inr (\<lparr>s_reservation = r_id r, s_charged = r_reserved r, s_conservative = True, s_overrun = False, s_frozen = False\<rparr>, db')"
    using write_conservative [OF inv assms(3,4,10,8)] by blast
  have "r_reserved r \<le> MAX_AGGREGATE_MICROS_SGD" using oa(4) by (simp add: bound_defs)
  then have "settle_locked cfg lid (r_id r) (r_attempt r) now db =
    Inr (\<lparr>s_reservation = r_id r, s_charged = r_reserved r, s_conservative = True, s_overrun = False, s_frozen = False\<rparr>, db')"
    unfolding settle_locked_def tables_find_reservation(1) [OF t assms(3)] using op oa(1) assms(5) ev charge tot w by simp
  then show ?thesis by (simp add: settle_def run_uow_def)
qed

end
