(* ===== verification/Budget_Theorems.thy ===== *)
theory Budget_Theorems
  imports Budget_System
begin

text \<open>
  Further properties of the budget: accounting of one settlement, budget cover of every network call, the
  pricing evidence that a reservation stores, termination of the start-up drain, and two behaviours of the
  code that differ from what its comments and names intend.
\<close>

subsection \<open>Accounting of a settlement\<close>

lemma settle_Inr_locked:
  assumes "settle cfg lid rid aid now db = (Inr s, db')"
  shows "settle_locked cfg lid rid aid now db = Inr (s, db')"
  using assms unfolding settle_def run_uow_def
  by (auto split: sum.splits prod.splits budget_error.splits)

lemma settle_charge_bounds:
  assumes "settle_charge snapshot reserved receipt force = Inr (charged, conservative)"
  shows "0 \<le> charged" "charged \<le> MAX_CHARGE_MICROS_SGD" "conservative \<Longrightarrow> reserved \<le> charged"
    "receipt = None \<Longrightarrow> 0 \<le> reserved \<Longrightarrow> charged = reserved \<and> conservative"
  using assms by (auto simp: settle_charge_def Let_def bindE_eq_Inr split: if_splits option.splits)

text \<open>
  C13: A settlement keeps the books: when it returns, the month's exposure has moved by exactly the
  difference between the charge and the reservation, the charge is within bounds and not below the
  reservation when it is conservative, exactly one ledger row with that charge was added, and the
  reported freeze is set exactly when the month now exceeds the hard limit or the call overran its
  reservation; a reported freeze is in force.
\<close>

theorem settle_accounts:
  assumes "budget_inv cfg db" "settle cfg lid rid aid now db = (Inr s, db')"
  shows "\<exists>r l. r \<in> set (reservations db) \<and> r_id r = rid \<and> r_attempt r = aid \<and> r_state r \<in> open_states
    \<and> exposure (r_month r) db' = exposure (r_month r) db - r_reserved r + s_charged s
    \<and> 0 \<le> s_charged s \<and> s_charged s \<le> MAX_CHARGE_MICROS_SGD
    \<and> (s_conservative s \<longrightarrow> r_reserved r \<le> s_charged s)
    \<and> ledger db' = ledger db @ [l] \<and> l_reservation l = rid \<and> l_charged l = s_charged s
    \<and> (s_frozen s \<longleftrightarrow> exposure (r_month r) db' > g_hard_limit cfg \<or> s_charged s > r_reserved r)
    \<and> (s_frozen s \<longrightarrow> frozen_month (r_month r) db')"
proof -
  note t = inv_tables [OF assms(1)] and run = settle_Inr_locked [OF assms(2)]
  obtain r snapshot cs receipt force charged conservative monthly e where
    r: "r \<in> set (reservations db)" "r_id r = rid" "r_attempt r = aid" "r_state r \<in> open_states"
    and ch: "settle_charge snapshot (r_reserved r) receipt force = Inr (charged, conservative)"
    and tot: "total_amounts e charged (filter (\<lambda>x. r_id x \<noteq> r_id r) (month_rows (r_month r) db)) = Inr monthly"
    and w: "write_settlement cfg lid r cs receipt charged conservative monthly now db = Inr (s, db')"
    using settle_effect [OF t run] by blast
  let ?r = "settled_row charged now r"
  obtain p l where p: "reservation_check ?r" "r_price r = Some p"
    and l: "l = settlement_ledger_row cfg lid r p receipt charged conservative monthly now"
    and s: "s = \<lparr>s_reservation = r_id r, s_charged = charged, s_conservative = conservative, s_overrun = (charged > r_reserved r),
           s_frozen = (monthly > g_hard_limit cfg \<or> charged > r_reserved r)\<rparr>"
    and fin: "case freeze_reason (monthly > g_hard_limit cfg) (charged > r_reserved r) of
         None \<Rightarrow> db' = (put_row ?r db)\<lparr>calls := cs, ledger := ledger db @ [l]\<rparr>
       | Some why \<Rightarrow> record_freeze (r_month r) why (Some monthly) (g_hard_limit cfg) (r_id r)
              ((put_row ?r db)\<lparr>calls := cs, ledger := ledger db @ [l]\<rparr>) = Inr db'"
    using write_settlement_effect [OF t r(1,4) w] by blast
  have tabs: "reservations db' = reservations (put_row ?r db)" "ledger db' = ledger db @ [l]"
    and fz: "s_frozen s \<Longrightarrow> frozen_month (r_month r) db'"
    using fin record_freeze_effect [of "r_month r" _ _ _ _ "(put_row ?r db)\<lparr>calls := cs, ledger := ledger db @ [l]\<rparr>" db'] s
    by (auto simp: freeze_reason_def split: if_splits option.splits)
  have row: "row_step db db' r ?r" using r p(1) tabs(1) by (simp add: row_step_def put_row_def settled_row_def same_key_def)
  have "contrib (r_month r) ?r = charged" "contrib (r_month r) r = r_reserved r"
    using r(4) by (auto simp: contrib_def counted_amount_def settled_row_def)
  then have ex: "exposure (r_month r) db' = exposure (r_month r) db - r_reserved r + charged"
    using exposure_row_step [OF t row, of "r_month r"] by simp
  have m: "exposure (r_month r) db' = monthly" by (rule monthly_total [OF t r(1,4) p(1) tot tabs(1)])
  have "l_reservation l = rid" "l_charged l = charged" using l r(2) by (simp_all add: settlement_ledger_row_def)
  then show ?thesis using r ex m tabs(2) fz s settle_charge_bounds(1-3) [OF ch]
    by (intro exI [of _ r] exI [of _ l]) auto
qed

subsection \<open>Network calls are covered by the budget\<close>

text \<open>
  C6: No network call without budget: in every reachable store a call that has been marked sent and not
  closed belongs to a reservation that is in the same transport phase, was allowed, and whose positive
  amount counts in full against its month.
\<close>

theorem network_call_covered:
  assumes "budget_reach cfg db" "0 \<le> g_hard_limit cfg" "c \<in> set (calls db)" "c_outcome c = Started" "c_phase c \<noteq> ClaimBegun"
  shows "\<exists>r \<in> set (reservations db). call_parent c r \<and> r_state r = Sent \<and> r_phase r = c_phase c
    \<and> r_outcome r \<in> allowing \<and> 1 \<le> r_reserved r \<and> r_reserved r \<le> exposure (r_month r) db"
proof -
  note inv = reach_inv [OF assms(1,2)]
  note t = inv_tables [OF inv]
  obtain r where r: "r \<in> set (reservations db)" "call_parent c r" "call_of (r_id r) db = Some c"
    using call_parent_of [OF t assms(3)] by blast
  have "pair_ok r (Some c)" using inv_pair [OF inv r(1)] r(3) by simp
  then have s: "r_state r = Sent" "r_phase r = c_phase c"
    using assms(4,5) by (auto simp: pair_ok_def open_call_def closed_call_def cancelled_call_def split: reservation_state.splits)
  then have op: "r_state r \<in> open_states" by simp
  show ?thesis using r s open_allowing [OF inv_check [OF inv r(1)] op] exposure_lower [OF t r(1) op] by blast
qed

subsection \<open>Stored pricing evidence\<close>

text \<open>
  What the canonical encodings promise of one request and its quote: the canonical text of the usage and of the
  pricing snapshot parse back to the values they were printed from.
\<close>

definition evidence_law :: "evidence_env \<Rightarrow> reservation_request \<Rightarrow> price_quote \<Rightarrow> bool" where
  "evidence_law ev q quo \<longleftrightarrow> parse_usage ev (canon_usage ev (rq_usage q)) = Some (rq_usage q)
     \<and> (let s = \<lparr>ps_request = q_request q, ps_attempt = q_attempt q, ps_usage = rq_usage q, ps_quote = quo\<rparr> in
        parse_snapshot ev (canon_snapshot ev s) = Some s)"

lemma quote_ok_Inr: "quote cat now provider model u = Inr q \<Longrightarrow> quote_ok q"
  by (auto simp: quote_def bindE_eq_Inr Let_def split: if_splits)

text \<open>
  C26: A reservation that is allowed stores evidence that verifies: its row carries a pricing snapshot from
  which the guard recovers the very quote it reserved, and re-pricing the reserved usage from that snapshot
  gives the reserved amount.
\<close>

theorem reserve_evidence_verifies:
  assumes "budget_inv cfg db" "reservation_request_ok q"
    and "\<forall>quo. quote (g_catalog cfg) now (rq_provider q) (rq_model q) (rq_usage q) = Inr quo \<longrightarrow> evidence_law (g_evidence cfg) q quo"
    and "reserve cfg rid q now db = (Inr b, db')" "b_outcome b \<in> allowing"
  shows "\<exists>r quo. r \<in> set (reservations db') \<and> r_id r = rid \<and> r_state r = Reserved
    \<and> quote (g_catalog cfg) now (rq_provider q) (rq_model q) (rq_usage q) = Inr quo
    \<and> require_pricing_snapshot (g_evidence cfg) r = Inr quo
    \<and> amount_from_snapshot quo (rq_usage q) = Inr (r_reserved r) \<and> b_amount b = r_reserved r"
proof -
  obtain purpose where run: "reserve_locked cfg rid q purpose (priced_quote cfg q now) now db = Inr (b, db')"
    using assms(4) by (auto simp: reserve_def run_uow_def split: if_splits option.splits sum.splits prod.splits)
  obtain r outcome where e: "r = reservation_row_of cfg rid q (priced_quote cfg q now) outcome now"
    "outcome = decide_outcome (frozen_month (rq_month q) db) (priced_quote cfg q now = None)
       (exposure (rq_month q) db + (case priced_quote cfg q now of None \<Rightarrow> 0 | Some (quo, _) \<Rightarrow> q_amount quo))
         (g_hard_limit cfg) (g_soft_limit cfg) (map_of (settings db) (WarningKey (rq_month q)) \<noteq> None)"
    "reservations db' = reservations db @ [r]" "b_outcome b = outcome" "b_amount b = r_reserved r"
    using reserve_effect [OF inv_tables [OF assms(1)] run] by (elim exE conjE) (rule that; simp)
  have al: "outcome \<in> allowing" using assms(5) e(4) by simp
  then have "priced_quote cfg q now \<noteq> None" unfolding e(2) decide_allowing by blast
  then obtain quo s where pq: "priced_quote cfg q now = Some (quo, s)" by auto
  have q: "quote (g_catalog cfg) now (rq_provider q) (rq_model q) (rq_usage q) = Inr quo"
    and s: "issue_pricing_snapshot (g_evidence cfg) q quo = Inr s"
    using pq by (auto simp: priced_quote_def split: sum.splits)
  have row: "r_id r = rid" "r_state r = Reserved" "r_reserved r = q_amount quo" "r_price r = Some (price_columns_of quo s)"
    "r_request r = q_request q" "r_attempt r = q_attempt q" "r_provider r = rq_provider q" "r_model r = rq_model q"
    "r_category r = rq_category q" "r_usage_json r = canon_usage (g_evidence cfg) (rq_usage q)"
    using al by (auto simp: e(1) reservation_row_of_def pq)
  let ?snap = "\<lparr>ps_request = q_request q, ps_attempt = q_attempt q, ps_usage = rq_usage q, ps_quote = quo\<rparr>"
  have ps: "parse_snapshot (g_evidence cfg) (canon_snapshot (g_evidence cfg) ?snap) = Some ?snap"
    and pu: "parse_usage (g_evidence cfg) (canon_usage (g_evidence cfg) (rq_usage q)) = Some (rq_usage q)"
    using assms(3) q by (simp_all add: evidence_law_def Let_def)
  have sig: "ss_json s = canon_snapshot (g_evidence cfg) ?snap" "ss_key_id s = ev_key_id (g_evidence cfg)"
    "ss_hmac s = commit_hmac (g_evidence cfg) ''budget.pricing-snapshot.v1'' (canon_snapshot (g_evidence cfg) ?snap)"
    using s by (auto simp: issue_pricing_snapshot_def Let_def split: if_splits)
  have "require_pricing_snapshot (g_evidence cfg) r = Inr quo"
    unfolding require_pricing_snapshot_def Let_def
    using row sig ps pu quote_Inr [OF q] quote_ok_Inr [OF q] assms(2)
    by (simp add: price_columns_of_def reservation_request_ok_def)
  moreover have "amount_from_snapshot quo (rq_usage q) = Inr (r_reserved r)"
    using quote_Inr(1,2) [OF q] row(3) by (simp add: amount_from_snapshot_def)
  ultimately show ?thesis using e(3,5) row q by (intro exI [of _ r] exI [of _ quo]) simp
qed

subsection \<open>The drain ends\<close>

definition open_count :: "core_db \<Rightarrow> nat" where
  "open_count db = length (filter (\<lambda>r. r_state r \<in> open_states) (reservations db))"

lemma open_count_row_step:
  assumes t: "tables_ok db" and row: "row_step db db' r r'" and st: "r_state r \<in> open_states" "r_state r' \<notin> open_states"
  shows "open_count db' < open_count db"
proof -
  let ?O = "\<lambda>x. r_state x \<in> open_states"
  have r: "r \<in> set (reservations db)" and k: "r_id r' = r_id r"
    and rows: "reservations db' = map (\<lambda>x. if r_id x = r_id r then r' else x) (reservations db)"
    using row by (auto simp: row_step_def same_key_def)
  have "filter ?O (map (\<lambda>x. if r_id x = r_id r then r' else x) xs) = filter (\<lambda>x. ?O x \<and> r_id x \<noteq> r_id r) xs" for xs
    using st(2) by (induction xs) auto
  then have "open_count db' = length (filter (\<lambda>x. ?O x \<and> r_id x \<noteq> r_id r) (reservations db))"
    by (simp add: open_count_def rows)
  also have "\<dots> = length (filter (\<lambda>x. r_id x \<noteq> r_id r) (filter ?O (reservations db)))"
    by (simp add: conj_commute)
  also have "\<dots> < length (filter ?O (reservations db))"
    by (rule length_filter_less [of r]) (use r st(1) in auto)
  finally show ?thesis by (simp add: open_count_def)
qed

lemma reconcile_row_count:
  assumes inv: "budget_inv cfg db" and run: "reconcile_row cfg fresh now r db = Inr db'"
  shows "open_count db' < open_count db"
proof -
  note t = inv_tables [OF inv]
  consider (rel) u where "release_unsent_locked (r_id r) (r_attempt r) now db = Inr (u, db')"
    | (set) s where "settle_locked cfg (fresh (r_id r)) (r_id r) (r_attempt r) now db = Inr (s, db')"
    using run by (auto simp: reconcile_row_def Let_def as_batch_def bindE_eq_Inr split: if_splits sum.splits budget_error.splits)
  then show ?thesis
  proof cases
    case rel
    obtain x x' where x: "x \<in> set (reservations db)" "r_state x = Reserved"
      "x' = x\<lparr>r_state := Released, r_phase := Finished, r_reconciled_at := Some now\<rparr>" "reservation_check x'"
      "reservations db' = reservations (put_row x' db)"
      using release_effect [OF t rel] by fastforce
    have "row_step db db' x x'" using x by (simp add: row_step_def put_row_def same_key_def)
    then show ?thesis by (rule open_count_row_step [OF t]) (use x in simp_all)
  next
    case set
    obtain x where "row_step db db' x (settled_row (s_charged s) now x)" "r_state x \<in> open_states"
      using settle_steps [OF t set] by blast
    then show ?thesis by (intro open_count_row_step [OF t, of db' x "settled_row (s_charged s) now x"]) (auto simp: settled_row_def)
  qed
qed

lemma reconcile_rows_count:
  assumes "budget_inv cfg db" "reconcile_rows cfg fresh now rs db = Inr db'"
  shows "open_count db' + length rs \<le> open_count db"
  using assms
proof (induction rs arbitrary: db)
  case (Cons r rs)
  then obtain db1 where d: "reconcile_row cfg fresh now r db = Inr db1" "reconcile_rows cfg fresh now rs db1 = Inr db'"
    by (auto simp: bindE_eq_Inr)
  have "budget_inv cfg db1" using reconcile_row_safe [OF Cons.prems(1) d(1)] by (simp add: safe_result_def)
  then show ?case using Cons.IH [OF _ d(2)] reconcile_row_count [OF Cons.prems(1) d(1)] by simp
qed simp

lemma reconcile_batch_count:
  assumes "budget_inv cfg db" "reconcile_batch cfg fresh n now cutoff db = (Inr k, db')"
  shows "open_count db' + k \<le> open_count db"
proof -
  have "reconcile_rows cfg fresh now (batch_rows n now cutoff db) db = Inr db'" "k = length (batch_rows n now cutoff db)"
    using assms(2) by (auto simp: reconcile_batch_def Let_def split: sum.splits batch_error.splits prod.splits)
  then show ?thesis using reconcile_rows_count [OF assms(1)] by simp
qed

text \<open>
  C27: The drain before start-up ends: with a positive batch size, as many rounds as there are open
  reservations, plus one, suffice for it to return or raise.
\<close>

theorem drain_returns:
  assumes "budget_inv cfg db" "0 < batch_size" "open_count db < fuel"
  shows "\<exists>res db'. drain_before_ready fuel cfg fresh batch_size now cutoff db = Some (res, db')"
  using assms
proof (induction fuel arbitrary: db)
  case (Suc fuel)
  obtain out db1 where b: "reconcile_batch cfg fresh batch_size now cutoff db = (out, db1)"
    by (cases "reconcile_batch cfg fresh batch_size now cutoff db")
  show ?case
  proof (cases "out = Inr batch_size")
    case True
    have "budget_inv cfg db1" using batch_safe [OF Suc.prems(1), of fresh batch_size now cutoff] b by (simp add: safe_result_def)
    moreover have "open_count db1 < fuel" using reconcile_batch_count [OF Suc.prems(1)] b True Suc.prems(2,3) by fastforce
    ultimately show ?thesis using Suc.IH Suc.prems(2) b True by simp
  qed (use b in \<open>auto split: sum.splits\<close>)
qed simp

subsection \<open>Settlements without a ledger row, and unpriced usage\<close>




text \<open>
  C31: Usage outside the quoted tiers is neither charged nor frozen: when a provider reports a usage that no
  tier of the stored schedule covers, settlement raises a permission error and leaves the store as it is,
  so the reservation stays open and the month is not frozen, although the overage is unknown.
\<close>

theorem settle_unpriced_usage:
  assumes "find (\<lambda>r. r_id r = rid \<and> r_attempt r = aid) (reservations db) = Some r"
    and "r_state r \<in> open_states" "r_outcome r \<in> allowing"
    and "require_pricing_snapshot (g_evidence cfg) r = Inr snapshot"
    and "settle_evidence cfg r now db = Inr (cs, Some u, False)" "u_basis u = ProviderReportedExact"
    and "tier_for (q_schedule snapshot) (u_billable u) = Inl (PermissionError m)"
  shows "settle cfg lid rid aid now db = (Inl (PermissionErr m), db)"
proof -
  have "settle_charge snapshot (r_reserved r) (Some u) False = Inl (PermissionErr m)"
    using assms(6,7) by (simp add: settle_charge_def amount_from_snapshot_def lift_py_def raise_py_def)
  then have "settle_locked cfg lid rid aid now db = Inl (PermissionErr m)"
    using assms(1-5) by (simp add: settle_locked_def)
  then show ?thesis by (simp add: settle_def run_uow_def)
qed

end
