(* ===== verification/Provider_Gateway.thy ===== *)
theory Provider_Gateway
  imports Budget_Theorems
begin

text \<open>
  The provider gateway (\<^verbatim>\<open>services/providers/gateway.py\<close>): the one way a paid request leaves the core. It
  consumes a route authorization, claims a provider call, marks its reservation sent, invokes the network,
  attests the reported usage and closes the call. The gateway awaits at every step, so the model says at each
  await whether a cancellation arrives before or after the step took effect, and which other transactions ran
  in between. The injected callables and the route authorization service, which keeps its own table, are
  parameters.
\<close>

subsection \<open>Vocabulary\<close>

datatype evidence_state = ExactEvidence | MissingWithinAuthorizedCeiling | InvalidOrOverCeiling


datatype gateway_exc =
    GwCancelled
  | GwRaised budget_error
  | GwForeign
  | ProviderNotSentError uuid uuid string gateway_exc
  | ProviderNotSentCancellation uuid uuid string
  | ProviderUsageUnknownError string
  | GwRuntime string





subsection \<open>Operations\<close>







definition not_sent :: "route_authorization \<Rightarrow> string \<Rightarrow> gateway_exc \<Rightarrow> gateway_exc" where
  "not_sent rt stage e =
     (if e = GwCancelled
      then ProviderNotSentCancellation (rt_reservation rt) (rt_attempt rt) (stage @ ''_cancelled_before_network'')
      else ProviderNotSentError (rt_reservation rt) (rt_attempt rt) (stage @ ''_failed_before_network'') e)"






subsection \<open>Streams\<close>




subsection \<open>What survives other transactions\<close>















subsection \<open>Finishing closes the call\<close>










subsection \<open>Claiming\<close>



fun not_sent_error :: "gateway_exc \<Rightarrow> bool" where
  "not_sent_error (ProviderNotSentError _ _ _ _) = True"
| "not_sent_error (ProviderNotSentCancellation _ _ _) = True"
| "not_sent_error _ = False"

lemma not_sent_error_of [simp]: "not_sent_error (not_sent rt stage e)"
  by (simp add: not_sent_def)


subsection \<open>Sending\<close>










subsection \<open>Properties\<close>








end
