(* ===== verification/Budget_Run.thy ===== *)
theory Budget_Run
  imports Provider_Gateway
begin

text \<open>
  A concrete run of the budget service. One reservation of 513 micro SGD is made, claimed, sent and
  invoked, and then takes each of the ways it can end: a conservative settlement, a call reported successful
  without usage (which freezes the month), a revocation before it was sent, and a usage report that no price
  tier covers. The properties of the budget and of the gateway are instantiated on these stores.
\<close>

subsection \<open>Inputs\<close>

definition ex_short_doc :: price_catalog_document where
  "ex_short_doc = ex_doc\<lparr>doc_records := [ex_row (ex_tier 0 1000 200000)]\<rparr>"

definition ex_short_catalog :: price_catalog where
  "ex_short_catalog = \<lparr>cat_prices = map (price_record_of ex_short_doc) (doc_records ex_short_doc), cat_fx = Some ex_fx\<rparr>"

lemma ex_short_load: "load_many ex_url [(''p'', ex_short_doc)] ex_fx = Inr ex_short_catalog"
  by code_simp

definition ex_quote_of :: "price_catalog \<Rightarrow> price_quote" where
  "ex_quote_of cat = (case quote cat 7 ''qwen'' ''m'' ex_usage of Inr quo \<Rightarrow> quo | Inl _ \<Rightarrow> ex_quote)"

definition ex_big_usage :: usage_units where "ex_big_usage = LlmUsageUnits 2000 500"

definition ex_receipt :: usage_receipt where
  "ex_receipt = \<lparr>u_receipt_id = 40, u_call = 30, u_reservation = 10, u_request = 11, u_attempt = 12, u_authorization = 20,
     u_provider = ''qwen'', u_model = ''m'', u_category = Cat_llm, u_basis = ProviderReportedExact, u_billable = ex_big_usage,
     u_response_commitment = (''k'', ''c''), u_observed_at = 9, u_key_id = ''k'', u_hmac = ''provider.usage-receipt.v1n''\<rparr>"

definition ex_evidence :: "price_catalog \<Rightarrow> evidence_env" where
  "ex_evidence cat = \<lparr>canon_usage = (\<lambda>u. if u = ex_usage then ''u'' else ''v''),
     parse_usage = (\<lambda>t. if t = ''u'' then Some ex_usage else None),
     canon_snapshot = (\<lambda>_. ''s''),
     parse_snapshot = (\<lambda>t. if t = ''s''
       then Some \<lparr>ps_request = 11, ps_attempt = 12, ps_usage = ex_usage, ps_quote = ex_quote_of cat\<rparr> else None),
     quote_fits = (\<lambda>_. True), canon_receipt = (\<lambda>_. ''r''), canon_unsigned = (\<lambda>_. ''n''),
     parse_receipt = (\<lambda>t. if t = ''r'' then Some ex_receipt else None), commit_hmac = (\<lambda>p t. p @ t),
     response_text = (\<lambda>_ _ _ _ _. ''t''), identifier_ok = (\<lambda>_. True), ev_key_id = ''k''\<rparr>"

definition ex_cfg :: "price_catalog \<Rightarrow> guard_cfg" where
  "ex_cfg cat = \<lparr>g_catalog = cat, g_evidence = ex_evidence cat, g_hard_limit = 1000, g_soft_limit = 900, g_expiry = 1000000,
     g_month_of = (\<lambda>_. ''2026-09''), g_review_current = (\<lambda>_ _ _ _. True), g_redaction_bound = (\<lambda>_ _ _ _. True)\<rparr>"

definition ex_request :: reservation_request where
  "ex_request = \<lparr>q_household = 1, q_turn = 2, q_request = 11, q_attempt = 12, rq_provider = ''qwen'', rq_model = ''m'',
     rq_category = Cat_llm, rq_usage = ex_usage, rq_month = ''2026-09''\<rparr>"

definition ex_route :: route_authorization where
  "ex_route = \<lparr>rt_authorization = 20, rt_request = 11, rt_attempt = 12, rt_purpose = CloudReasoning, rt_household = 1,
     rt_subject = Some 5, rt_session = 6, rt_turn = 2, rt_provider = ''qwen'', rt_model = ''m'',
     rt_commitment = (''a'', ''k'', ''v''), rt_max_input_bytes = 10, rt_max_input_units = 10, rt_reservation = 10,
     rt_sensitivity = 0, rt_expires_at = 500\<rparr>"

definition ex_consumption :: route_consumption where
  "ex_consumption = \<lparr>cs_request = 11, cs_attempt = 12, cs_purpose = CloudReasoning, cs_household = 1, cs_subject = Some 5,
     cs_session = 6, cs_turn = 2, cs_provider = ''qwen'', cs_model = ''m'', cs_commitment = (''a'', ''k'', ''v''),
     cs_input_bytes = 1, cs_input_units = 1, cs_consumed_at = 7\<rparr>"

subsection \<open>Stores\<close>

definition ex_routed :: core_db where
  "ex_routed = insert_setting_or_keep (RouteKey 20) (RouteValue \<lparr>env_authorization = 20, env_subject = Some 5\<rparr>) empty_db"

definition ex_reserved :: "price_catalog \<Rightarrow> core_db" where
  "ex_reserved cat = snd (reserve (ex_cfg cat) 10 ex_request 7 ex_routed)"

definition ex_claimed :: "price_catalog \<Rightarrow> core_db" where
  "ex_claimed cat = snd (begin_call (ex_cfg cat) 30 ex_route ex_consumption (Some 31) 8 (ex_reserved cat))"

definition ex_invoked :: "price_catalog \<Rightarrow> core_db" where
  "ex_invoked cat = snd (mark_network_invocation_starting 30 (snd (mark_sent 10 12 8 (ex_claimed cat))))"

definition ex_revoked :: core_db where
  "ex_revoked = snd (reconcile_revoked_subject 5 9 (ex_claimed ex_catalog))"

definition ex_settled :: core_db where
  "ex_settled = snd (settle (ex_cfg ex_catalog) 50 10 12 9 (ex_invoked ex_catalog))"

definition ex_frozen :: core_db where
  "ex_frozen = snd (settle (ex_cfg ex_catalog) 50 10 12 9
     (snd (finish_call (ex_cfg ex_catalog) 30 Succeeded ex_route None 9 (ex_invoked ex_catalog))))"

definition ex_reported :: core_db where
  "ex_reported = snd (finish_call (ex_cfg ex_short_catalog) 30 Succeeded ex_route (Some ex_receipt) 9 (ex_invoked ex_short_catalog))"

lemma ex_limit [simp]: "g_hard_limit (ex_cfg cat) = 1000"
  by (simp add: ex_cfg_def)

lemma reach_empty: "budget_reach cfg empty_db"
  by (simp add: budget_reach_def)

lemma reach_next: "budget_reach cfg db \<Longrightarrow> budget_step cfg db db' \<Longrightarrow> budget_reach cfg db'"
  unfolding budget_reach_def by (rule rtranclp.rtrancl_into_rtrancl)

lemma ex_reach:
  "budget_reach (ex_cfg cat) ex_routed"
  "budget_reach (ex_cfg cat) (ex_reserved cat)"
  "budget_reach (ex_cfg cat) (ex_claimed cat)"
  "budget_reach (ex_cfg cat) (ex_invoked cat)"
proof -
  show 1: "budget_reach (ex_cfg cat) ex_routed"
    unfolding ex_routed_def by (intro reach_next [OF reach_empty] step_route)
  then show 2: "budget_reach (ex_cfg cat) (ex_reserved cat)"
    unfolding ex_reserved_def by (rule reach_next) (rule step_reserve)
  then show 3: "budget_reach (ex_cfg cat) (ex_claimed cat)"
    unfolding ex_claimed_def by (rule reach_next) (rule step_begin)
  show "budget_reach (ex_cfg cat) (ex_invoked cat)"
    unfolding ex_invoked_def by (rule reach_next [OF reach_next [OF 3 step_mark_sent] step_network])
qed

lemma ex_reach_ends:
  "budget_reach (ex_cfg ex_catalog) ex_revoked"
  "budget_reach (ex_cfg ex_catalog) ex_settled"
  "budget_reach (ex_cfg ex_catalog) ex_frozen"
  unfolding ex_revoked_def ex_settled_def ex_frozen_def
  by (rule reach_next [OF ex_reach(3) step_revoke] reach_next [OF ex_reach(4) step_settle]
      reach_next [OF reach_next [OF ex_reach(4) step_finish] step_settle])+

definition ex_row_of :: "core_db \<Rightarrow> reservation_row" where "ex_row_of db = hd (reservations db)"
definition ex_call_of :: "core_db \<Rightarrow> call_row" where "ex_call_of db = hd (calls db)"

lemma ex_member: "reservations db \<noteq> [] \<Longrightarrow> ex_row_of db \<in> set (reservations db)" "calls db \<noteq> [] \<Longrightarrow> ex_call_of db \<in> set (calls db)"
  by (simp_all add: ex_row_of_def ex_call_of_def)

subsection \<open>The properties on the run\<close>

theorem hard_limit_or_frozen_witness:
  "budget_reach (ex_cfg ex_catalog) ex_settled \<and> exposure ''2026-09'' ex_settled = 513 \<and> \<not> frozen_month ''2026-09'' ex_settled
   \<and> exposure ''2026-09'' ex_settled \<le> 1000"
proof -
  have "exposure ''2026-09'' ex_settled = 513" by code_simp
  moreover have "\<not> frozen_month ''2026-09'' ex_settled" by code_simp
  ultimately show ?thesis using hard_limit_or_frozen [OF ex_reach_ends(2), of "''2026-09''"] ex_reach_ends(2) by simp
qed

theorem freeze_final_witness:
  "frozen_month ''2026-09'' ex_frozen
   \<and> fst (mark_sent (r_id (ex_row_of ex_frozen)) (r_attempt (ex_row_of ex_frozen)) 9 ex_frozen) \<noteq> Inr ()"
proof -
  have f: "frozen_month ''2026-09'' ex_frozen" by code_simp
  have r: "reservations ex_frozen \<noteq> []" "r_month (ex_row_of ex_frozen) = ''2026-09''" by code_simp+
  have "\<exists>e. fst (mark_sent (r_id (ex_row_of ex_frozen)) (r_attempt (ex_row_of ex_frozen)) 9 ex_frozen) = Inl e"
    using freeze_final [OF ex_reach_ends(3) _ f rtranclp.rtrancl_refl] ex_member(1) [OF r(1)] r(2) by simp
  then show ?thesis using f by auto
qed

theorem terminal_immutable_witness:
  "r_state (ex_row_of ex_settled) = Settled
   \<and> fst (settle (ex_cfg ex_catalog) 51 (r_id (ex_row_of ex_settled)) (r_attempt (ex_row_of ex_settled)) 10 ex_settled) = Inl ReservationNotSettleable"
proof -
  have r: "reservations ex_settled \<noteq> []" "r_state (ex_row_of ex_settled) = Settled" by code_simp+
  show ?thesis
    using terminal_immutable [OF ex_reach_ends(2) _ ex_member(1) [OF r(1)] _ rtranclp.rtrancl_refl, of 10 51] r(2) by simp
qed


theorem revoked_claim_blocks_witness:
  "stuck_claim (ex_row_of ex_revoked) ex_revoked \<and> 513 \<le> exposure (r_month (ex_row_of ex_revoked)) ex_revoked
   \<and> (\<exists>e. fst (reconcile_batch (ex_cfg ex_catalog) (\<lambda>x. x) 5 2000000 None ex_revoked) = Inl e)"
proof -
  have r: "reservations ex_revoked \<noteq> []" "r_reserved (ex_row_of ex_revoked) = 513"
    "batch_rows 5 2000000 None ex_revoked = [ex_row_of ex_revoked]" by code_simp+
  have c: "call_of (r_id (ex_row_of ex_revoked)) ex_revoked = Some (ex_call_of ex_revoked)"
    "r_state (ex_row_of ex_revoked) = Reserved" "r_phase (ex_row_of ex_revoked) = ClaimBegun"
    "cancelled_call (ex_call_of ex_revoked)" by code_simp+
  have s: "stuck_claim (ex_row_of ex_revoked) ex_revoked"
    unfolding stuck_claim_def using ex_member(1) [OF r(1)] c by simp
  show ?thesis
    using revoked_claim_blocks [OF ex_reach_ends(1) _ s rtranclp.rtrancl_refl, where now = 2000000 and cutoff = None and n = 5 and fresh = "\<lambda>x. x"] s r
    by simp
qed

theorem settle_conservative_returns_witness:
  "fst (settle (ex_cfg ex_catalog) 50 (r_id (ex_row_of (ex_invoked ex_catalog))) (r_attempt (ex_row_of (ex_invoked ex_catalog))) 9
      (ex_invoked ex_catalog)) =
   Inr \<lparr>s_reservation = 10, s_charged = 513, s_conservative = True, s_overrun = False, s_frozen = False\<rparr>"
proof -
  let ?db = "ex_invoked ex_catalog" and ?cfg = "ex_cfg ex_catalog"
  have r: "reservations ?db \<noteq> []" "r_state (ex_row_of ?db) = Sent" "r_reserved (ex_row_of ?db) = 513" "r_id (ex_row_of ?db) = 10"
    by code_simp+
  have p: "require_pricing_snapshot (g_evidence ?cfg) (ex_row_of ?db) = Inr (ex_quote_of ex_catalog)" by code_simp
  have c: "call_of (r_id (ex_row_of ?db)) ?db = Some (ex_call_of ?db)" "c_outcome (ex_call_of ?db) \<noteq> Succeeded" by code_simp+
  have x: "exposure (r_month (ex_row_of ?db)) ?db \<le> 1000" "ledger ?db = []" by code_simp+
  show ?thesis
    using settle_conservative_returns [OF ex_reach(4) _ ex_member(1) [OF r(1)] r(2) p c, of 50 9] r(3,4) x by (simp add: bound_defs)
qed

theorem settle_accounts_witness:
  "\<exists>s. fst (settle (ex_cfg ex_catalog) 50 10 12 9 (ex_invoked ex_catalog)) = Inr s \<and> s_charged s = 513 \<and> length (ledger ex_settled) = 1"
proof -
  have inv: "budget_inv (ex_cfg ex_catalog) (ex_invoked ex_catalog)" using reach_inv [OF ex_reach(4)] by simp
  have e: "ledger (ex_invoked ex_catalog) = []"
    "fst (settle (ex_cfg ex_catalog) 50 10 12 9 (ex_invoked ex_catalog)) =
     Inr \<lparr>s_reservation = 10, s_charged = 513, s_conservative = True, s_overrun = False, s_frozen = False\<rparr>"
    by code_simp+
  then have "settle (ex_cfg ex_catalog) 50 10 12 9 (ex_invoked ex_catalog) =
     (Inr \<lparr>s_reservation = 10, s_charged = 513, s_conservative = True, s_overrun = False, s_frozen = False\<rparr>, ex_settled)"
    by (simp add: ex_settled_def prod_eq_iff)
  from settle_accounts [OF inv this] e show ?thesis by auto
qed

theorem network_call_covered_witness:
  "c_phase (ex_call_of (ex_invoked ex_catalog)) = NetworkInvocationStarting
   \<and> (\<exists>r \<in> set (reservations (ex_invoked ex_catalog)). r_state r = Sent \<and> 1 \<le> exposure (r_month r) (ex_invoked ex_catalog))"
proof -
  let ?db = "ex_invoked ex_catalog"
  have c: "calls ?db \<noteq> []" "c_outcome (ex_call_of ?db) = Started" "c_phase (ex_call_of ?db) = NetworkInvocationStarting" by code_simp+
  have "\<exists>r \<in> set (reservations ?db). call_parent (ex_call_of ?db) r \<and> r_state r = Sent \<and> r_phase r = c_phase (ex_call_of ?db)
    \<and> r_outcome r \<in> allowing \<and> 1 \<le> r_reserved r \<and> r_reserved r \<le> exposure (r_month r) ?db"
    by (rule network_call_covered [OF ex_reach(4) _ ex_member(2) [OF c(1)] c(2)]) (simp_all add: c(3))
  then show ?thesis using c(3) by fastforce
qed

theorem reserve_evidence_verifies_witness:
  "\<exists>r quo. r \<in> set (reservations (ex_reserved ex_catalog)) \<and> r_state r = Reserved
     \<and> require_pricing_snapshot (ex_evidence ex_catalog) r = Inr quo \<and> amount_from_snapshot quo ex_usage = Inr (r_reserved r)"
proof -
  let ?cfg = "ex_cfg ex_catalog"
  have inv: "budget_inv ?cfg ex_routed" using reach_inv [OF ex_reach(1)] by simp
  have ok: "reservation_request_ok ex_request" by code_simp
  have q: "quote (g_catalog ?cfg) 7 (rq_provider ex_request) (rq_model ex_request) (rq_usage ex_request) = Inr (ex_quote_of ex_catalog)"
    "evidence_law (g_evidence ?cfg) ex_request (ex_quote_of ex_catalog)" by code_simp+
  have "case fst (reserve ?cfg 10 ex_request 7 ex_routed) of Inl _ \<Rightarrow> False | Inr b \<Rightarrow> b_outcome b = Allow" by code_simp
  then obtain b where b: "fst (reserve ?cfg 10 ex_request 7 ex_routed) = Inr b" "b_outcome b \<in> allowing"
    by (auto split: sum.splits)
  then have run: "reserve ?cfg 10 ex_request 7 ex_routed = (Inr b, ex_reserved ex_catalog)"
    by (simp add: ex_reserved_def prod_eq_iff)
  show ?thesis using reserve_evidence_verifies [OF inv ok _ run b(2)] q by (auto simp: ex_cfg_def ex_request_def)
qed

theorem drain_returns_witness:
  "\<exists>res db'. drain_before_ready 2 (ex_cfg ex_catalog) (\<lambda>x. x) 1 2000000 None (ex_invoked ex_catalog) = Some (res, db')"
proof -
  have inv: "budget_inv (ex_cfg ex_catalog) (ex_invoked ex_catalog)" using reach_inv [OF ex_reach(4)] by simp
  have "open_count (ex_invoked ex_catalog) < 2" by code_simp
  from drain_returns [OF inv _ this] show ?thesis by simp
qed

theorem settle_unpriced_usage_witness:
  "settle (ex_cfg ex_short_catalog) 50 10 12 9 ex_reported = (Inl (PermissionErr ''missing_or_stale_price_tier''), ex_reported)"
proof -
  let ?r = "ex_row_of ex_reported" and ?cfg = "ex_cfg ex_short_catalog" and ?q = "ex_quote_of ex_short_catalog"
  have f: "find (\<lambda>r. r_id r = 10 \<and> r_attempt r = 12) (reservations ex_reported) = Some ?r" by code_simp
  have s: "r_state ?r \<in> open_states" "r_outcome ?r \<in> allowing" by code_simp+
  have p: "require_pricing_snapshot (g_evidence ?cfg) ?r = Inr ?q" by code_simp
  have e: "settle_evidence ?cfg ?r 9 ex_reported = Inr (calls ex_reported, Some ex_receipt, False)" by code_simp
  have u: "u_basis ex_receipt = ProviderReportedExact" by code_simp
  have t: "tier_for (q_schedule ?q) (u_billable ex_receipt) = Inl (PermissionError ''missing_or_stale_price_tier'')" by code_simp
  show ?thesis by (rule settle_unpriced_usage [OF f s p e u t])
qed

subsection \<open>The gateway on the run\<close>








end
