(* ===== verification/Duplex_Store.thy ===== *)
theory Duplex_Store
  imports Budget_Store "HOL-Library.Product_Lexorder"
begin

text \<open>
  The durable sequence and correlation stores of the core-to-edge control channel: \<^verbatim>\<open>CoreDuplexState\<close>
  (\<^verbatim>\<open>adapters/reachy/duplex_state.py\<close>, tables of \<^verbatim>\<open>foundation_0001.py\<close>) and \<^verbatim>\<open>EdgeDuplexState\<close>
  (\<^verbatim>\<open>transport/duplex_state.py\<close>, its own schema). Each side is modelled on its own tables, as one transaction
  per operation; a common specification of a duplex endpoint follows, which both implement.
\<close>

subsection \<open>Vocabulary\<close>

datatype duplex_error = DuplexPermission string | DuplexValue string | DuplexIntegrity

datatype control_direction = EdgeToCore | CoreToEdge

datatype control_frame_kind = RequestFrame | ResponseFrame | EventFrame

datatype correlation_state = Pending | Completed | Abandoned

record correlation =
  k_id :: uuid
  k_purpose :: string
  k_direction :: control_direction
  k_state :: correlation_state
  k_first :: int
  k_last :: int
  k_created :: instant
  k_updated :: instant

definition FRAME_PURPOSES :: "string list" where
  "FRAME_PURPOSES = [''reachy.command.v1'', ''reachy.health.v1'', ''reachy.stop_all.v1'', ''reachy.camera_grant.v1'',
     ''reachy.event.v1'', ''reachy.media_control.v1'']"

definition PENDING_CORRELATION_LIMIT :: nat where "PENDING_CORRELATION_LIMIT = 256"
definition TERMINAL_CORRELATION_RETENTION_LIMIT :: nat where "TERMINAL_CORRELATION_RETENTION_LIMIT = 4096"
definition SEQUENCE_MAX :: int where "SEQUENCE_MAX = 9007199254740991"
definition MAX_BOUNDED_COUNT :: int where "MAX_BOUNDED_COUNT = 9000000000000000"

fun opposite_direction :: "control_direction \<Rightarrow> control_direction" where
  "opposite_direction EdgeToCore = CoreToEdge"
| "opposite_direction CoreToEdge = EdgeToCore"

abbreviation replayed :: duplex_error where "replayed \<equiv> DuplexPermission ''replayed_sequence_or_correlation''"
abbreviation not_pending :: duplex_error where "not_pending \<equiv> DuplexPermission ''correlation_not_pending''"
abbreviation out_of_domain :: duplex_error where "out_of_domain \<equiv> DuplexValue ''sequence outside JCS safe integer domain''"

definition require_purpose :: "string \<Rightarrow> duplex_error + unit" where
  "require_purpose p = require (p \<in> set FRAME_PURPOSES) (DuplexValue ''unsupported control frame purpose'')"

definition require_sequence_bounds :: "int \<Rightarrow> duplex_error + unit" where
  "require_sequence_bounds n = require (0 \<le> n \<and> n \<le> SEQUENCE_MAX) out_of_domain"

definition require_sequence_number :: "int \<Rightarrow> duplex_error + unit" where
  "require_sequence_number n =
     bindE (require_sequence_bounds n) (\<lambda>_. require (1 \<le> n) (DuplexValue ''sequence must be positive''))"

text \<open>The reason is given by its UTF-8 bytes.\<close>

definition require_reason :: "string \<Rightarrow> duplex_error + unit" where
  "require_reason reason = require (1 \<le> length reason \<and> length reason \<le> 128) (DuplexValue ''duplex terminal reason invalid'')"

text \<open>The operations of an endpoint, and what they return.\<close>

datatype duplex_op =
    ReserveOutbound uuid string control_frame_kind instant
  | AcceptInbound int uuid string control_frame_kind instant
  | AcceptResponse uuid string instant
  | CompleteCorrelation uuid instant
  | AbandonCorrelation uuid string instant
  | AbandonConnection string instant

datatype duplex_result = Sequenced int | Done

definition is_terminal :: "correlation \<Rightarrow> bool" where
  "is_terminal k \<longleftrightarrow> k_state k \<in> {Completed, Abandoned}"

text \<open>The rows a prune deletes: the terminal ones beyond the most recently updated.\<close>

definition surplus_terminal :: "correlation list \<Rightarrow> uuid list" where
  "surplus_terminal rows =
     map k_id (drop TERMINAL_CORRELATION_RETENTION_LIMIT (rev (sort_key (\<lambda>k. (k_updated k, k_last k, k_id k)) (filter is_terminal rows))))"

subsection \<open>The core side\<close>

record device_row =
  dv_id :: uuid
  dv_kind :: string
  dv_revoked :: "instant option"
  dv_last :: int

record core_duplex =
  devices :: "device_row list"
  tx_sequences :: "(uuid \<times> int) list"
  core_correlations :: "(uuid \<times> correlation) list"

definition core_correlation_check :: "correlation \<Rightarrow> bool" where
  "core_correlation_check k \<longleftrightarrow> 1 \<le> k_first k \<and> k_first k \<le> MAX_BOUNDED_COUNT \<and> k_first k \<le> k_last k \<and> k_last k \<le> MAX_BOUNDED_COUNT"

definition bounded_count_check :: "int \<Rightarrow> bool" where
  "bounded_count_check n \<longleftrightarrow> 0 \<le> n \<and> n \<le> MAX_BOUNDED_COUNT"

definition bounded_sequence :: "int \<Rightarrow> duplex_error + int" where
  "bounded_sequence n = bindE (require_sequence_bounds n) (\<lambda>_. Inr n)"

definition current_device :: "uuid \<Rightarrow> device_row \<Rightarrow> bool" where
  "current_device dev d \<longleftrightarrow> dv_id d = dev \<and> dv_kind d = ''reachy'' \<and> dv_revoked d = None"

definition require_current_device :: "uuid \<Rightarrow> core_duplex \<Rightarrow> duplex_error + unit" where
  "require_current_device dev st = require (list_ex (current_device dev) (devices st)) (DuplexPermission ''reachy_device_not_current'')"

definition device_last_sequence :: "uuid \<Rightarrow> core_duplex \<Rightarrow> duplex_error + int" where
  "device_last_sequence dev st =
     (case find (current_device dev) (devices st) of
        None \<Rightarrow> Inl (DuplexPermission ''reachy_device_not_current'')
      | Some d \<Rightarrow> bounded_sequence (dv_last d))"

definition core_advance_correlation ::
    "uuid \<Rightarrow> uuid \<Rightarrow> string \<Rightarrow> control_frame_kind \<Rightarrow> control_direction \<Rightarrow> int \<Rightarrow> instant \<Rightarrow> core_duplex \<Rightarrow> duplex_error + core_duplex" where
  "core_advance_correlation dev cid purpose kind direction sequence now st =
     (let row = find (\<lambda>(d, k). d = dev \<and> k_id k = cid) (core_correlations st) in
      if kind \<in> {RequestFrame, EventFrame}
      then
        if row \<noteq> None then Inl replayed
        else if length (filter (\<lambda>(d, k). d = dev \<and> k_state k = Pending) (core_correlations st)) \<ge> PENDING_CORRELATION_LIMIT
        then Inl (DuplexPermission ''pending_correlation_limit'')
        else
          let k = \<lparr>k_id = cid, k_purpose = purpose, k_direction = direction, k_state = Pending, k_first = sequence,
                   k_last = sequence, k_created = now, k_updated = now\<rparr> in
          if core_correlation_check k then Inr (st\<lparr>core_correlations := core_correlations st @ [(dev, k)]\<rparr>) else Inl DuplexIntegrity
      else
        case row of None \<Rightarrow> Inl not_pending
        | Some (_, k) \<Rightarrow>
          if \<not> (k_purpose k = purpose \<and> k_direction k = opposite_direction direction \<and> k_state k = Pending) then Inl not_pending
          else if \<not> list_all (\<lambda>(d, k). d = dev \<and> k_id k = cid \<and> k_state k = Pending \<longrightarrow> core_correlation_check (k\<lparr>k_last := sequence, k_updated := now\<rparr>))
                  (core_correlations st) then Inl DuplexIntegrity
          else if length (filter (\<lambda>(d, k). d = dev \<and> k_id k = cid \<and> k_state k = Pending) (core_correlations st)) \<noteq> 1 then Inl not_pending
          else Inr (st\<lparr>core_correlations := map (\<lambda>(d, k). if d = dev \<and> k_id k = cid \<and> k_state k = Pending
                      then (d, k\<lparr>k_last := sequence, k_updated := now\<rparr>) else (d, k)) (core_correlations st)\<rparr>))"

definition core_reserve :: "uuid \<Rightarrow> uuid \<Rightarrow> string \<Rightarrow> control_frame_kind \<Rightarrow> instant \<Rightarrow> core_duplex \<Rightarrow> duplex_error + (int \<times> core_duplex)" where
  "core_reserve dev cid purpose kind now st =
     bindE (require_current_device dev st) (\<lambda>_.
     bindE (case map_of (tx_sequences st) dev of None \<Rightarrow> Inr 0 | Some n \<Rightarrow> bounded_sequence n) (\<lambda>previous.
     let sequence = previous + 1 in
     bindE (require_sequence_bounds sequence) (\<lambda>_.
     bindE (require (bounded_count_check sequence) DuplexIntegrity) (\<lambda>_.
     bindE (require (map_of (tx_sequences st) dev = None \<or> length (filter (\<lambda>(d, n). d = dev \<and> n = previous) (tx_sequences st)) = 1)
              (DuplexPermission ''sequence_allocation_conflict'')) (\<lambda>_.
     let st1 = st\<lparr>tx_sequences := (case map_of (tx_sequences st) dev of
                  None \<Rightarrow> tx_sequences st @ [(dev, sequence)]
                | Some _ \<Rightarrow> map (\<lambda>(d, n). if d = dev \<and> n = previous then (d, sequence) else (d, n)) (tx_sequences st))\<rparr> in
     bindE (core_advance_correlation dev cid purpose kind CoreToEdge sequence now st1) (\<lambda>st2. Inr (sequence, st2)))))))"

definition core_accept :: "uuid \<Rightarrow> int \<Rightarrow> uuid \<Rightarrow> string \<Rightarrow> control_frame_kind \<Rightarrow> instant \<Rightarrow> core_duplex \<Rightarrow> duplex_error + core_duplex" where
  "core_accept dev sequence cid purpose kind now st =
     bindE (device_last_sequence dev st) (\<lambda>previous.
     if sequence \<le> previous then Inl replayed
     else if sequence \<noteq> previous + 1 then Inl (DuplexPermission ''sequence_gap'')
     else
       let P = (\<lambda>d. dv_id d = dev \<and> dv_revoked d = None \<and> dv_last d = previous) in
       bindE (require (bounded_count_check sequence) DuplexIntegrity) (\<lambda>_.
       if length (filter P (devices st)) \<noteq> 1 then Inl replayed
       else core_advance_correlation dev cid purpose kind EdgeToCore sequence now
              (st\<lparr>devices := map (\<lambda>d. if P d then d\<lparr>dv_last := sequence\<rparr> else d) (devices st)\<rparr>)))"

definition core_terminal :: "uuid \<Rightarrow> uuid \<Rightarrow> correlation_state \<Rightarrow> instant \<Rightarrow> core_duplex \<Rightarrow> duplex_error + core_duplex" where
  "core_terminal dev cid state now st =
     (let P = (\<lambda>(d, k). d = dev \<and> k_id k = cid \<and> k_state k = Pending) in
      if length (filter P (core_correlations st)) \<noteq> 1 then Inl not_pending
      else Inr (st\<lparr>core_correlations := map (\<lambda>(d, k). if P (d, k) then (d, k\<lparr>k_state := state, k_updated := now\<rparr>) else (d, k))
                   (core_correlations st)\<rparr>))"

definition core_abandon :: "uuid \<Rightarrow> instant \<Rightarrow> core_duplex \<Rightarrow> core_duplex" where
  "core_abandon dev now st =
     st\<lparr>core_correlations := map (\<lambda>(d, k). if d = dev \<and> k_state k = Pending then (d, k\<lparr>k_state := Abandoned, k_updated := now\<rparr>) else (d, k))
          (core_correlations st)\<rparr>"

definition core_pending_request :: "uuid \<Rightarrow> uuid \<Rightarrow> string \<Rightarrow> core_duplex \<Rightarrow> duplex_error + unit" where
  "core_pending_request dev cid purpose st =
     require (list_ex (\<lambda>(d, k). d = dev \<and> k_id k = cid \<and> k_purpose k = purpose \<and> k_direction k = CoreToEdge \<and> k_state k = Pending)
                (core_correlations st)) not_pending"

definition core_prune :: "uuid \<Rightarrow> core_duplex \<Rightarrow> core_duplex" where
  "core_prune dev st =
     (let gone = surplus_terminal (map snd (filter (\<lambda>(d, _). d = dev) (core_correlations st))) in
      st\<lparr>core_correlations := filter (\<lambda>(d, k). \<not> (d = dev \<and> is_terminal k \<and> k_id k \<in> set gone)) (core_correlations st)\<rparr>)"

text \<open>A transaction: commit with a prune, or roll back; an integrity error is reported as a replay.\<close>

definition core_commit :: "uuid \<Rightarrow> (core_duplex \<Rightarrow> duplex_error + ('a \<times> core_duplex)) \<Rightarrow> core_duplex \<Rightarrow> (duplex_error + 'a) \<times> core_duplex" where
  "core_commit dev f st =
     (case f st of
        Inl e \<Rightarrow> (Inl (if e = DuplexIntegrity then replayed else e), st)
      | Inr (x, st') \<Rightarrow> (Inr x, core_prune dev st'))"

definition core_step :: "uuid \<Rightarrow> duplex_op \<Rightarrow> core_duplex \<Rightarrow> (duplex_error + duplex_result) \<times> core_duplex" where
  "core_step dev op st =
     (case op of
        ReserveOutbound cid purpose kind now \<Rightarrow>
          (case require_purpose purpose of Inl e \<Rightarrow> (Inl e, st)
           | Inr _ \<Rightarrow> core_commit dev (\<lambda>s. bindE (core_reserve dev cid purpose kind now s) (\<lambda>(n, s'). Inr (Sequenced n, s'))) st)
      | AcceptInbound sequence cid purpose kind now \<Rightarrow>
          (case bindE (require_sequence_number sequence) (\<lambda>_. require_purpose purpose) of Inl e \<Rightarrow> (Inl e, st)
           | Inr _ \<Rightarrow> core_commit dev (\<lambda>s. bindE (core_accept dev sequence cid purpose kind now s) (\<lambda>s'. Inr (Done, s'))) st)
      | AcceptResponse cid purpose now \<Rightarrow>
          (case require_purpose purpose of Inl e \<Rightarrow> (Inl e, st)
           | Inr _ \<Rightarrow> core_commit dev (\<lambda>s. bindE (core_pending_request dev cid purpose s) (\<lambda>_. Inr (Done, s))) st)
      | CompleteCorrelation cid now \<Rightarrow>
          core_commit dev (\<lambda>s. bindE (core_terminal dev cid Completed now s) (\<lambda>s'. Inr (Done, s'))) st
      | AbandonCorrelation cid reason now \<Rightarrow>
          (case require_reason reason of Inl e \<Rightarrow> (Inl e, st)
           | Inr _ \<Rightarrow> core_commit dev (\<lambda>s. bindE (core_terminal dev cid Abandoned now s) (\<lambda>s'. Inr (Done, s'))) st)
      | AbandonConnection reason now \<Rightarrow>
          (case require_reason reason of Inl e \<Rightarrow> (Inl e, st)
           | Inr _ \<Rightarrow> core_commit dev (\<lambda>s. Inr (Done, core_abandon dev now s)) st))"


subsection \<open>The edge side\<close>

record edge_duplex =
  edge_sequences :: "(control_direction \<times> int) list"
  edge_correlations :: "correlation list"

definition edge_correlation_check :: "correlation \<Rightarrow> bool" where
  "edge_correlation_check k \<longleftrightarrow> 1 \<le> k_first k \<and> k_first k \<le> SEQUENCE_MAX \<and> k_first k \<le> k_last k \<and> k_last k \<le> SEQUENCE_MAX"

definition edge_last_sequence :: "control_direction \<Rightarrow> edge_duplex \<Rightarrow> duplex_error + int" where
  "edge_last_sequence direction st =
     (case map_of (edge_sequences st) direction of None \<Rightarrow> Inr 0 | Some n \<Rightarrow> bounded_sequence n)"

text \<open>The upsert of a sequence row: insert it, or update it when it still holds the value that was read.\<close>

definition edge_store_sequence :: "control_direction \<Rightarrow> int \<Rightarrow> int \<Rightarrow> string \<Rightarrow> edge_duplex \<Rightarrow> duplex_error + edge_duplex" where
  "edge_store_sequence direction sequence previous conflict st =
     (if \<not> (0 \<le> sequence \<and> sequence \<le> SEQUENCE_MAX) then Inl DuplexIntegrity
      else case map_of (edge_sequences st) direction of
        None \<Rightarrow> Inr (st\<lparr>edge_sequences := edge_sequences st @ [(direction, sequence)]\<rparr>)
      | Some n \<Rightarrow>
          if n = previous
          then Inr (st\<lparr>edge_sequences := map (\<lambda>(d, m). if d = direction then (d, sequence) else (d, m)) (edge_sequences st)\<rparr>)
          else Inl (DuplexPermission conflict))"

definition edge_advance_correlation ::
    "uuid \<Rightarrow> string \<Rightarrow> control_frame_kind \<Rightarrow> control_direction \<Rightarrow> int \<Rightarrow> instant \<Rightarrow> edge_duplex \<Rightarrow> duplex_error + edge_duplex" where
  "edge_advance_correlation cid purpose kind direction sequence now st =
     (let row = find (\<lambda>k. k_id k = cid) (edge_correlations st) in
      if kind \<in> {RequestFrame, EventFrame}
      then
        if row \<noteq> None then Inl replayed
        else if length (filter (\<lambda>k. k_state k = Pending) (edge_correlations st)) \<ge> PENDING_CORRELATION_LIMIT
        then Inl (DuplexPermission ''pending_correlation_limit'')
        else
          let k = \<lparr>k_id = cid, k_purpose = purpose, k_direction = direction, k_state = Pending, k_first = sequence,
                   k_last = sequence, k_created = now, k_updated = now\<rparr> in
          if edge_correlation_check k then Inr (st\<lparr>edge_correlations := edge_correlations st @ [k]\<rparr>) else Inl DuplexIntegrity
      else
        case row of None \<Rightarrow> Inl not_pending
        | Some k \<Rightarrow>
          if \<not> (k_purpose k = purpose \<and> k_direction k = opposite_direction direction \<and> k_state k = Pending) then Inl not_pending
          else if \<not> list_all (\<lambda>k. k_id k = cid \<and> k_state k = Pending \<longrightarrow> edge_correlation_check (k\<lparr>k_last := sequence, k_updated := now\<rparr>))
                  (edge_correlations st) then Inl DuplexIntegrity
          else if length (filter (\<lambda>k. k_id k = cid \<and> k_state k = Pending) (edge_correlations st)) \<noteq> 1 then Inl not_pending
          else Inr (st\<lparr>edge_correlations := map (\<lambda>k. if k_id k = cid \<and> k_state k = Pending
                      then k\<lparr>k_last := sequence, k_updated := now\<rparr> else k) (edge_correlations st)\<rparr>))"

definition edge_reserve :: "uuid \<Rightarrow> string \<Rightarrow> control_frame_kind \<Rightarrow> instant \<Rightarrow> edge_duplex \<Rightarrow> duplex_error + (int \<times> edge_duplex)" where
  "edge_reserve cid purpose kind now st =
     bindE (edge_last_sequence EdgeToCore st) (\<lambda>previous.
     let sequence = previous + 1 in
     bindE (require_sequence_bounds sequence) (\<lambda>_.
     bindE (edge_store_sequence EdgeToCore sequence previous ''sequence_allocation_conflict'' st) (\<lambda>st1.
     bindE (edge_advance_correlation cid purpose kind EdgeToCore sequence now st1) (\<lambda>st2. Inr (sequence, st2)))))"

definition edge_accept :: "int \<Rightarrow> uuid \<Rightarrow> string \<Rightarrow> control_frame_kind \<Rightarrow> instant \<Rightarrow> edge_duplex \<Rightarrow> duplex_error + edge_duplex" where
  "edge_accept sequence cid purpose kind now st =
     bindE (edge_last_sequence CoreToEdge st) (\<lambda>previous.
     if sequence \<le> previous then Inl replayed
     else if sequence \<noteq> previous + 1 then Inl (DuplexPermission ''sequence_gap'')
     else
       bindE (edge_store_sequence CoreToEdge sequence previous ''replayed_sequence_or_correlation'' st) (\<lambda>st1.
       edge_advance_correlation cid purpose kind CoreToEdge sequence now st1))"

definition edge_terminal :: "uuid \<Rightarrow> correlation_state \<Rightarrow> instant \<Rightarrow> edge_duplex \<Rightarrow> duplex_error + edge_duplex" where
  "edge_terminal cid state now st =
     (if length (filter (\<lambda>k. k_id k = cid \<and> k_state k = Pending) (edge_correlations st)) \<noteq> 1 then Inl not_pending
      else Inr (st\<lparr>edge_correlations := map (\<lambda>k. if k_id k = cid \<and> k_state k = Pending then k\<lparr>k_state := state, k_updated := now\<rparr> else k)
                   (edge_correlations st)\<rparr>))"

definition edge_abandon :: "instant \<Rightarrow> edge_duplex \<Rightarrow> edge_duplex" where
  "edge_abandon now st =
     st\<lparr>edge_correlations := map (\<lambda>k. if k_state k = Pending then k\<lparr>k_state := Abandoned, k_updated := now\<rparr> else k) (edge_correlations st)\<rparr>"

definition edge_pending_request :: "uuid \<Rightarrow> string \<Rightarrow> edge_duplex \<Rightarrow> duplex_error + unit" where
  "edge_pending_request cid purpose st =
     require (list_ex (\<lambda>k. k_id k = cid \<and> k_purpose k = purpose \<and> k_direction k = EdgeToCore \<and> k_state k = Pending) (edge_correlations st))
       not_pending"

definition edge_prune :: "edge_duplex \<Rightarrow> edge_duplex" where
  "edge_prune st =
     st\<lparr>edge_correlations := filter (\<lambda>k. \<not> (is_terminal k \<and> k_id k \<in> set (surplus_terminal (edge_correlations st)))) (edge_correlations st)\<rparr>"

text \<open>A transaction: commit with a prune, or roll back; an integrity error of the store is raised as it is.\<close>

definition edge_transaction :: "(edge_duplex \<Rightarrow> duplex_error + ('a \<times> edge_duplex)) \<Rightarrow> edge_duplex \<Rightarrow> (duplex_error + 'a) \<times> edge_duplex" where
  "edge_transaction f st = (case f st of Inl e \<Rightarrow> (Inl e, st) | Inr (x, st') \<Rightarrow> (Inr x, edge_prune st'))"

definition edge_step :: "duplex_op \<Rightarrow> edge_duplex \<Rightarrow> (duplex_error + duplex_result) \<times> edge_duplex" where
  "edge_step op st =
     (case op of
        ReserveOutbound cid purpose kind now \<Rightarrow>
          (case require_purpose purpose of Inl e \<Rightarrow> (Inl e, st)
           | Inr _ \<Rightarrow> edge_transaction (\<lambda>s. bindE (edge_reserve cid purpose kind now s) (\<lambda>(n, s'). Inr (Sequenced n, s'))) st)
      | AcceptInbound sequence cid purpose kind now \<Rightarrow>
          (case bindE (require_sequence_number sequence) (\<lambda>_. require_purpose purpose) of Inl e \<Rightarrow> (Inl e, st)
           | Inr _ \<Rightarrow> edge_transaction (\<lambda>s. bindE (edge_accept sequence cid purpose kind now s) (\<lambda>s'. Inr (Done, s'))) st)
      | AcceptResponse cid purpose now \<Rightarrow>
          (case require_purpose purpose of Inl e \<Rightarrow> (Inl e, st)
           | Inr _ \<Rightarrow> edge_transaction (\<lambda>s. bindE (edge_pending_request cid purpose s) (\<lambda>_. Inr (Done, s))) st)
      | CompleteCorrelation cid now \<Rightarrow>
          edge_transaction (\<lambda>s. bindE (edge_terminal cid Completed now s) (\<lambda>s'. Inr (Done, s'))) st
      | AbandonCorrelation cid reason now \<Rightarrow>
          (case require_reason reason of Inl e \<Rightarrow> (Inl e, st)
           | Inr _ \<Rightarrow> edge_transaction (\<lambda>s. bindE (edge_terminal cid Abandoned now s) (\<lambda>s'. Inr (Done, s'))) st)
      | AbandonConnection reason now \<Rightarrow>
          (case require_reason reason of Inl e \<Rightarrow> (Inl e, st)
           | Inr _ \<Rightarrow> edge_transaction (\<lambda>s. Inr (Done, edge_abandon now s)) st))"

end
