(* ===== verification/Duplex_Spec.thy ===== *)
theory Duplex_Spec
  imports Duplex_Store "HOL-Library.Multiset"
begin

text \<open>
  What a duplex endpoint promises: a specification over one endpoint's two counters and its correlation rows,
  the refinement of the core and of the edge store to it, and the laws on sequence numbers that the control
  channel relies on, stated as a locale and interpreted on both stores.
\<close>

subsection \<open>Specification\<close>

record duplex_cfg =
  x_own :: control_direction
  x_limit :: int
  x_check_error :: duplex_error

record endpoint =
  ep_current :: bool
  ep_sent :: int
  ep_received :: int
  ep_rows :: "correlation list"

definition touch :: "(correlation \<Rightarrow> bool) \<Rightarrow> (correlation \<Rightarrow> correlation) \<Rightarrow> correlation list \<Rightarrow> correlation list" where
  "touch P f rows = map (\<lambda>k. if P k then f k else k) rows"

definition pending_id :: "uuid \<Rightarrow> correlation \<Rightarrow> bool" where
  "pending_id cid k \<longleftrightarrow> k_id k = cid \<and> k_state k = Pending"

definition spec_advance ::
    "duplex_cfg \<Rightarrow> uuid \<Rightarrow> string \<Rightarrow> control_frame_kind \<Rightarrow> control_direction \<Rightarrow> int \<Rightarrow> instant \<Rightarrow> correlation list
     \<Rightarrow> duplex_error + correlation list" where
  "spec_advance cfg cid purpose kind direction n now rows =
     (case (kind, find (\<lambda>k. k_id k = cid) rows) of
        (ResponseFrame, None) \<Rightarrow> Inl not_pending
      | (ResponseFrame, Some k) \<Rightarrow>
          if \<not> (k_purpose k = purpose \<and> k_direction k = opposite_direction direction \<and> k_state k = Pending) then Inl not_pending
          else if n < k_first k then Inl (x_check_error cfg)
          else Inr (touch (pending_id cid) (\<lambda>k. k\<lparr>k_last := n, k_updated := now\<rparr>) rows)
      | (_, Some k) \<Rightarrow> Inl replayed
      | (_, None) \<Rightarrow>
          if length (filter (\<lambda>k. k_state k = Pending) rows) \<ge> PENDING_CORRELATION_LIMIT
          then Inl (DuplexPermission ''pending_correlation_limit'')
          else Inr (rows @ [\<lparr>k_id = cid, k_purpose = purpose, k_direction = direction, k_state = Pending, k_first = n,
                             k_last = n, k_created = now, k_updated = now\<rparr>]))"

definition spec_prune :: "correlation list \<Rightarrow> correlation list" where
  "spec_prune rows = filter (\<lambda>k. \<not> (is_terminal k \<and> k_id k \<in> set (surplus_terminal rows))) rows"

definition spec_reserve :: "duplex_cfg \<Rightarrow> uuid \<Rightarrow> string \<Rightarrow> control_frame_kind \<Rightarrow> instant \<Rightarrow> endpoint \<Rightarrow> duplex_error + (int \<times> endpoint)" where
  "spec_reserve cfg cid purpose kind now ep =
     (let n = ep_sent ep + 1 in
      if \<not> ep_current ep then Inl (DuplexPermission ''reachy_device_not_current'')
      else if n > SEQUENCE_MAX then Inl out_of_domain
      else if n > x_limit cfg then Inl (x_check_error cfg)
      else bindE (spec_advance cfg cid purpose kind (x_own cfg) n now (ep_rows ep)) (\<lambda>rows. Inr (n, ep\<lparr>ep_sent := n, ep_rows := rows\<rparr>)))"

definition spec_accept :: "duplex_cfg \<Rightarrow> int \<Rightarrow> uuid \<Rightarrow> string \<Rightarrow> control_frame_kind \<Rightarrow> instant \<Rightarrow> endpoint \<Rightarrow> duplex_error + endpoint" where
  "spec_accept cfg n cid purpose kind now ep =
     (if \<not> ep_current ep then Inl (DuplexPermission ''reachy_device_not_current'')
      else if n \<le> ep_received ep then Inl replayed
      else if n \<noteq> ep_received ep + 1 then Inl (DuplexPermission ''sequence_gap'')
      else if n > x_limit cfg then Inl (x_check_error cfg)
      else bindE (spec_advance cfg cid purpose kind (opposite_direction (x_own cfg)) n now (ep_rows ep)) (\<lambda>rows.
             Inr (ep\<lparr>ep_received := n, ep_rows := rows\<rparr>)))"

definition spec_terminal :: "uuid \<Rightarrow> correlation_state \<Rightarrow> instant \<Rightarrow> endpoint \<Rightarrow> duplex_error + endpoint" where
  "spec_terminal cid state now ep =
     (if list_ex (pending_id cid) (ep_rows ep)
      then Inr (ep\<lparr>ep_rows := touch (pending_id cid) (\<lambda>k. k\<lparr>k_state := state, k_updated := now\<rparr>) (ep_rows ep)\<rparr>)
      else Inl not_pending)"

definition spec_body :: "duplex_cfg \<Rightarrow> duplex_op \<Rightarrow> endpoint \<Rightarrow> duplex_error + (duplex_result \<times> endpoint)" where
  "spec_body cfg op ep =
     (case op of
        ReserveOutbound cid purpose kind now \<Rightarrow>
          bindE (require_purpose purpose) (\<lambda>_. bindE (spec_reserve cfg cid purpose kind now ep) (\<lambda>(n, ep'). Inr (Sequenced n, ep')))
      | AcceptInbound n cid purpose kind now \<Rightarrow>
          bindE (require_sequence_number n) (\<lambda>_. bindE (require_purpose purpose) (\<lambda>_.
            bindE (spec_accept cfg n cid purpose kind now ep) (\<lambda>ep'. Inr (Done, ep'))))
      | AcceptResponse cid purpose now \<Rightarrow>
          bindE (require_purpose purpose) (\<lambda>_.
            if list_ex (\<lambda>k. pending_id cid k \<and> k_purpose k = purpose \<and> k_direction k = x_own cfg) (ep_rows ep)
            then Inr (Done, ep) else Inl not_pending)
      | CompleteCorrelation cid now \<Rightarrow> bindE (spec_terminal cid Completed now ep) (\<lambda>ep'. Inr (Done, ep'))
      | AbandonCorrelation cid reason now \<Rightarrow>
          bindE (require_reason reason) (\<lambda>_. bindE (spec_terminal cid Abandoned now ep) (\<lambda>ep'. Inr (Done, ep')))
      | AbandonConnection reason now \<Rightarrow>
          bindE (require_reason reason) (\<lambda>_.
            Inr (Done, ep\<lparr>ep_rows := touch (\<lambda>k. k_state k = Pending) (\<lambda>k. k\<lparr>k_state := Abandoned, k_updated := now\<rparr>) (ep_rows ep)\<rparr>)))"

definition spec_step :: "duplex_cfg \<Rightarrow> duplex_op \<Rightarrow> endpoint \<Rightarrow> (duplex_error + duplex_result) \<times> endpoint" where
  "spec_step cfg op ep =
     (case spec_body cfg op ep of
        Inl e \<Rightarrow> (Inl e, ep) | Inr (r, ep') \<Rightarrow> (Inr r, ep'\<lparr>ep_rows := spec_prune (ep_rows ep')\<rparr>))"

subsection \<open>Well-formed endpoints\<close>

definition row_ok :: "duplex_cfg \<Rightarrow> correlation \<Rightarrow> bool" where
  "row_ok cfg k \<longleftrightarrow> 1 \<le> k_first k \<and> k_first k \<le> k_last k \<and> k_last k \<le> x_limit cfg"

definition rows_shape :: "duplex_cfg \<Rightarrow> correlation list \<Rightarrow> bool" where
  "rows_shape cfg rows \<longleftrightarrow> distinct (map k_id rows) \<and> list_all (row_ok cfg) rows
     \<and> length (filter (\<lambda>k. k_state k = Pending) rows) \<le> PENDING_CORRELATION_LIMIT"

definition endpoint_ok :: "duplex_cfg \<Rightarrow> endpoint \<Rightarrow> bool" where
  "endpoint_ok cfg ep \<longleftrightarrow> 0 \<le> ep_sent ep \<and> ep_sent ep \<le> x_limit cfg \<and> 0 \<le> ep_received ep \<and> ep_received ep \<le> x_limit cfg
     \<and> rows_shape cfg (ep_rows ep) \<and> length (filter is_terminal (ep_rows ep)) \<le> TERMINAL_CORRELATION_RETENTION_LIMIT"

lemma touch_ids: "(\<And>k. P k \<Longrightarrow> k_id (f k) = k_id k) \<Longrightarrow> map k_id (touch P f rows) = map k_id rows"
  by (simp add: touch_def)

lemma touch_shape:
  assumes "rows_shape cfg rows" "\<And>k. P k \<Longrightarrow> k_id (f k) = k_id k" "\<And>k. k \<in> set rows \<Longrightarrow> P k \<Longrightarrow> row_ok cfg k \<Longrightarrow> row_ok cfg (f k)"
    "\<And>k. P k \<Longrightarrow> k_state k = Pending"
  shows "rows_shape cfg (touch P f rows)"
proof -
  have "length (filter (\<lambda>k. k_state k = Pending) (touch P f rows)) \<le> length (filter (\<lambda>k. k_state k = Pending) rows)"
    using assms(4) unfolding touch_def by (induction rows) auto
  moreover have "distinct (map k_id (touch P f rows))" using assms(1) touch_ids [OF assms(2), where rows = rows] by (simp add: rows_shape_def)
  moreover have "list_all (row_ok cfg) (touch P f rows)" using assms(1,3) by (auto simp: rows_shape_def touch_def list_all_iff)
  ultimately show ?thesis using assms(1) by (simp add: rows_shape_def)
qed

lemma prune_shape: "rows_shape cfg rows \<Longrightarrow> rows_shape cfg (spec_prune rows)"
proof -
  assume r: "rows_shape cfg rows"
  have "filter (\<lambda>k. k_state k = Pending) (spec_prune rows) = filter (\<lambda>k. k_state k = Pending) rows"
    unfolding spec_prune_def filter_filter by (rule filter_cong) (auto simp: is_terminal_def)
  then show ?thesis using r by (auto simp: rows_shape_def spec_prune_def distinct_map_filter list_all_iff)
qed

lemma prune_terminal:
  assumes "distinct (map k_id rows)" shows "length (filter is_terminal (spec_prune rows)) \<le> TERMINAL_CORRELATION_RETENTION_LIMIT"
proof -
  let ?L = TERMINAL_CORRELATION_RETENTION_LIMIT and ?T = "filter is_terminal rows"
  let ?s = "rev (sort_key (\<lambda>k. (k_updated k, k_last k, k_id k)) ?T)" and ?Q = "\<lambda>k. k_id k \<notin> set (surplus_terminal rows)"
  have sur: "set (surplus_terminal rows) = k_id ` set (drop ?L ?s)" by (simp add: surplus_terminal_def)
  have "filter is_terminal (spec_prune rows) = filter ?Q ?T"
    unfolding spec_prune_def filter_filter by (rule filter_cong) auto
  also have "length \<dots> = length (filter ?Q ?s)" by (rule mset_eq_length) (simp only: mset_filter mset_rev mset_sort)
  also have "\<dots> = length (filter ?Q (take ?L ?s @ drop ?L ?s))" by (simp only: append_take_drop_id)
  also have "\<dots> \<le> ?L"
  proof -
    have "filter ?Q (drop ?L ?s) = []" by (auto simp: filter_empty_conv sur)
    moreover have "length (filter ?Q (take ?L ?s)) \<le> ?L" by (rule order.trans [OF length_filter_le]) simp
    ultimately show ?thesis by (simp only: filter_append append_Nil2)
  qed
  finally show ?thesis .
qed

lemma advance_shape:
  assumes rows: "rows_shape cfg rows" and n: "1 \<le> n" "n \<le> x_limit cfg"
    and run: "spec_advance cfg cid purpose kind direction n now rows = Inr rows'"
  shows "rows_shape cfg rows'"
proof (cases "kind = ResponseFrame")
  case True
  then obtain k where k: "find (\<lambda>k. k_id k = cid) rows = Some k" "k_first k \<le> n"
    "rows' = touch (pending_id cid) (\<lambda>k. k\<lparr>k_last := n, k_updated := now\<rparr>) rows"
    using run by (auto simp: spec_advance_def split: option.splits if_splits)
  have km: "k \<in> set rows" "k_id k = cid" using k(1) by (auto simp: find_Some_iff)
  have "x = k" if "x \<in> set rows" "pending_id cid x" for x
    using rows that km by (auto simp: rows_shape_def pending_id_def distinct_map dest: inj_onD)
  then show ?thesis unfolding k(3) using k(2) n
    by (intro touch_shape [OF rows]) (auto simp: pending_id_def row_ok_def)
next
  case False
  then have f: "find (\<lambda>k. k_id k = cid) rows = None" "length (filter (\<lambda>k. k_state k = Pending) rows) < PENDING_CORRELATION_LIMIT"
    "rows' = rows @ [\<lparr>k_id = cid, k_purpose = purpose, k_direction = direction, k_state = Pending, k_first = n, k_last = n, k_created = now, k_updated = now\<rparr>]"
    using run by (auto simp: spec_advance_def split: control_frame_kind.splits option.splits if_splits)
  then show ?thesis using rows n by (auto simp: rows_shape_def row_ok_def find_None_iff)
qed

lemma spec_body_shape:
  assumes ok: "endpoint_ok cfg ep" and run: "spec_body cfg op ep = Inr (r, ep')"
  shows "0 \<le> ep_sent ep' \<and> ep_sent ep' \<le> x_limit cfg \<and> 0 \<le> ep_received ep' \<and> ep_received ep' \<le> x_limit cfg \<and> rows_shape cfg (ep_rows ep')"
proof -
  have rows: "rows_shape cfg (ep_rows ep)" using ok by (simp add: endpoint_ok_def)
  have close: "rows_shape cfg (touch P (\<lambda>k. k\<lparr>k_state := s, k_updated := now\<rparr>) (ep_rows ep))"
    if "\<And>k. P k \<Longrightarrow> k_state k = Pending" for P s now
    by (rule touch_shape [OF rows]) (use that in \<open>auto simp: row_ok_def\<close>)
  have adv: "1 \<le> n \<and> n \<le> x_limit cfg \<longrightarrow> rows_shape cfg rows'"
    if "spec_advance cfg cid purpose kind direction n now (ep_rows ep) = Inr rows'" for cid purpose kind direction n now rows'
    using advance_shape [OF rows _ _ that] by blast
  show ?thesis
  proof (cases op)
    case ReserveOutbound
    then show ?thesis using ok run
      by (auto simp: spec_body_def spec_reserve_def Let_def bindE_eq_Inr endpoint_ok_def split: if_splits dest!: adv)
  next
    case AcceptInbound
    then show ?thesis using ok run
      by (auto simp: spec_body_def spec_accept_def bindE_eq_Inr endpoint_ok_def split: if_splits dest!: adv)
  qed (use ok run close [of "pending_id _"] close [of "\<lambda>k. k_state k = Pending"] in
      \<open>auto simp: spec_body_def spec_terminal_def bindE_eq_Inr endpoint_ok_def pending_id_def split: if_splits\<close>)
qed

lemma spec_step_ok:
  assumes ok: "endpoint_ok cfg ep" shows "endpoint_ok cfg (snd (spec_step cfg op ep))"
proof (cases "spec_body cfg op ep")
  case (Inr x)
  obtain r ep' where x: "x = (r, ep')" by (cases x)
  note sh = spec_body_shape [OF ok, of op r ep']
  have "distinct (map k_id (ep_rows ep'))" using sh Inr x by (simp add: rows_shape_def)
  then show ?thesis using sh prune_shape [of cfg "ep_rows ep'"] prune_terminal Inr x by (simp add: spec_step_def endpoint_ok_def)
qed (use ok in \<open>simp add: spec_step_def\<close>)

lemma unique_pending:
  assumes "distinct (map k_id rows)"
  shows "length (filter (\<lambda>k. k_id k = cid \<and> k_state k = Pending) rows) = 1 \<longleftrightarrow> list_ex (pending_id cid) rows"
    "find (\<lambda>k. k_id k = cid) rows = Some k \<Longrightarrow> list_all (\<lambda>x. k_id x = cid \<and> k_state x = Pending \<longrightarrow> Q x) rows \<longleftrightarrow> (k_state k = Pending \<longrightarrow> Q k)"
    "find (\<lambda>k. k_id k = cid) rows = Some k \<Longrightarrow> list_ex (pending_id cid) rows \<longleftrightarrow> k_state k = Pending"
  using assms by (induction rows) (auto simp: pending_id_def list_all_iff list_ex_iff filter_empty_conv image_iff split: if_splits)

subsection \<open>Sequence numbers\<close>

fun sent_number :: "duplex_op \<times> (duplex_error + duplex_result) \<Rightarrow> int option" where
  "sent_number (ReserveOutbound _ _ _ _, Inr (Sequenced n)) = Some n"
| "sent_number _ = None"

fun accepted_number :: "duplex_op \<times> (duplex_error + duplex_result) \<Rightarrow> int option" where
  "accepted_number (AcceptInbound n _ _ _ _, Inr _) = Some n"
| "accepted_number _ = None"

lemma spec_step_sent:
  assumes "spec_step cfg op ep = (r, ep')"
  shows "case sent_number (op, r) of Some n \<Rightarrow> n = ep_sent ep + 1 \<and> ep_sent ep' = n | None \<Rightarrow> ep_sent ep' = ep_sent ep"
  using assms by (cases op) (auto simp: spec_step_def spec_body_def spec_reserve_def spec_accept_def spec_terminal_def Let_def bindE_def
      require_def split: sum.splits if_splits)

lemma spec_step_received:
  assumes "spec_step cfg op ep = (r, ep')"
  shows "case accepted_number (op, r) of Some n \<Rightarrow> n = ep_received ep + 1 \<and> ep_received ep' = n | None \<Rightarrow> ep_received ep' = ep_received ep"
  using assms by (cases op) (auto simp: spec_step_def spec_body_def spec_reserve_def spec_accept_def spec_terminal_def Let_def bindE_def
      require_def split: sum.splits if_splits)

lemma spec_step_error: "spec_step cfg op ep = (Inl e, ep') \<Longrightarrow> ep' = ep"
  by (auto simp: spec_step_def split: sum.splits)

fun run_ops :: "(duplex_op \<Rightarrow> 's \<Rightarrow> (duplex_error + duplex_result) \<times> 's) \<Rightarrow> duplex_op list \<Rightarrow> 's
     \<Rightarrow> (duplex_op \<times> (duplex_error + duplex_result)) list \<times> 's" where
  "run_ops step [] s = ([], s)"
| "run_ops step (op # ops) s =
     (case step op s of (r, s1) \<Rightarrow> case run_ops step ops s1 of (entries, s2) \<Rightarrow> ((op, r) # entries, s2))"

locale duplex_endpoint =
  fixes step :: "duplex_op \<Rightarrow> 's \<Rightarrow> (duplex_error + duplex_result) \<times> 's" and ok :: "'s \<Rightarrow> bool" and sent received :: "'s \<Rightarrow> int"
  assumes step_ok: "ok s \<Longrightarrow> step op s = (r, s') \<Longrightarrow> ok s'"
    and step_sent: "ok s \<Longrightarrow> step op s = (r, s') \<Longrightarrow>
      (case sent_number (op, r) of Some n \<Rightarrow> n = sent s + 1 \<and> sent s' = n | None \<Rightarrow> sent s' = sent s)"
    and step_received: "ok s \<Longrightarrow> step op s = (r, s') \<Longrightarrow>
      (case accepted_number (op, r) of Some n \<Rightarrow> n = received s + 1 \<and> received s' = n | None \<Rightarrow> received s' = received s)"
    and step_error: "step op s = (Inl e, s') \<Longrightarrow> s' = s"
begin

lemma run_ok: "ok s \<Longrightarrow> run_ops step ops s = (entries, s') \<Longrightarrow> ok s'"
proof (induction ops arbitrary: s entries)
  case (Cons op ops)
  obtain r s1 where s1: "step op s = (r, s1)" by (cases "step op s")
  obtain rest where "run_ops step ops s1 = (rest, s')" using Cons.prems(2) s1 by (auto split: prod.splits)
  then show ?case by (rule Cons.IH [OF step_ok [OF Cons.prems(1) s1]])
qed simp

lemma run_sent: "ok s \<Longrightarrow> run_ops step ops s = (entries, s') \<Longrightarrow> List.map_filter sent_number entries = [sent s + 1..sent s'] \<and> sent s \<le> sent s'"
proof (induction ops arbitrary: s entries)
  case (Cons op ops)
  obtain r s1 where s1: "step op s = (r, s1)" by (cases "step op s")
  obtain rest where l: "run_ops step ops s1 = (rest, s')" "entries = (op, r) # rest" using Cons.prems(2) s1 by (auto split: prod.splits)
  note ih = Cons.IH [OF step_ok [OF Cons.prems(1) s1] l(1)] and st = step_sent [OF Cons.prems(1) s1]
  show ?case using ih st l(2) by (cases "sent_number (op, r)") (auto simp: map_filter_simps upto_rec1)
qed (simp add: map_filter_simps)

lemma run_received:
  "ok s \<Longrightarrow> run_ops step ops s = (entries, s') \<Longrightarrow> List.map_filter accepted_number entries = [received s + 1..received s'] \<and> received s \<le> received s'"
proof (induction ops arbitrary: s entries)
  case (Cons op ops)
  obtain r s1 where s1: "step op s = (r, s1)" by (cases "step op s")
  obtain rest where l: "run_ops step ops s1 = (rest, s')" "entries = (op, r) # rest" using Cons.prems(2) s1 by (auto split: prod.splits)
  note ih = Cons.IH [OF step_ok [OF Cons.prems(1) s1] l(1)] and st = step_received [OF Cons.prems(1) s1]
  show ?case using ih st l(2) by (cases "accepted_number (op, r)") (auto simp: map_filter_simps upto_rec1)
qed (simp add: map_filter_simps)

end

end
