(* ===== verification/Duplex_Core.thy ===== *)
theory Duplex_Core
  imports Duplex_Spec
begin

text \<open>
  The core store (\<^verbatim>\<open>CoreDuplexState\<close>) implements the specification of a duplex endpoint, once per device: an operation on
  one device is the specification's operation on that device's view of the tables and leaves every other device's view.
\<close>

subsection \<open>A device's view of the tables\<close>

definition core_cfg :: duplex_cfg where
  "core_cfg = \<lparr>x_own = CoreToEdge, x_limit = MAX_BOUNDED_COUNT, x_check_error = replayed\<rparr>"

definition rows_of :: "uuid \<Rightarrow> (uuid \<times> correlation) list \<Rightarrow> correlation list" where
  "rows_of dev rs = map snd (filter (\<lambda>(d, _). d = dev) rs)"

definition core_abs :: "uuid \<Rightarrow> core_duplex \<Rightarrow> endpoint" where
  "core_abs dev st = \<lparr>ep_current = list_ex (current_device dev) (devices st),
     ep_sent = (case map_of (tx_sequences st) dev of None \<Rightarrow> 0 | Some n \<Rightarrow> n),
     ep_received = (case find (current_device dev) (devices st) of None \<Rightarrow> 0 | Some d \<Rightarrow> dv_last d),
     ep_rows = rows_of dev (core_correlations st)\<rparr>"

definition core_ok :: "core_duplex \<Rightarrow> bool" where
  "core_ok st \<longleftrightarrow> distinct (map dv_id (devices st)) \<and> distinct (map fst (tx_sequences st))
     \<and> (\<forall>dev. endpoint_ok core_cfg (core_abs dev st))"

lemma find_rows: "find (\<lambda>(d, k). d = dev \<and> P k) rs = map_option (Pair dev) (find P (rows_of dev rs))"
  by (induction rs) (auto simp: rows_of_def)

lemma count_rows: "length (filter (\<lambda>(d, k). d = dev \<and> P k) rs) = length (filter P (rows_of dev rs))"
  by (induction rs) (auto simp: rows_of_def)

lemma ex_rows: "list_ex (\<lambda>(d, k). d = dev \<and> P k) rs = list_ex P (rows_of dev rs)"
  by (induction rs) (auto simp: rows_of_def)

lemma all_rows: "list_all (\<lambda>(d, k). d = dev \<and> P k \<longrightarrow> Q k) rs = list_all (\<lambda>k. P k \<longrightarrow> Q k) (rows_of dev rs)"
  by (induction rs) (auto simp: rows_of_def)

lemma touch_rows:
  "rows_of dev' (map (\<lambda>(d, k). if d = dev \<and> P k then (d, f k) else (d, k)) rs) = (if dev' = dev then touch P f (rows_of dev rs) else rows_of dev' rs)"
  by (induction rs) (auto simp: rows_of_def touch_def)

lemma append_rows: "rows_of dev' (rs @ [(dev, k)]) = (if dev' = dev then rows_of dev rs @ [k] else rows_of dev' rs)"
  by (simp add: rows_of_def)

lemma filter_rows:
  "rows_of dev' (filter (\<lambda>(d, k). \<not> (d = dev \<and> P k)) rs) = (if dev' = dev then filter (\<lambda>k. \<not> P k) (rows_of dev rs) else rows_of dev' rs)"
  by (induction rs) (auto simp: rows_of_def)

lemma core_prune_abs:
  "core_abs dev' (core_prune dev st) = (if dev' = dev then (core_abs dev st)\<lparr>ep_rows := spec_prune (ep_rows (core_abs dev st))\<rparr> else core_abs dev' st)"
  using filter_rows [where P = "\<lambda>k. is_terminal k \<and> k_id k \<in> set (surplus_terminal (rows_of dev (core_correlations st)))"
      and rs = "core_correlations st" and dev = dev and dev' = dev']
  by (simp add: core_prune_def Let_def core_abs_def spec_prune_def rows_of_def [symmetric])

definition core_error :: "duplex_error \<Rightarrow> duplex_error" where
  "core_error e = (if e = DuplexIntegrity then replayed else e)"

definition refines :: "uuid \<Rightarrow> core_duplex \<Rightarrow> (duplex_error + core_duplex) \<Rightarrow> (duplex_error + endpoint) \<Rightarrow> bool" where
  "refines dev st c a \<longleftrightarrow> map_sum core_error (core_abs dev) c = a \<and>
     (\<forall>st'. c = Inr st' \<longrightarrow> (\<forall>dev'. dev' \<noteq> dev \<longrightarrow> core_abs dev' st' = core_abs dev' st)
        \<and> map dv_id (devices st') = map dv_id (devices st) \<and> distinct (map fst (tx_sequences st')) )"

lemma core_advance_refines:
  assumes rows: "rows_shape core_cfg (rows_of dev (core_correlations st))" and n: "1 \<le> n" "n \<le> MAX_BOUNDED_COUNT"
    and t: "distinct (map fst (tx_sequences st))"
  shows "refines dev st (core_advance_correlation dev cid purpose kind direction n now st)
    (bindE (spec_advance core_cfg cid purpose kind direction n now (ep_rows (core_abs dev st))) (\<lambda>rows. Inr ((core_abs dev st)\<lparr>ep_rows := rows\<rparr>)))"
proof -
  have d: "distinct (map k_id (rows_of dev (core_correlations st)))" using rows by (simp add: rows_shape_def)
  have r: "k_last k \<le> MAX_BOUNDED_COUNT \<and> 1 \<le> k_first k \<and> k_first k \<le> k_last k" if "find (\<lambda>k. k_id k = cid) (rows_of dev (core_correlations st)) = Some k" for k
    using rows that by (auto simp: rows_shape_def list_all_iff row_ok_def core_cfg_def find_Some_iff)
  show ?thesis
  proof (cases "find (\<lambda>k. k_id k = cid) (rows_of dev (core_correlations st))")
    case None
    then show ?thesis using n t
      by (cases kind) (auto simp: refines_def core_advance_correlation_def spec_advance_def Let_def find_rows count_rows core_abs_def
          append_rows core_correlation_check_def core_error_def bindE_def)
  next
    case (Some k)
    show ?thesis using n t r [OF Some] unique_pending [OF d]
      by (cases kind) (auto simp: refines_def core_advance_correlation_def spec_advance_def Let_def find_rows count_rows core_abs_def Some
          all_rows touch_rows pending_id_def [abs_def] core_correlation_check_def core_error_def core_cfg_def bindE_def)
  qed
qed

lemma tx_unique:
  "distinct (map fst xs) \<Longrightarrow> map_of xs dev = Some n \<Longrightarrow> length (filter (\<lambda>(d, m). d = dev \<and> m = n) xs) = 1"
  by (induction xs) (auto simp: filter_empty_conv image_iff split: if_splits dest: map_of_SomeD)

lemma tx_update:
  fixes f defines "f \<equiv> \<lambda>dev n n' (d, m). if d = dev \<and> m = n then (d, n') else (d, m)"
  shows "dev' \<noteq> dev \<Longrightarrow> map_of (map (f dev n n') xs) dev' = map_of xs dev'"
    "map_of xs dev = Some n \<Longrightarrow> map_of (map (f dev n n') xs) dev = Some n'"
    "map fst (map (f dev n n') xs) = map fst xs"
  by (induction xs) (auto simp: f_def split: if_splits)

definition store_tx :: "uuid \<Rightarrow> int \<Rightarrow> int \<Rightarrow> (uuid \<times> int) list \<Rightarrow> (uuid \<times> int) list" where
  "store_tx dev n n' xs = (case map_of xs dev of None \<Rightarrow> xs @ [(dev, n')]
     | Some _ \<Rightarrow> map (\<lambda>(d, m). if d = dev \<and> m = n then (d, n') else (d, m)) xs)"

lemma store_tx:
  assumes "distinct (map fst xs)" "n = (case map_of xs dev of None \<Rightarrow> 0 | Some m \<Rightarrow> m)"
  shows "map_of (store_tx dev n n' xs) dev' = (if dev' = dev then Some n' else map_of xs dev')" "distinct (map fst (store_tx dev n n' xs))"
proof -
  show "distinct (map fst (store_tx dev n n' xs))"
    using assms(1) map_of_eq_None_iff [of xs dev] by (cases "map_of xs dev") (simp_all add: store_tx_def tx_update(3) del: map_map)
  show "map_of (store_tx dev n n' xs) dev' = (if dev' = dev then Some n' else map_of xs dev')"
  proof (cases "map_of xs dev")
    case None
    then show ?thesis by (cases "map_of xs dev'") (auto simp: store_tx_def map_add_def)
  next
    case (Some m)
    then show ?thesis using assms(2) tx_update(1) [where dev' = dev' and dev = dev and xs = xs and n = n and n' = n'] tx_update(2) [where xs = xs and dev = dev and n = n and n' = n'] by (simp add: store_tx_def)
  qed
qed

lemma core_reserve_eq:
  assumes ok: "core_ok st" and p_def: "p = ep_sent (core_abs dev st)"
  shows "core_reserve dev cid purpose kind now st =
    (if \<not> ep_current (core_abs dev st) then Inl (DuplexPermission ''reachy_device_not_current'')
     else if p + 1 > MAX_BOUNDED_COUNT then Inl DuplexIntegrity
     else bindE (core_advance_correlation dev cid purpose kind CoreToEdge (p + 1) now (st\<lparr>tx_sequences := store_tx dev p (p + 1) (tx_sequences st)\<rparr>))
            (\<lambda>st2. Inr (p + 1, st2)))"
proof -
  have ep: "0 \<le> p" "p \<le> MAX_BOUNDED_COUNT" and t: "distinct (map fst (tx_sequences st))"
    using ok by (auto simp: core_ok_def endpoint_ok_def core_cfg_def p_def)
  have b: "require_sequence_bounds p = Inr ()" "require_sequence_bounds (p + 1) = Inr ()"
    "require (bounded_count_check (p + 1)) DuplexIntegrity = (if p + 1 > MAX_BOUNDED_COUNT then Inl DuplexIntegrity else Inr ())"
    using ep by (simp_all add: require_sequence_bounds_def require_def SEQUENCE_MAX_def MAX_BOUNDED_COUNT_def bounded_count_check_def)
  have prev: "(case map_of (tx_sequences st) dev of None \<Rightarrow> Inr 0 | Some n \<Rightarrow> bounded_sequence n) = Inr p"
    using b(1) by (cases "map_of (tx_sequences st) dev") (simp_all add: p_def core_abs_def bounded_sequence_def)
  have "map_of (tx_sequences st) dev = None \<or> length (filter (\<lambda>(d, n). d = dev \<and> n = p) (tx_sequences st)) = 1"
    using tx_unique [OF t] by (cases "map_of (tx_sequences st) dev") (simp_all add: p_def core_abs_def)
  then have one: "require (map_of (tx_sequences st) dev = None \<or> length (filter (\<lambda>(d, n). d = dev \<and> n = p) (tx_sequences st)) = 1) e = Inr ()"
    for e :: duplex_error by (simp only: require_def if_True)
  have cur: "require_current_device dev st = (if ep_current (core_abs dev st) then Inr () else Inl (DuplexPermission ''reachy_device_not_current''))"
    by (simp add: require_current_device_def require_def core_abs_def)
  show ?thesis unfolding core_reserve_def prev cur by (simp add: Let_def b one store_tx_def [symmetric] del: One_nat_def)
qed

lemma refines_bind:
  assumes "refines dev st c (bindE a (\<lambda>rows. Inr (ep\<lparr>ep_rows := rows\<rparr>)))"
  shows "refines dev st (map_sum id snd (bindE c (\<lambda>st2. Inr (n, st2)))) (map_sum id snd (bindE a (\<lambda>rows. Inr (n, ep\<lparr>ep_rows := rows\<rparr>))))"
  using assms by (cases c; cases a) (auto simp: refines_def)

lemma refines_from:
  assumes "refines dev st1 c a" "\<And>dev'. dev' \<noteq> dev \<Longrightarrow> core_abs dev' st1 = core_abs dev' st" "map dv_id (devices st1) = map dv_id (devices st)"
  shows "refines dev st c a"
  using assms by (simp add: refines_def)

lemma core_reserve_refines:
  assumes ok: "core_ok st"
  shows "refines dev st (map_sum id snd (core_reserve dev cid purpose kind now st)) (map_sum id snd (spec_reserve core_cfg cid purpose kind now (core_abs dev st)))"
proof -
  define p where "p = ep_sent (core_abs dev st)"
  define st1 where "st1 = st\<lparr>tx_sequences := store_tx dev p (p + 1) (tx_sequences st)\<rparr>"
  have ep: "endpoint_ok core_cfg (core_abs dev st)" and t: "distinct (map fst (tx_sequences st))" using ok by (simp_all add: core_ok_def)
  have sent: "p = (case map_of (tx_sequences st) dev of None \<Rightarrow> 0 | Some m \<Rightarrow> m)" by (simp add: p_def core_abs_def)
  have abs: "core_abs dev' st1 = (if dev' = dev then (core_abs dev st)\<lparr>ep_sent := p + 1\<rparr> else core_abs dev' st)" for dev'
    unfolding st1_def using store_tx(1) [OF t sent, of "p + 1" dev'] by (simp add: core_abs_def)
  have rows: "rows_shape core_cfg (rows_of dev (core_correlations st1))" using ep by (simp add: endpoint_ok_def core_abs_def st1_def)
  have pos: "1 \<le> p + 1" using ep by (simp add: endpoint_ok_def p_def)
  have lim: "p + 1 > SEQUENCE_MAX \<Longrightarrow> False"
    using ep by (simp add: endpoint_ok_def p_def core_cfg_def SEQUENCE_MAX_def MAX_BOUNDED_COUNT_def)
  have t1: "distinct (map fst (tx_sequences st1))" unfolding st1_def using store_tx(2) [OF t sent] by simp
  note adv = core_advance_refines [OF rows pos _ t1, where cid = cid and purpose = purpose and kind = kind and direction = CoreToEdge and now = now]
  have sp: "spec_reserve core_cfg cid purpose kind now (core_abs dev st) =
      (if \<not> ep_current (core_abs dev st) then Inl (DuplexPermission ''reachy_device_not_current'')
       else if p + 1 > MAX_BOUNDED_COUNT then Inl replayed
       else bindE (spec_advance core_cfg cid purpose kind CoreToEdge (p + 1) now (ep_rows (core_abs dev st1)))
              (\<lambda>rows. Inr (p + 1, (core_abs dev st1)\<lparr>ep_rows := rows\<rparr>)))"
    using lim by (auto simp: spec_reserve_def Let_def p_def [symmetric] abs core_cfg_def)
  show ?thesis
  proof (cases "ep_current (core_abs dev st) \<and> p + 1 \<le> MAX_BOUNDED_COUNT")
    case True
    have r: "refines dev st1 (map_sum id snd (bindE (core_advance_correlation dev cid purpose kind CoreToEdge (p + 1) now st1) (\<lambda>st2. Inr (p + 1, st2))))
        (map_sum id snd (bindE (spec_advance core_cfg cid purpose kind CoreToEdge (p + 1) now (ep_rows (core_abs dev st1)))
              (\<lambda>rows. Inr (p + 1, (core_abs dev st1)\<lparr>ep_rows := rows\<rparr>))))"
      using True by (intro refines_bind adv) simp
    show ?thesis unfolding core_reserve_eq [OF ok p_def] sp st1_def [symmetric]
      using refines_from [OF r] True by (simp add: abs) (simp add: st1_def)
  next
    case False
    then show ?thesis unfolding core_reserve_eq [OF ok p_def] sp by (auto simp: refines_def core_error_def)
  qed
qed

lemma core_reserve_number:
  "core_ok st \<Longrightarrow> core_reserve dev cid purpose kind now st = Inr (n, st') \<Longrightarrow> n = ep_sent (core_abs dev st) + 1"
  by (simp add: core_reserve_eq bindE_eq_Inr split: if_split_asm)

lemma device_unique:
  assumes "distinct (map dv_id ds)" "find (current_device dev) ds = Some d"
  shows "length (filter (\<lambda>d'. dv_id d' = dev \<and> dv_revoked d' = None \<and> dv_last d' = dv_last d) ds) = 1"
  using assms by (induction ds) (auto simp: current_device_def filter_empty_conv image_iff find_Some_iff split: if_splits)

definition advance_device :: "uuid \<Rightarrow> int \<Rightarrow> int \<Rightarrow> device_row \<Rightarrow> device_row" where
  "advance_device dev p n d = (if dv_id d = dev \<and> dv_revoked d = None \<and> dv_last d = p then d\<lparr>dv_last := n\<rparr> else d)"

lemma advance_device_keeps:
  "dv_id (advance_device dev p n d) = dv_id d" "current_device dev' (advance_device dev p n d) = current_device dev' d"
  "dv_id d \<noteq> dev \<Longrightarrow> advance_device dev p n d = d" "current_device dev d \<Longrightarrow> advance_device dev (dv_last d) n d = d\<lparr>dv_last := n\<rparr>"
  by (auto simp: advance_device_def current_device_def)

lemma advance_device_find:
  "list_ex (current_device dev') (map (advance_device dev p n) ds) = list_ex (current_device dev') ds"
  "dev' \<noteq> dev \<Longrightarrow> find (current_device dev') (map (advance_device dev p n) ds) = find (current_device dev') ds"
  "find (current_device dev) ds = Some d \<Longrightarrow> find (current_device dev) (map (advance_device dev (dv_last d) n) ds) = Some (d\<lparr>dv_last := n\<rparr>)"
proof -
  show "list_ex (current_device dev') (map (advance_device dev p n) ds) = list_ex (current_device dev') ds"
    by (induction ds) (simp_all add: advance_device_keeps)
  show "dev' \<noteq> dev \<Longrightarrow> find (current_device dev') (map (advance_device dev p n) ds) = find (current_device dev') ds"
    by (induction ds) (auto simp: advance_device_keeps current_device_def)
  show "find (current_device dev) ds = Some d \<Longrightarrow> find (current_device dev) (map (advance_device dev (dv_last d) n) ds) = Some (d\<lparr>dv_last := n\<rparr>)"
    by (induction ds) (auto simp: advance_device_keeps split: if_splits)
qed

lemma current_find: "list_ex P xs \<longleftrightarrow> find P xs \<noteq> None"
  by (induction xs) auto

lemma core_accept_refines:
  assumes ok: "core_ok st" and n: "1 \<le> n"
  shows "refines dev st (core_accept dev n cid purpose kind now st) (spec_accept core_cfg n cid purpose kind now (core_abs dev st))"
proof (cases "find (current_device dev) (devices st)")
  case None
  then show ?thesis by (simp add: refines_def core_accept_def device_last_sequence_def spec_accept_def core_abs_def current_find core_error_def)
next
  case (Some d)
  have ep: "endpoint_ok core_cfg (core_abs dev st)" and ds: "distinct (map dv_id (devices st))" and t: "distinct (map fst (tx_sequences st))"
    using ok by (simp_all add: core_ok_def)
  define st1 where "st1 = st\<lparr>devices := map (advance_device dev (dv_last d) n) (devices st)\<rparr>"
  have rec: "ep_received (core_abs dev st) = dv_last d" "ep_current (core_abs dev st)" using Some by (simp_all add: core_abs_def current_find)
  have abs: "core_abs dev' st1 = (if dev' = dev then (core_abs dev st)\<lparr>ep_received := n\<rparr> else core_abs dev' st)" for dev'
    unfolding st1_def core_abs_def using advance_device_find(3) [OF Some, of n] by (simp add: advance_device_find(1,2))
  have last: "device_last_sequence dev st = Inr (dv_last d)"
    using ep rec Some by (simp add: device_last_sequence_def bounded_sequence_def require_sequence_bounds_def require_def endpoint_ok_def
        core_cfg_def SEQUENCE_MAX_def MAX_BOUNDED_COUNT_def)
  have rows: "rows_shape core_cfg (rows_of dev (core_correlations st1))" and t1: "distinct (map fst (tx_sequences st1))"
    and ids: "map dv_id (devices st1) = map dv_id (devices st)"
    using ep t by (simp_all add: endpoint_ok_def core_abs_def st1_def advance_device_keeps)
  have c: "core_accept dev n cid purpose kind now st =
      (if n \<le> dv_last d then Inl replayed else if n \<noteq> dv_last d + 1 then Inl (DuplexPermission ''sequence_gap'')
       else if n > MAX_BOUNDED_COUNT then Inl DuplexIntegrity
       else core_advance_correlation dev cid purpose kind EdgeToCore n now st1)"
    using n device_unique [OF ds Some] by (cases "n = dv_last d + 1") (simp_all add: core_accept_def last Let_def st1_def bounded_count_check_def require_def advance_device_def [abs_def])
  have a: "spec_accept core_cfg n cid purpose kind now (core_abs dev st) =
      (if n \<le> dv_last d then Inl replayed else if n \<noteq> dv_last d + 1 then Inl (DuplexPermission ''sequence_gap'')
       else if n > MAX_BOUNDED_COUNT then Inl replayed
       else bindE (spec_advance core_cfg cid purpose kind EdgeToCore n now (ep_rows (core_abs dev st1))) (\<lambda>rows. Inr ((core_abs dev st1)\<lparr>ep_rows := rows\<rparr>)))"
    using rec by (simp add: spec_accept_def abs core_cfg_def)
  show ?thesis
  proof (cases "n = dv_last d + 1 \<and> n \<le> MAX_BOUNDED_COUNT")
    case True
    note adv = core_advance_refines [OF rows n _ t1, where cid = cid and purpose = purpose and kind = kind and direction = EdgeToCore and now = now]
    show ?thesis unfolding c a using True refines_from [OF adv] ids by (simp add: abs)
  next
    case False
    then show ?thesis unfolding c a by (auto simp: refines_def core_error_def)
  qed
qed

lemma core_terminal_refines:
  assumes ok: "core_ok st"
  shows "refines dev st (core_terminal dev cid state now st) (spec_terminal cid state now (core_abs dev st))"
proof -
  have d: "distinct (map k_id (rows_of dev (core_correlations st)))" and t: "distinct (map fst (tx_sequences st))"
    using ok [unfolded core_ok_def] by (auto simp: endpoint_ok_def rows_shape_def core_abs_def)
  show ?thesis using t unique_pending(1) [OF d, of cid]
    by (simp add: refines_def core_terminal_def spec_terminal_def Let_def core_abs_def count_rows touch_rows pending_id_def [abs_def] core_error_def)
qed

lemma core_abandon_refines:
  assumes ok: "core_ok st"
  shows "refines dev st (Inr (core_abandon dev now st))
    (Inr ((core_abs dev st)\<lparr>ep_rows := touch (\<lambda>k. k_state k = Pending) (\<lambda>k. k\<lparr>k_state := Abandoned, k_updated := now\<rparr>) (ep_rows (core_abs dev st))\<rparr>))"
  using ok by (simp add: refines_def core_abandon_def core_abs_def touch_rows core_ok_def)


text \<open>A committed operation: its result and the endpoint it leaves are those of the specification.\<close>

lemma core_commit_refines:
  assumes ok: "core_ok st" and r: "refines dev st (map_sum id snd (f st)) (map_sum id snd g)"
    and x: "\<And>x st'. f st = Inr (x, st') \<Longrightarrow> \<exists>ep'. g = Inr (x, ep')"
  shows "core_commit dev f st = (res, st') \<Longrightarrow>
      (res, core_abs dev st') = (case g of Inl e \<Rightarrow> (Inl e, core_abs dev st) | Inr (x, ep') \<Rightarrow> (Inr x, ep'\<lparr>ep_rows := spec_prune (ep_rows ep')\<rparr>))"
    "core_commit dev f st = (res, st') \<Longrightarrow> dev' \<noteq> dev \<Longrightarrow> core_abs dev' st' = core_abs dev' st"
    "core_commit dev f st = (res, st') \<Longrightarrow> map dv_id (devices st') = map dv_id (devices st) \<and> distinct (map fst (tx_sequences st'))"
proof -
  have t: "distinct (map fst (tx_sequences st))" using ok by (simp add: core_ok_def)
  have keep: "devices (core_prune dev s) = devices s" "tx_sequences (core_prune dev s) = tx_sequences s" for s
    by (simp_all add: core_prune_def Let_def)
  assume run: "core_commit dev f st = (res, st')"
  show "(res, core_abs dev st') = (case g of Inl e \<Rightarrow> (Inl e, core_abs dev st) | Inr (x, ep') \<Rightarrow> (Inr x, ep'\<lparr>ep_rows := spec_prune (ep_rows ep')\<rparr>))"
  proof (cases "f st")
    case (Inl e)
    then show ?thesis using run r by (cases g) (auto simp: core_commit_def refines_def core_error_def)
  next
    case (Inr y)
    obtain v s where y: "y = (v, s)" by (cases y)
    obtain ep' where g: "g = Inr (v, ep')" using x [of v s] Inr y by auto
    then show ?thesis using run r Inr y by (auto simp: core_commit_def refines_def core_prune_abs)
  qed
  show "dev' \<noteq> dev \<Longrightarrow> core_abs dev' st' = core_abs dev' st"
    using run r by (cases "f st") (auto simp: core_commit_def refines_def core_prune_abs)
  show "map dv_id (devices st') = map dv_id (devices st) \<and> distinct (map fst (tx_sequences st'))"
    using run r t by (cases "f st") (auto simp: core_commit_def refines_def keep)
qed

definition simulates :: "uuid \<Rightarrow> core_duplex \<Rightarrow> (duplex_error + duplex_result) \<times> core_duplex \<Rightarrow> (duplex_error + duplex_result) \<times> endpoint \<Rightarrow> bool" where
  "simulates dev st c a \<longleftrightarrow> map_prod id (core_abs dev) c = a \<and> (\<forall>dev'. dev' \<noteq> dev \<longrightarrow> core_abs dev' (snd c) = core_abs dev' st)
     \<and> map dv_id (devices (snd c)) = map dv_id (devices st) \<and> distinct (map fst (tx_sequences (snd c)))"

lemma commit_simulates:
  assumes "core_ok st" "refines dev st (map_sum id snd (f st)) (map_sum id snd g)" "\<And>x st'. f st = Inr (x, st') \<Longrightarrow> \<exists>ep'. g = Inr (x, ep')"
  shows "simulates dev st (core_commit dev f st)
    (case g of Inl e \<Rightarrow> (Inl e, core_abs dev st) | Inr (x, ep') \<Rightarrow> (Inr x, ep'\<lparr>ep_rows := spec_prune (ep_rows ep')\<rparr>))"
proof -
  obtain res st' where c: "core_commit dev f st = (res, st')" by (cases "core_commit dev f st")
  note r = core_commit_refines [OF assms c]
  show ?thesis unfolding simulates_def c using r(1) r(2) r(3) by simp
qed

lemma guard_simulates: "core_ok st \<Longrightarrow> simulates dev st (Inl e, st) (Inl e, core_abs dev st)"
  by (simp add: simulates_def core_ok_def)

lemma done_simulates:
  assumes "core_ok st" "refines dev st (f st) g"
  shows "simulates dev st (core_commit dev (\<lambda>s. bindE (f s) (\<lambda>s'. Inr (Done, s'))) st)
    (case bindE g (\<lambda>ep'. Inr (Done, ep')) of Inl e \<Rightarrow> (Inl e, core_abs dev st) | Inr (x, ep') \<Rightarrow> (Inr x, ep'\<lparr>ep_rows := spec_prune (ep_rows ep')\<rparr>))"
proof (rule commit_simulates [OF assms(1)])
  show "refines dev st (map_sum id snd (bindE (f st) (\<lambda>s'. Inr (Done, s')))) (map_sum id snd (bindE g (\<lambda>ep'. Inr (Done, ep'))))"
    using assms(2) by (cases "f st"; cases g) (auto simp: refines_def)
  show "\<exists>ep'. bindE g (\<lambda>ep'. Inr (Done, ep')) = Inr (x, ep')" if "bindE (f st) (\<lambda>s'. Inr (Done, s')) = Inr (x, st')" for x st'
    using assms(2) that by (cases "f st"; cases g) (auto simp: refines_def)
qed

lemma reserve_simulates:
  assumes ok: "core_ok st"
  shows "simulates dev st (core_commit dev (\<lambda>s. bindE (core_reserve dev cid purpose kind now s) (\<lambda>(n, s'). Inr (Sequenced n, s'))) st)
    (case bindE (spec_reserve core_cfg cid purpose kind now (core_abs dev st)) (\<lambda>(n, ep'). Inr (Sequenced n, ep')) of
       Inl e \<Rightarrow> (Inl e, core_abs dev st) | Inr (x, ep') \<Rightarrow> (Inr x, ep'\<lparr>ep_rows := spec_prune (ep_rows ep')\<rparr>))"
proof (rule commit_simulates [OF ok])
  let ?c = "core_reserve dev cid purpose kind now st" and ?a = "spec_reserve core_cfg cid purpose kind now (core_abs dev st)"
  note r = core_reserve_refines [OF ok, where dev = dev and cid = cid and purpose = purpose and kind = kind and now = now]
  show "refines dev st (map_sum id snd (bindE ?c (\<lambda>(n, s'). Inr (Sequenced n, s')))) (map_sum id snd (bindE ?a (\<lambda>(n, ep'). Inr (Sequenced n, ep'))))"
    using r by (cases ?c; cases ?a) (auto simp: refines_def)
  have number: "n = ep_sent (core_abs dev st) + 1" if "?a = Inr (n, ep')" for n ep'
    using that by (auto simp: spec_reserve_def Let_def bindE_eq_Inr split: if_splits)
  show "\<exists>ep'. bindE ?a (\<lambda>(n, ep'). Inr (Sequenced n, ep')) = Inr (x, ep')"
    if "bindE ?c (\<lambda>(n, s'). Inr (Sequenced n, s')) = Inr (x, st')" for x st'
    using r that number core_reserve_number [OF ok] by (cases ?c; cases ?a) (auto simp: refines_def)
qed

lemma pending_request_eq:
  "core_pending_request dev cid purpose st =
     (if list_ex (\<lambda>k. pending_id cid k \<and> k_purpose k = purpose \<and> k_direction k = x_own core_cfg) (ep_rows (core_abs dev st))
      then Inr () else Inl not_pending)"
proof -
  have "(\<lambda>k. pending_id cid k \<and> k_purpose k = purpose \<and> k_direction k = CoreToEdge)
      = (\<lambda>k. k_id k = cid \<and> k_purpose k = purpose \<and> k_direction k = CoreToEdge \<and> k_state k = Pending)"
    by (auto simp: pending_id_def)
  then show ?thesis by (simp add: core_pending_request_def require_def core_abs_def core_cfg_def ex_rows)
qed

lemma core_step_simulates:
  assumes ok: "core_ok st"
  shows "simulates dev st (core_step dev op st) (spec_step core_cfg op (core_abs dev st))"
proof (cases op)
  case (ReserveOutbound cid purpose kind now)
  then show ?thesis using reserve_simulates [OF ok, where dev = dev and cid = cid and purpose = purpose and kind = kind and now = now] guard_simulates [OF ok]
    by (cases "require_purpose purpose") (simp_all add: core_step_def spec_step_def spec_body_def)
next
  case (AcceptInbound n cid purpose kind now)
  have "1 \<le> n" if "require_sequence_number n = Inr u" for u
    using that by (auto simp: require_sequence_number_def bindE_eq_Inr require_def split: if_splits)
  then show ?thesis using AcceptInbound 
      done_simulates [OF ok, where f = "core_accept dev n cid purpose kind now", OF core_accept_refines [OF ok]] guard_simulates [OF ok]
    by (cases "require_sequence_number n"; cases "require_purpose purpose") (simp_all add: core_step_def spec_step_def spec_body_def)
next
  case (AcceptResponse cid purpose now)
  have r: "refines dev st (bindE (core_pending_request dev cid purpose st) (\<lambda>_. Inr st))
      (if list_ex (\<lambda>k. pending_id cid k \<and> k_purpose k = purpose \<and> k_direction k = x_own core_cfg) (ep_rows (core_abs dev st))
       then Inr (core_abs dev st) else Inl not_pending)"
    using ok by (simp add: refines_def pending_request_eq core_error_def core_ok_def)
  have s: "bindE (bindE x (\<lambda>_. Inr s)) h = bindE x (\<lambda>_. h s)" for x :: "duplex_error + unit" and s :: core_duplex and h :: "core_duplex \<Rightarrow> duplex_error + (duplex_result \<times> core_duplex)"
    by (cases x) simp_all
  show ?thesis using AcceptResponse done_simulates [OF ok, where f = "\<lambda>s. bindE (core_pending_request dev cid purpose s) (\<lambda>_. Inr s)", OF r] guard_simulates [OF ok]
    by (cases "require_purpose purpose") (simp_all add: core_step_def spec_step_def spec_body_def s split: if_split_asm)
next
  case (CompleteCorrelation cid now)
  show ?thesis unfolding CompleteCorrelation core_step_def spec_step_def spec_body_def 
    using done_simulates [OF ok, where f = "core_terminal dev cid Completed now", OF core_terminal_refines [OF ok]] by simp
next
  case (AbandonCorrelation cid reason now)
  then show ?thesis using done_simulates [OF ok, where f = "core_terminal dev cid Abandoned now", OF core_terminal_refines [OF ok]] guard_simulates [OF ok]
    by (cases "require_reason reason") (simp_all add: core_step_def spec_step_def spec_body_def)
next
  case (AbandonConnection reason now)
  then show ?thesis using done_simulates [OF ok, where f = "\<lambda>s. Inr (core_abandon dev now s)", OF core_abandon_refines [OF ok]] guard_simulates [OF ok]
    by (cases "require_reason reason") (simp_all add: core_step_def spec_step_def spec_body_def)
qed

lemma core_step_ok:
  assumes ok: "core_ok st" shows "core_ok (snd (core_step dev op st))"
proof -
  note sim = core_step_simulates [OF ok, of dev op, unfolded simulates_def]
  have "core_abs dev (snd (core_step dev op st)) = snd (spec_step core_cfg op (core_abs dev st))"
    using sim by (metis snd_map_prod)
  moreover have "endpoint_ok core_cfg (snd (spec_step core_cfg op (core_abs dev st)))"
    by (rule spec_step_ok) (use ok in \<open>simp add: core_ok_def\<close>)
  ultimately have "endpoint_ok core_cfg (core_abs dev' (snd (core_step dev op st)))" for dev'
    using sim ok by (cases "dev' = dev") (simp_all add: core_ok_def)
  then show ?thesis using sim ok by (simp add: core_ok_def)
qed

lemma core_step_error:
  "core_step dev op st = (Inl e, st') \<Longrightarrow> st' = st"
  by (cases op) (auto simp: core_step_def core_commit_def split: sum.splits)

interpretation core_duplex: duplex_endpoint "core_step dev" core_ok "\<lambda>st. ep_sent (core_abs dev st)" "\<lambda>st. ep_received (core_abs dev st)" for dev
proof
  fix s op r s' assume ok: "core_ok s" and run: "core_step dev op s = (r, s')"
  have sim: "spec_step core_cfg op (core_abs dev s) = (r, core_abs dev s')"
    using core_step_simulates [OF ok, of dev op] run by (simp add: simulates_def)
  show "core_ok s'" using core_step_ok [OF ok, of dev op] run by simp
  show "case sent_number (op, r) of None \<Rightarrow> ep_sent (core_abs dev s') = ep_sent (core_abs dev s)
      | Some n \<Rightarrow> n = ep_sent (core_abs dev s) + 1 \<and> ep_sent (core_abs dev s') = n" using spec_step_sent [OF sim] by (simp split: option.splits)
  show "case accepted_number (op, r) of None \<Rightarrow> ep_received (core_abs dev s') = ep_received (core_abs dev s)
      | Some n \<Rightarrow> n = ep_received (core_abs dev s) + 1 \<and> ep_received (core_abs dev s') = n" using spec_step_received [OF sim] by (simp split: option.splits)
qed (rule core_step_error)

end
