(* ===== verification/Duplex_Edge.thy ===== *)
theory Duplex_Edge
  imports Duplex_Spec
begin

text \<open>
  The edge store (\<^verbatim>\<open>EdgeDuplexState\<close>) implements the specification of a duplex endpoint: each operation is a functional
  refinement of the specification's, so the laws on sequence numbers hold of the edge's tables.
\<close>

definition edge_cfg :: duplex_cfg where
  "edge_cfg = \<lparr>x_own = EdgeToCore, x_limit = SEQUENCE_MAX, x_check_error = DuplexIntegrity\<rparr>"

definition edge_counter :: "control_direction \<Rightarrow> edge_duplex \<Rightarrow> int" where
  "edge_counter direction st = (case map_of (edge_sequences st) direction of None \<Rightarrow> 0 | Some n \<Rightarrow> n)"

definition edge_abs :: "edge_duplex \<Rightarrow> endpoint" where
  "edge_abs st = \<lparr>ep_current = True, ep_sent = edge_counter EdgeToCore st, ep_received = edge_counter CoreToEdge st,
     ep_rows = edge_correlations st\<rparr>"

definition edge_ok :: "edge_duplex \<Rightarrow> bool" where
  "edge_ok st \<longleftrightarrow> endpoint_ok edge_cfg (edge_abs st)"

lemma edge_okD:
  assumes "edge_ok st"
  shows "0 \<le> edge_counter direction st" "edge_counter direction st \<le> SEQUENCE_MAX" "rows_shape edge_cfg (edge_correlations st)"
  using assms by (cases direction; simp add: edge_ok_def endpoint_ok_def edge_abs_def edge_cfg_def)+

lemma edge_last_eq: "edge_ok st \<Longrightarrow> edge_last_sequence direction st = Inr (edge_counter direction st)"
  using edge_okD(1,2) [of st direction]
  by (cases "map_of (edge_sequences st) direction")
    (simp_all add: edge_last_sequence_def edge_counter_def bounded_sequence_def require_sequence_bounds_def require_def)

definition put_sequence :: "control_direction \<Rightarrow> int \<Rightarrow> edge_duplex \<Rightarrow> edge_duplex" where
  "put_sequence direction n st = st\<lparr>edge_sequences := (case map_of (edge_sequences st) direction of
       None \<Rightarrow> edge_sequences st @ [(direction, n)]
     | Some _ \<Rightarrow> map (\<lambda>(d, m). if d = direction then (d, n) else (d, m)) (edge_sequences st))\<rparr>"

lemma edge_store_eq:
  "edge_store_sequence direction n (edge_counter direction st) conflict st
     = (if 0 \<le> n \<and> n \<le> SEQUENCE_MAX then Inr (put_sequence direction n st) else Inl DuplexIntegrity)"
  by (simp add: edge_store_sequence_def put_sequence_def edge_counter_def split: option.splits)

lemma map_of_put: "map_of (map (\<lambda>(d, m). if d = k then (d, n) else (d, m)) xs) d' = (if d' = k then map_option (\<lambda>_. n) (map_of xs k) else map_of xs d')"
  by (induction xs) auto

lemma put_sequence_keeps: "edge_correlations (put_sequence direction n st) = edge_correlations st"
  "edge_counter d (put_sequence direction n st) = (if d = direction then n else edge_counter d st)"
proof -
  show "edge_correlations (put_sequence direction n st) = edge_correlations st" by (simp add: put_sequence_def)
  show "edge_counter d (put_sequence direction n st) = (if d = direction then n else edge_counter d st)"
    by (cases "map_of (edge_sequences st) direction") (auto simp: put_sequence_def edge_counter_def map_of_put map_add_def split: option.splits)
qed

lemma edge_counter_rows: "edge_counter d (st\<lparr>edge_correlations := rows\<rparr>) = edge_counter d st"
  by (simp add: edge_counter_def)

lemma edge_advance_refines:
  assumes rows: "rows_shape edge_cfg (edge_correlations st)" and n: "1 \<le> n" "n \<le> SEQUENCE_MAX"
  shows "edge_advance_correlation cid purpose kind direction n now st =
    bindE (spec_advance edge_cfg cid purpose kind direction n now (edge_correlations st)) (\<lambda>rows. Inr (st\<lparr>edge_correlations := rows\<rparr>))"
proof -
  have d: "distinct (map k_id (edge_correlations st))" using rows by (simp add: rows_shape_def)
  have r: "k_last k \<le> SEQUENCE_MAX \<and> 1 \<le> k_first k \<and> k_first k \<le> k_last k" if "find (\<lambda>k. k_id k = cid) (edge_correlations st) = Some k" for k
    using rows that by (auto simp: rows_shape_def list_all_iff row_ok_def edge_cfg_def find_Some_iff)
  show ?thesis
  proof (cases "find (\<lambda>k. k_id k = cid) (edge_correlations st)")
    case None
    then show ?thesis using n
      by (cases kind) (simp_all add: edge_advance_correlation_def spec_advance_def Let_def edge_correlation_check_def)
  next
    case (Some k)
    show ?thesis using n r [OF Some] unique_pending [OF d]
      by (cases kind) (auto simp: edge_advance_correlation_def spec_advance_def Let_def Some touch_def
          pending_id_def [abs_def] edge_correlation_check_def edge_cfg_def)
  qed
qed

lemma edge_reserve_refines:
  assumes ok: "edge_ok st"
  shows "map_sum id (map_prod id edge_abs) (edge_reserve cid purpose kind now st) = spec_reserve edge_cfg cid purpose kind now (edge_abs st)"
proof -
  let ?n = "edge_counter EdgeToCore st + 1"
  have n: "1 \<le> ?n" and rows: "rows_shape edge_cfg (edge_correlations st)" using edge_okD(1) [OF ok, of EdgeToCore] edge_okD(3) [OF ok] by simp_all
  show ?thesis
  proof (cases "?n \<le> SEQUENCE_MAX")
    case True
    have rows1: "rows_shape edge_cfg (edge_correlations (put_sequence EdgeToCore ?n st))" using rows by (simp add: put_sequence_keeps)
    have c: "edge_reserve cid purpose kind now st = bindE (edge_advance_correlation cid purpose kind EdgeToCore ?n now (put_sequence EdgeToCore ?n st)) (\<lambda>st2. Inr (?n, st2))"
      using n True by (simp add: edge_reserve_def edge_last_eq [OF ok] Let_def edge_store_eq require_sequence_bounds_def require_def)
    show ?thesis unfolding c edge_advance_refines [OF rows1 n True]
      using True by (cases "spec_advance edge_cfg cid purpose kind EdgeToCore ?n now (edge_correlations st)")
        (simp_all add: spec_reserve_def Let_def edge_abs_def edge_cfg_def put_sequence_keeps edge_counter_rows)
  next
    case False
    then show ?thesis by (simp add: edge_reserve_def edge_last_eq [OF ok] Let_def require_sequence_bounds_def require_def spec_reserve_def edge_abs_def)
  qed
qed

lemma edge_accept_refines:
  assumes ok: "edge_ok st" and n: "1 \<le> n"
  shows "map_sum id edge_abs (edge_accept n cid purpose kind now st) = spec_accept edge_cfg n cid purpose kind now (edge_abs st)"
proof (cases "n = edge_counter CoreToEdge st + 1 \<and> n \<le> SEQUENCE_MAX")
  case True
  have rows1: "rows_shape edge_cfg (edge_correlations (put_sequence CoreToEdge n st))" using edge_okD(3) [OF ok] by (simp add: put_sequence_keeps)
  have c: "edge_accept n cid purpose kind now st = edge_advance_correlation cid purpose kind CoreToEdge n now (put_sequence CoreToEdge n st)"
    using n True by (simp add: edge_accept_def edge_last_eq [OF ok] edge_store_eq del: One_nat_def)
  show ?thesis unfolding c edge_advance_refines [OF rows1 n conjunct2 [OF True]]
    using True by (cases "spec_advance edge_cfg cid purpose kind CoreToEdge n now (edge_correlations st)")
      (simp_all add: spec_accept_def edge_abs_def edge_cfg_def put_sequence_keeps edge_counter_rows)
next
  case False
  then show ?thesis by (auto simp: edge_accept_def edge_last_eq [OF ok] edge_store_eq spec_accept_def edge_abs_def edge_cfg_def)
qed

lemma edge_terminal_refines:
  assumes ok: "edge_ok st"
  shows "map_sum id edge_abs (edge_terminal cid state now st) = spec_terminal cid state now (edge_abs st)"
  using unique_pending(1) [of "edge_correlations st" cid] edge_okD(3) [OF ok]
  by (simp add: edge_terminal_def spec_terminal_def edge_abs_def edge_counter_rows touch_def pending_id_def [abs_def] rows_shape_def)

lemma edge_prune_abs: "edge_abs (edge_prune st) = (edge_abs st)\<lparr>ep_rows := spec_prune (ep_rows (edge_abs st))\<rparr>"
  by (simp add: edge_prune_def edge_abs_def edge_counter_rows spec_prune_def)

lemma edge_transaction_refines:
  assumes "map_sum id (map_prod id edge_abs) (f st) = g"
  shows "map_prod id edge_abs (edge_transaction f st)
    = (case g of Inl e \<Rightarrow> (Inl e, edge_abs st) | Inr (x, ep') \<Rightarrow> (Inr x, ep'\<lparr>ep_rows := spec_prune (ep_rows ep')\<rparr>))"
  unfolding assms [symmetric] by (cases "f st") (auto simp: edge_transaction_def edge_prune_abs split: prod.split)

lemma bind_result:
  "map_sum id edge_abs c = a \<Longrightarrow> map_sum id (map_prod id edge_abs) (bindE c (\<lambda>s'. Inr (Done, s'))) = bindE a (\<lambda>ep'. Inr (Done, ep'))"
  "map_sum id (map_prod id edge_abs) d = b \<Longrightarrow>
     map_sum id (map_prod id edge_abs) (bindE d (\<lambda>(n, s'). Inr (Sequenced n, s'))) = bindE b (\<lambda>(n, ep'). Inr (Sequenced n, ep'))"
proof -
  show "map_sum id edge_abs c = a \<Longrightarrow> map_sum id (map_prod id edge_abs) (bindE c (\<lambda>s'. Inr (Done, s'))) = bindE a (\<lambda>ep'. Inr (Done, ep'))"
    by (cases c) auto
  show "map_sum id (map_prod id edge_abs) d = b \<Longrightarrow>
     map_sum id (map_prod id edge_abs) (bindE d (\<lambda>(n, s'). Inr (Sequenced n, s'))) = bindE b (\<lambda>(n, ep'). Inr (Sequenced n, ep'))"
    by (cases d) auto
qed

lemma edge_pending_eq:
  "edge_pending_request cid purpose st =
     (if list_ex (\<lambda>k. pending_id cid k \<and> k_purpose k = purpose \<and> k_direction k = x_own edge_cfg) (ep_rows (edge_abs st)) then Inr () else Inl not_pending)"
proof -
  have "(\<lambda>k. pending_id cid k \<and> k_purpose k = purpose \<and> k_direction k = EdgeToCore)
      = (\<lambda>k. k_id k = cid \<and> k_purpose k = purpose \<and> k_direction k = EdgeToCore \<and> k_state k = Pending)"
    by (auto simp: pending_id_def)
  then show ?thesis by (simp add: edge_pending_request_def require_def edge_abs_def edge_cfg_def)
qed

lemma edge_step_simulates:
  assumes ok: "edge_ok st"
  shows "map_prod id edge_abs (edge_step op st) = spec_step edge_cfg op (edge_abs st)"
proof (cases op)
  case (ReserveOutbound cid purpose kind now)
  note r = edge_transaction_refines [where st = st and f = "\<lambda>s. bindE (edge_reserve cid purpose kind now s) (\<lambda>(n, s'). Inr (Sequenced n, s'))",
      OF bind_result(2) [OF edge_reserve_refines [OF ok]]]
  show ?thesis unfolding ReserveOutbound edge_step_def spec_step_def spec_body_def
    by (cases "require_purpose purpose") (simp_all add: r)
next
  case (AcceptInbound n cid purpose kind now)
  have n: "1 \<le> n" if "require_sequence_number n = Inr u" for u
    using that by (auto simp: require_sequence_number_def bindE_eq_Inr require_def split: if_splits)
  have r: "require_sequence_number n = Inr u \<Longrightarrow> ?thesis" for u
    using edge_transaction_refines [where st = st and f = "\<lambda>s. bindE (edge_accept n cid purpose kind now s) (\<lambda>s'. Inr (Done, s'))",
        OF bind_result(1) [OF edge_accept_refines [OF ok n]]]
    by (cases "require_purpose purpose") (simp_all add: AcceptInbound edge_step_def spec_step_def spec_body_def)
  then show ?thesis
    by (cases "require_sequence_number n") (simp_all add: AcceptInbound edge_step_def spec_step_def spec_body_def)
next
  case (AcceptResponse cid purpose now)
  have r: "map_sum id (map_prod id edge_abs) (bindE (edge_pending_request cid purpose st) (\<lambda>_. Inr (Done, st)))
      = (if list_ex (\<lambda>k. pending_id cid k \<and> k_purpose k = purpose \<and> k_direction k = x_own edge_cfg) (ep_rows (edge_abs st))
         then Inr (Done, edge_abs st) else Inl not_pending)" by (simp add: edge_pending_eq)
  show ?thesis
    using edge_transaction_refines [where st = st and f = "\<lambda>s. bindE (edge_pending_request cid purpose s) (\<lambda>_. Inr (Done, s))", OF r]
    by (cases "require_purpose purpose") (simp_all add: AcceptResponse edge_step_def spec_step_def spec_body_def)
next
  case (CompleteCorrelation cid now)
  show ?thesis using edge_transaction_refines [where st = st and f = "\<lambda>s. bindE (edge_terminal cid Completed now s) (\<lambda>s'. Inr (Done, s'))",
        OF bind_result(1) [OF edge_terminal_refines [OF ok]]]
    by (simp add: CompleteCorrelation edge_step_def spec_step_def spec_body_def)
next
  case (AbandonCorrelation cid reason now)
  show ?thesis using edge_transaction_refines [where st = st and f = "\<lambda>s. bindE (edge_terminal cid Abandoned now s) (\<lambda>s'. Inr (Done, s'))",
        OF bind_result(1) [OF edge_terminal_refines [OF ok]]]
    by (cases "require_reason reason") (simp_all add: AbandonCorrelation edge_step_def spec_step_def spec_body_def)
next
  case (AbandonConnection reason now)
  have a: "edge_abs (edge_abandon now st) = (edge_abs st)\<lparr>ep_rows := touch (\<lambda>k. k_state k = Pending) (\<lambda>k. k\<lparr>k_state := Abandoned, k_updated := now\<rparr>) (ep_rows (edge_abs st))\<rparr>"
    by (simp add: edge_abandon_def edge_abs_def edge_counter_rows touch_def)
  show ?thesis using edge_transaction_refines [where st = st and f = "\<lambda>s. Inr (Done, edge_abandon now s)", OF refl]
    by (cases "require_reason reason") (simp_all add: AbandonConnection edge_step_def spec_step_def spec_body_def a)
qed

lemma edge_step_error: "edge_step op st = (Inl e, st') \<Longrightarrow> st' = st"
  by (cases op) (auto simp: edge_step_def edge_transaction_def split: sum.splits)

interpretation edge_duplex: duplex_endpoint edge_step edge_ok "edge_counter EdgeToCore" "edge_counter CoreToEdge"
proof
  fix s op r s' assume ok: "edge_ok s" and run: "edge_step op s = (r, s')"
  have sim: "spec_step edge_cfg op (edge_abs s) = (r, edge_abs s')" using edge_step_simulates [OF ok, of op] run by simp
  have abs: "ep_sent (edge_abs x) = edge_counter EdgeToCore x" "ep_received (edge_abs x) = edge_counter CoreToEdge x" for x by (simp_all add: edge_abs_def)
  show "edge_ok s'" using spec_step_ok [of edge_cfg "edge_abs s" op] ok sim by (simp add: edge_ok_def)
  show "case sent_number (op, r) of None \<Rightarrow> edge_counter EdgeToCore s' = edge_counter EdgeToCore s
      | Some n \<Rightarrow> n = edge_counter EdgeToCore s + 1 \<and> edge_counter EdgeToCore s' = n" using spec_step_sent [OF sim] by (simp add: abs split: option.splits)
  show "case accepted_number (op, r) of None \<Rightarrow> edge_counter CoreToEdge s' = edge_counter CoreToEdge s
      | Some n \<Rightarrow> n = edge_counter CoreToEdge s + 1 \<and> edge_counter CoreToEdge s' = n" using spec_step_received [OF sim] by (simp add: abs split: option.splits)
qed (rule edge_step_error)

end
