(* ===== verification/Duplex_Channel.thy ===== *)
theory Duplex_Channel
  imports Duplex_Core Duplex_Edge "HOL-Library.Sublist"
begin

text \<open>
  The control channel between the core and one edge device: the two stores as they run, with every frame a side reserved and every
  frame a side accepted recorded. The link between them may lose, repeat, delay and reorder frames; it delivers only frames that
  the other side reserved, which is what the signed envelopes provide. The properties of the duplex stores are at the end.
\<close>

type_synonym control_frame = "int \<times> uuid \<times> string \<times> control_frame_kind"

fun sent_frames :: "duplex_op \<times> (duplex_error + duplex_result) \<Rightarrow> control_frame list" where
  "sent_frames (ReserveOutbound cid purpose kind _, Inr (Sequenced n)) = [(n, cid, purpose, kind)]"
| "sent_frames _ = []"

fun accepted_frames :: "duplex_op \<times> (duplex_error + duplex_result) \<Rightarrow> control_frame list" where
  "accepted_frames (AcceptInbound n cid purpose kind _, Inr _) = [(n, cid, purpose, kind)]"
| "accepted_frames _ = []"

fun deliverable :: "duplex_op \<Rightarrow> control_frame list \<Rightarrow> bool" where
  "deliverable (AcceptInbound n cid purpose kind _) frames = ((n, cid, purpose, kind) \<in> set frames)"
| "deliverable _ _ = True"

record channel =
  ch_core :: core_duplex
  ch_edge :: edge_duplex
  core_sent :: "control_frame list"
  core_accepted :: "control_frame list"
  edge_sent :: "control_frame list"
  edge_accepted :: "control_frame list"

inductive channel_step :: "uuid \<Rightarrow> channel \<Rightarrow> channel \<Rightarrow> bool" for dev where
  core_op: "deliverable op (edge_sent c) \<Longrightarrow> core_step dev op (ch_core c) = (r, s') \<Longrightarrow>
    channel_step dev c (c\<lparr>ch_core := s', core_sent := core_sent c @ sent_frames (op, r), core_accepted := core_accepted c @ accepted_frames (op, r)\<rparr>)"
| edge_op: "deliverable op (core_sent c) \<Longrightarrow> edge_step op (ch_edge c) = (r, s') \<Longrightarrow>
    channel_step dev c (c\<lparr>ch_edge := s', edge_sent := edge_sent c @ sent_frames (op, r), edge_accepted := edge_accepted c @ accepted_frames (op, r)\<rparr>)"

definition fresh_channel :: "uuid \<Rightarrow> channel" where
  "fresh_channel dev = \<lparr>ch_core = \<lparr>devices = [\<lparr>dv_id = dev, dv_kind = ''reachy'', dv_revoked = None, dv_last = 0\<rparr>], tx_sequences = [], core_correlations = []\<rparr>,
     ch_edge = \<lparr>edge_sequences = [], edge_correlations = []\<rparr>, core_sent = [], core_accepted = [], edge_sent = [], edge_accepted = []\<rparr>"

inductive channel_reach :: "uuid \<Rightarrow> channel \<Rightarrow> bool" for dev where
  fresh: "channel_reach dev (fresh_channel dev)"
| step: "channel_reach dev c \<Longrightarrow> channel_step dev c c' \<Longrightarrow> channel_reach dev c'"

inductive_cases channel_stepE: "channel_step dev c c'"

subsection \<open>One direction\<close>

definition in_order :: "control_frame list \<Rightarrow> control_frame list \<Rightarrow> int \<Rightarrow> int \<Rightarrow> bool" where
  "in_order sent accepted s r \<longleftrightarrow> map fst sent = [1..s] \<and> 0 \<le> s \<and> 0 \<le> r \<and> r \<le> s \<and> accepted = take (nat r) sent"

lemma in_order_length: "in_order sent accepted s r \<Longrightarrow> length sent = nat s"
  by (metis in_order_def length_map length_upto add_diff_cancel_right' diff_add_cancel)

lemma in_order_send: "in_order sent accepted s r \<Longrightarrow> in_order (sent @ [(s + 1, x)]) accepted (s + 1) r"
  using in_order_length [of sent accepted s r] by (auto simp: in_order_def upto_rec2)

lemma in_order_accept:
  assumes o: "in_order sent accepted s r" and f: "(r + 1, x) \<in> set sent"
  shows "in_order sent (accepted @ [(r + 1, x)]) s (r + 1)"
proof -
  obtain i where i: "i < length sent" "sent ! i = (r + 1, x)" using f by (auto simp: in_set_conv_nth)
  have "map fst sent ! i = 1 + int i" using o i(1) in_order_length [OF o] by (simp add: in_order_def del: nth_map)
  then have "int i = r" using i by simp
  then have "i = nat r" "nat (r + 1) = Suc (nat r)" "r + 1 \<le> s" using i(1) in_order_length [OF o] by auto
  then show ?thesis using o i by (simp add: in_order_def take_Suc_conv_app_nth)
qed

context duplex_endpoint
begin

lemma step_in_order:
  assumes ok: "ok s" and run: "step op s = (r, s')" and out: "in_order S A (sent s) q" and inb: "in_order B C p (received s)" and del: "deliverable op B"
  shows "in_order (S @ sent_frames (op, r)) A (sent s') q" "in_order B (C @ accepted_frames (op, r)) p (received s')"
proof -
  note laws = step_sent [OF ok run] step_received [OF ok run]
  show "in_order (S @ sent_frames (op, r)) A (sent s') q"
    using laws(1) out in_order_send [OF out] by (cases "(op, r)" rule: sent_frames.cases) simp_all
  show "in_order B (C @ accepted_frames (op, r)) p (received s')"
    using laws(2) inb in_order_accept [OF inb] del by (cases "(op, r)" rule: accepted_frames.cases) auto
qed

end

definition channel_inv :: "uuid \<Rightarrow> channel \<Rightarrow> bool" where
  "channel_inv dev c \<longleftrightarrow> core_ok (ch_core c) \<and> edge_ok (ch_edge c)
     \<and> in_order (core_sent c) (edge_accepted c) (ep_sent (core_abs dev (ch_core c))) (edge_counter CoreToEdge (ch_edge c))
     \<and> in_order (edge_sent c) (core_accepted c) (edge_counter EdgeToCore (ch_edge c)) (ep_received (core_abs dev (ch_core c)))"

lemma fresh_inv: "channel_inv dev (fresh_channel dev)"
  by (simp add: channel_inv_def fresh_channel_def core_ok_def edge_ok_def endpoint_ok_def core_abs_def edge_abs_def edge_counter_def in_order_def
      core_cfg_def edge_cfg_def rows_shape_def rows_of_def MAX_BOUNDED_COUNT_def SEQUENCE_MAX_def current_device_def)

lemma step_inv: "channel_step dev c c' \<Longrightarrow> channel_inv dev c \<Longrightarrow> channel_inv dev c'"
proof (erule channel_stepE)
  fix op r s' assume inv: "channel_inv dev c" and del: "deliverable op (edge_sent c)" and run: "core_step dev op (ch_core c) = (r, s')"
    and c': "c' = c\<lparr>ch_core := s', core_sent := core_sent c @ sent_frames (op, r), core_accepted := core_accepted c @ accepted_frames (op, r)\<rparr>"
  have ok: "core_ok (ch_core c)" and o: "in_order (core_sent c) (edge_accepted c) (ep_sent (core_abs dev (ch_core c))) (edge_counter CoreToEdge (ch_edge c))"
    "in_order (edge_sent c) (core_accepted c) (edge_counter EdgeToCore (ch_edge c)) (ep_received (core_abs dev (ch_core c)))"
    using inv by (simp_all add: channel_inv_def)
  show ?thesis using inv core_duplex.step_in_order [OF ok run o del] core_duplex.step_ok [OF ok run] unfolding c' channel_inv_def by simp
next
  fix op r s' assume inv: "channel_inv dev c" and del: "deliverable op (core_sent c)" and run: "edge_step op (ch_edge c) = (r, s')"
    and c': "c' = c\<lparr>ch_edge := s', edge_sent := edge_sent c @ sent_frames (op, r), edge_accepted := edge_accepted c @ accepted_frames (op, r)\<rparr>"
  have ok: "edge_ok (ch_edge c)" and o: "in_order (core_sent c) (edge_accepted c) (ep_sent (core_abs dev (ch_core c))) (edge_counter CoreToEdge (ch_edge c))"
    "in_order (edge_sent c) (core_accepted c) (edge_counter EdgeToCore (ch_edge c)) (ep_received (core_abs dev (ch_core c)))"
    using inv by (simp_all add: channel_inv_def)
  show ?thesis using inv edge_duplex.step_in_order [OF ok run o(2,1) del] edge_duplex.step_ok [OF ok run] unfolding c' channel_inv_def by simp
qed

lemma channel_reach_inv: "channel_reach dev c \<Longrightarrow> channel_inv dev c"
  by (induction rule: channel_reach.induct) (use fresh_inv step_inv in blast)+

lemma rows_split: "length rows = length (filter (\<lambda>k. k_state k = Pending) rows) + length (filter is_terminal rows)"
proof (induction rows)
  case (Cons k rows)
  then show ?case by (cases "k_state k") (simp_all add: is_terminal_def)
qed simp

lemma endpoint_bounded:
  assumes "endpoint_ok cfg ep"
  shows "length (ep_rows ep) \<le> PENDING_CORRELATION_LIMIT + TERMINAL_CORRELATION_RETENTION_LIMIT"
    "distinct (map k_id (ep_rows ep))" "list_all (row_ok cfg) (ep_rows ep)"
  using assms rows_split [of "ep_rows ep"] by (simp_all add: endpoint_ok_def rows_shape_def)

subsection \<open>Concrete runs\<close>

fun play :: "uuid \<Rightarrow> (bool \<times> duplex_op) list \<Rightarrow> channel \<Rightarrow> channel" where
  "play dev [] c = c"
| "play dev ((True, op) # rest) c =
     (if deliverable op (edge_sent c) then
        (case core_step dev op (ch_core c) of (r, s') \<Rightarrow>
           play dev rest (c\<lparr>ch_core := s', core_sent := core_sent c @ sent_frames (op, r), core_accepted := core_accepted c @ accepted_frames (op, r)\<rparr>))
      else play dev rest c)"
| "play dev ((False, op) # rest) c =
     (if deliverable op (core_sent c) then
        (case edge_step op (ch_edge c) of (r, s') \<Rightarrow>
           play dev rest (c\<lparr>ch_edge := s', edge_sent := edge_sent c @ sent_frames (op, r), edge_accepted := edge_accepted c @ accepted_frames (op, r)\<rparr>))
      else play dev rest c)"

lemma play_reach: "channel_reach dev c \<Longrightarrow> channel_reach dev (play dev script c)"
proof (induction dev script c rule: play.induct)
  case (2 dev op rest c)
  obtain r s' where run: "core_step dev op (ch_core c) = (r, s')" by (cases "core_step dev op (ch_core c)")
  show ?case using 2 run channel_reach.step [OF 2(3) channel_step.core_op [OF _ run]] by simp
next
  case (3 dev op rest c)
  obtain r s' where run: "edge_step op (ch_edge c) = (r, s')" by (cases "edge_step op (ch_edge c)")
  show ?case using 3 run channel_reach.step [OF 3(3) channel_step.edge_op [OF _ run]] by simp
qed simp

definition ex_script :: "(bool \<times> duplex_op) list" where
  "ex_script = [(True, ReserveOutbound 7 ''reachy.command.v1'' RequestFrame 10), (True, ReserveOutbound 8 ''reachy.health.v1'' RequestFrame 11),
     (False, AcceptInbound 2 8 ''reachy.health.v1'' RequestFrame 12), (False, AcceptInbound 1 7 ''reachy.command.v1'' RequestFrame 12),
     (False, AcceptInbound 1 7 ''reachy.command.v1'' RequestFrame 13), (False, ReserveOutbound 7 ''reachy.command.v1'' ResponseFrame 14),
     (True, AcceptInbound 1 7 ''reachy.command.v1'' ResponseFrame 15), (True, CompleteCorrelation 7 16)]"

definition ex_channel :: channel where "ex_channel = play 1 ex_script (fresh_channel 1)"

lemma ex_channel_reach: "channel_reach 1 ex_channel"
  unfolding ex_channel_def by (rule play_reach) (rule channel_reach.fresh)

lemma ex_channel_logs: "map fst (core_sent ex_channel) = [1, 2]" "map fst (edge_accepted ex_channel) = [1]" "map fst (core_accepted ex_channel) = [1]"
  by code_simp+

subsection \<open>Properties\<close>

text \<open>C4: frames are delivered in order and exactly once in both directions: whatever the link repeats, delays, reorders or loses,
  what a side accepted is a prefix of what the other side reserved, and reserved numbers are consecutive from one.\<close>

theorem delivery_in_order:
  assumes "channel_reach dev c"
  shows "prefix (edge_accepted c) (core_sent c) \<and> prefix (core_accepted c) (edge_sent c)
    \<and> map fst (core_sent c) = [1..int (length (core_sent c))] \<and> map fst (edge_sent c) = [1..int (length (edge_sent c))]"
proof -
  have o: "in_order (core_sent c) (edge_accepted c) (ep_sent (core_abs dev (ch_core c))) (edge_counter CoreToEdge (ch_edge c))"
    "in_order (edge_sent c) (core_accepted c) (edge_counter EdgeToCore (ch_edge c)) (ep_received (core_abs dev (ch_core c)))"
    using channel_reach_inv [OF assms] by (simp_all add: channel_inv_def)
  show ?thesis using o in_order_length [OF o(1)] in_order_length [OF o(2)] by (auto simp: in_order_def take_is_prefix)
qed

theorem delivery_in_order_witness:
  "prefix (edge_accepted ex_channel) (core_sent ex_channel) \<and> map fst (core_sent ex_channel) = [1, 2] \<and> map fst (edge_accepted ex_channel) = [1]
    \<and> prefix (core_accepted ex_channel) (edge_sent ex_channel) \<and> map fst (core_accepted ex_channel) = [1]"
  using delivery_in_order [OF ex_channel_reach] ex_channel_logs by simp

text \<open>C7: every operation of the core store on a device is the specification's operation on that device's view of the tables,
  result and error included, and leaves the view of every other device unchanged.\<close>

theorem core_refines_spec:
  assumes "core_ok st"
  shows "map_prod id (core_abs dev) (core_step dev op st) = spec_step core_cfg op (core_abs dev st)
    \<and> (\<forall>dev'. dev' \<noteq> dev \<longrightarrow> core_abs dev' (snd (core_step dev op st)) = core_abs dev' st)"
  using core_step_simulates [OF assms, of dev op] by (simp add: simulates_def)

lemma ex_channel_ok: "core_ok (ch_core ex_channel)" "edge_ok (ch_edge ex_channel)"
  using channel_reach_inv [OF ex_channel_reach] by (simp_all add: channel_inv_def)

theorem core_refines_spec_witness:
  "core_ok (ch_core ex_channel) \<and> map_prod id (core_abs 1) (core_step 1 (AbandonCorrelation 8 ''late'' 17) (ch_core ex_channel))
    = spec_step core_cfg (AbandonCorrelation 8 ''late'' 17) (core_abs 1 (ch_core ex_channel))"
  using core_refines_spec [OF ex_channel_ok(1)] ex_channel_ok(1) by blast

text \<open>C8: every operation of the edge store is the specification's operation on its view of the tables, result and error included.\<close>

theorem edge_refines_spec:
  assumes "edge_ok st"
  shows "map_prod id edge_abs (edge_step op st) = spec_step edge_cfg op (edge_abs st)"
  by (rule edge_step_simulates [OF assms])

theorem edge_refines_spec_witness:
  "edge_ok (ch_edge ex_channel) \<and> map_prod id edge_abs (edge_step (ReserveOutbound 9 ''reachy.event.v1'' EventFrame 17) (ch_edge ex_channel))
    = spec_step edge_cfg (ReserveOutbound 9 ''reachy.event.v1'' EventFrame 17) (edge_abs (ch_edge ex_channel))"
  using edge_refines_spec [OF ex_channel_ok(2)] ex_channel_ok(2) by blast

text \<open>C34: in every reachable channel both correlation tables are well formed and bounded: at most the pending limit plus the
  retention limit of rows, one row per correlation, and sequence numbers in range with the first not above the last.\<close>

theorem correlation_tables_bounded:
  assumes "channel_reach dev c"
  shows "length (edge_correlations (ch_edge c)) \<le> 4352 \<and> distinct (map k_id (edge_correlations (ch_edge c)))
    \<and> list_all edge_correlation_check (edge_correlations (ch_edge c))
    \<and> length (rows_of dev (core_correlations (ch_core c))) \<le> 4352 \<and> distinct (map k_id (rows_of dev (core_correlations (ch_core c))))
    \<and> list_all core_correlation_check (rows_of dev (core_correlations (ch_core c)))"
proof -
  have ok: "endpoint_ok edge_cfg (edge_abs (ch_edge c))" "endpoint_ok core_cfg (core_abs dev (ch_core c))"
    using channel_reach_inv [OF assms] by (auto simp: channel_inv_def core_ok_def edge_ok_def)
  show ?thesis using endpoint_bounded [OF ok(1)] endpoint_bounded [OF ok(2)]
    by (auto simp: edge_abs_def core_abs_def PENDING_CORRELATION_LIMIT_def TERMINAL_CORRELATION_RETENTION_LIMIT_def list_all_iff row_ok_def
        edge_cfg_def core_cfg_def edge_correlation_check_def core_correlation_check_def)
qed

theorem correlation_tables_bounded_witness:
  "length (rows_of 1 (core_correlations (ch_core ex_channel))) \<le> 4352 \<and> list_all edge_correlation_check (edge_correlations (ch_edge ex_channel))"
  using correlation_tables_bounded [OF ex_channel_reach] by simp

text \<open>C35: a response is refused when the responder's own counter is still below the number the request was sent under, although
  it answers a pending request of the right purpose with the next expected number. The core reports it as a
  replay and changes nothing.\<close>

theorem early_response_refused:
  assumes "core_ok st" "list_ex (current_device dev) (devices st)" "n = ep_received (core_abs dev st) + 1" "purpose \<in> set FRAME_PURPOSES"
    "find (\<lambda>k. k_id k = cid) (rows_of dev (core_correlations st)) = Some k" "k_purpose k = purpose" "k_direction k = CoreToEdge" "k_state k = Pending"
    "n < k_first k"
  shows "core_step dev (AcceptInbound n cid purpose ResponseFrame now) st = (Inl replayed, st)"
proof -
  have ep: "endpoint_ok core_cfg (core_abs dev st)" using assms(1) by (simp add: core_ok_def)
  have "k \<in> set (ep_rows (core_abs dev st))" using assms(5) by (auto simp: find_Some_iff core_abs_def)
  then have "row_ok core_cfg k" using endpoint_bounded(3) [OF ep] by (simp add: list_all_iff)
  then have "1 \<le> n" and n: "n \<le> MAX_BOUNDED_COUNT" using assms(3,9) ep by (simp_all add: endpoint_ok_def row_ok_def core_cfg_def)
  then have r: "require_sequence_number n = Inr ()"
    by (simp add: require_sequence_number_def require_sequence_bounds_def require_def SEQUENCE_MAX_def MAX_BOUNDED_COUNT_def)
  have "spec_step core_cfg (AcceptInbound n cid purpose ResponseFrame now) (core_abs dev st) = (Inl replayed, core_abs dev st)"
    using assms n r by (simp add: spec_step_def spec_body_def spec_accept_def spec_advance_def require_purpose_def require_def core_cfg_def core_abs_def)
  then show ?thesis
    using core_step_simulates [OF assms(1), of dev "AcceptInbound n cid purpose ResponseFrame now"] core_step_error
    by (cases "core_step dev (AcceptInbound n cid purpose ResponseFrame now) st") (auto simp: simulates_def)
qed

definition ex_early :: core_duplex where
  "ex_early = ch_core (play 1 [(True, ReserveOutbound 7 ''reachy.command.v1'' RequestFrame 10), (True, ReserveOutbound 8 ''reachy.health.v1'' RequestFrame 11)] (fresh_channel 1))"

lemma ex_early_ok: "core_ok ex_early"
  unfolding ex_early_def using channel_reach_inv [OF play_reach [OF channel_reach.fresh]] unfolding channel_inv_def by blast

theorem early_response_refused_witness:
  "core_step 1 (AcceptInbound 1 8 ''reachy.health.v1'' ResponseFrame 12) ex_early = (Inl replayed, ex_early)"
proof (rule early_response_refused [OF ex_early_ok])
  show "find (\<lambda>k. k_id k = 8) (rows_of 1 (core_correlations ex_early)) = Some \<lparr>k_id = 8, k_purpose = ''reachy.health.v1'', k_direction = CoreToEdge,
      k_state = Pending, k_first = 2, k_last = 2, k_created = 11, k_updated = 11\<rparr>" by code_simp
  show "list_ex (current_device 1) (devices ex_early)" "1 = ep_received (core_abs 1 ex_early) + 1" by code_simp+
qed (simp_all add: FRAME_PURPOSES_def)

end
