(* ===== verification/Turn_State.thy ===== *)
theory Turn_State
  imports Prelude
begin















subsection \<open>Properties\<close>







end
