(* ===== verification/Audio_Capture.thy ===== *)
theory Audio_Capture
  imports Prelude "HOL-Library.Sublist"
begin

text \<open>
  Audio capture on the edge: the pre-roll and turn buffer (\<^verbatim>\<open>audio/buffer.py\<close>) and the voice activity detector
  (\<^verbatim>\<open>audio/vad.py\<close>). The buffer is shown to implement two bounded byte strings, the detector a rule on the
  trailing runs of voiced and silent frames.
\<close>

subsection \<open>The audio ring\<close>

definition MAX_TURN_BYTES :: int where "MAX_TURN_BYTES = 8388608"

datatype ring_error = RingType string | RingValue string | RingRuntime string | RingIndex

type_synonym event_loop = nat

record audio_ring =
  r_active :: bool
  r_owner :: "event_loop option"
  r_post :: bytes
  r_pre_roll :: int
  r_pre :: "bytes list"
  r_pre_size :: int
  r_limit :: int

definition audio_ring_init :: "event_loop option \<Rightarrow> int \<Rightarrow> int \<Rightarrow> int \<Rightarrow> ring_error + audio_ring" where
  "audio_ring_init current bytes_per_second pre_roll_seconds turn_limit =
     (if bytes_per_second \<le> 0 \<or> bytes_per_second > MAX_TURN_BYTES then Inl (RingValue ''audio-ring-byte-rate'')
      else if pre_roll_seconds \<notin> {3, 4, 5} then Inl (RingValue ''audio-ring-pre-roll'')
      else if \<not> (1 \<le> turn_limit \<and> turn_limit \<le> MAX_TURN_BYTES) then Inl (RingValue ''audio-ring-turn-limit'')
      else if bytes_per_second * pre_roll_seconds > MAX_TURN_BYTES then Inl (RingValue ''audio-ring-pre-roll'')
      else Inr \<lparr>r_active = False, r_owner = current, r_post = [], r_pre_roll = bytes_per_second * pre_roll_seconds,
                r_pre = [], r_pre_size = 0, r_limit = turn_limit\<rparr>)"

text \<open>The ring is bound to the first event loop it is used from.\<close>

definition check_owner :: "event_loop option \<Rightarrow> audio_ring \<Rightarrow> ring_error + audio_ring" where
  "check_owner current r =
     (case (current, r_owner r) of
        (None, Some _) \<Rightarrow> Inl (RingRuntime ''audio-ring-event-loop-owner'')
      | (None, None) \<Rightarrow> Inr r
      | (Some l, None) \<Rightarrow> Inr (r\<lparr>r_owner := Some l\<rparr>)
      | (Some l, Some l') \<Rightarrow> if l' \<noteq> l then Inl (RingRuntime ''audio-ring-event-loop-owner'') else Inr r)"

definition require_audio_bytes :: "bytes \<Rightarrow> string \<Rightarrow> ring_error + unit" where
  "require_audio_bytes b label = require (b \<noteq> []) (RingValue (label @ '' must not be empty''))"

definition pre_wake_limit :: "audio_ring \<Rightarrow> int" where
  "pre_wake_limit r =
     (let remaining = r_limit r - int (length (r_post r)) in if remaining \<le> 0 then 0 else min (r_pre_roll r) remaining)"

text \<open>The trim loop: drop whole chunks while they fit into the excess, then the head of the next one.\<close>

fun trim_loop :: "int \<Rightarrow> bytes list \<Rightarrow> int \<Rightarrow> (ring_error + unit) \<times> bytes list \<times> int" where
  "trim_loop excess [] held = (if excess > 0 then Inl RingIndex else Inr (), [], held)"
| "trim_loop excess (oldest # rest) held =
     (if excess \<le> 0 then (Inr (), oldest # rest, held)
      else if int (length oldest) \<le> excess
      then trim_loop (excess - int (length oldest)) rest (held - int (length oldest))
      else (Inr (), drop (nat excess) oldest # rest, held - excess))"

definition trim_pre_wake :: "audio_ring \<Rightarrow> (ring_error + unit) \<times> audio_ring" where
  "trim_pre_wake r =
     (case trim_loop (r_pre_size r - pre_wake_limit r) (r_pre r) (r_pre_size r) of
        (res, pre, held) \<Rightarrow> (res, r\<lparr>r_pre := pre, r_pre_size := held\<rparr>))"

definition clear_pre_wake :: "audio_ring \<Rightarrow> audio_ring" where
  "clear_pre_wake r = r\<lparr>r_pre := [], r_pre_size := 0\<rparr>"

text \<open>Every method first checks the event loop; the binding it makes stays when the rest of the method raises.\<close>

definition owned :: "event_loop option \<Rightarrow> (audio_ring \<Rightarrow> (ring_error + 'a) \<times> audio_ring) \<Rightarrow> audio_ring \<Rightarrow> (ring_error + 'a) \<times> audio_ring" where
  "owned current f r = (case check_owner current r of Inl e \<Rightarrow> (Inl e, r) | Inr r' \<Rightarrow> f r')"

definition append_pre_wake :: "event_loop option \<Rightarrow> bytes \<Rightarrow> audio_ring \<Rightarrow> (ring_error + unit) \<times> audio_ring" where
  "append_pre_wake current chunk = owned current (\<lambda>r.
     case require_audio_bytes chunk ''pre_wake'' of Inl e \<Rightarrow> (Inl e, r)
     | Inr _ \<Rightarrow>
       let limit = pre_wake_limit r in
       if limit = 0 then (Inr (), clear_pre_wake r)
       else if int (length chunk) \<ge> limit
       then (Inr (), (clear_pre_wake r)\<lparr>r_pre := [drop (length chunk - nat limit) chunk], r_pre_size := limit\<rparr>)
       else trim_pre_wake (r\<lparr>r_pre := r_pre r @ [chunk], r_pre_size := r_pre_size r + int (length chunk)\<rparr>))"

definition begin_turn :: "event_loop option \<Rightarrow> audio_ring \<Rightarrow> (ring_error + unit) \<times> audio_ring" where
  "begin_turn current = owned current (\<lambda>r. trim_pre_wake (r\<lparr>r_post := [], r_active := True\<rparr>))"

definition append_post_wake :: "event_loop option \<Rightarrow> bytes \<Rightarrow> audio_ring \<Rightarrow> (ring_error + unit) \<times> audio_ring" where
  "append_post_wake current chunk = owned current (\<lambda>r.
     case require_audio_bytes chunk ''post_wake'' of Inl e \<Rightarrow> (Inl e, r)
     | Inr _ \<Rightarrow>
       if \<not> r_active r then (Inl (RingRuntime ''audio-ring-turn-not-started''), r)
       else if int (length chunk) > r_limit r - int (length (r_post r)) then (Inl (RingValue ''audio-ring-turn-limit''), r)
       else trim_pre_wake (r\<lparr>r_post := r_post r @ chunk\<rparr>))"

definition snapshot_pre_wake :: "event_loop option \<Rightarrow> audio_ring \<Rightarrow> (ring_error + bytes) \<times> audio_ring" where
  "snapshot_pre_wake current = owned current (\<lambda>r. (Inr (concat (r_pre r)), r))"

definition snapshot_post_wake :: "event_loop option \<Rightarrow> audio_ring \<Rightarrow> (ring_error + bytes) \<times> audio_ring" where
  "snapshot_post_wake current = owned current (\<lambda>r. (Inr (r_post r), r))"

definition snapshot_turn :: "event_loop option \<Rightarrow> audio_ring \<Rightarrow> (ring_error + bytes) \<times> audio_ring" where
  "snapshot_turn current = owned current (\<lambda>r.
     case trim_pre_wake r of (Inl e, r1) \<Rightarrow> (Inl e, r1)
     | (Inr _, r1) \<Rightarrow>
       (case snapshot_pre_wake current r1 of (Inl e, r2) \<Rightarrow> (Inl e, r2)
        | (Inr pre, r2) \<Rightarrow>
          (case snapshot_post_wake current r2 of (Inl e, r3) \<Rightarrow> (Inl e, r3) | (Inr post, r3) \<Rightarrow> (Inr (pre @ post), r3))))"

definition clear_ring :: "event_loop option \<Rightarrow> audio_ring \<Rightarrow> (ring_error + unit) \<times> audio_ring" where
  "clear_ring current = owned current (\<lambda>r. (Inr (), (clear_pre_wake r)\<lparr>r_post := [], r_active := False\<rparr>))"

text \<open>The operations as one type, and a run of them.\<close>

datatype ring_op = AppendPre bytes | BeginTurn | AppendPost bytes | SnapshotTurn | ClearRing

definition ring_step :: "event_loop option \<Rightarrow> ring_op \<Rightarrow> audio_ring \<Rightarrow> (ring_error + bytes) \<times> audio_ring" where
  "ring_step current op r =
     (case op of
        AppendPre chunk \<Rightarrow> apfst (map_sum id (\<lambda>_. [])) (append_pre_wake current chunk r)
      | BeginTurn \<Rightarrow> apfst (map_sum id (\<lambda>_. [])) (begin_turn current r)
      | AppendPost chunk \<Rightarrow> apfst (map_sum id (\<lambda>_. [])) (append_post_wake current chunk r)
      | SnapshotTurn \<Rightarrow> snapshot_turn current r
      | ClearRing \<Rightarrow> apfst (map_sum id (\<lambda>_. [])) (clear_ring current r))"

subsection \<open>The ring as two byte strings\<close>

record ring_spec =
  q_owner :: "event_loop option"
  q_active :: bool
  q_pre :: bytes
  q_post :: bytes

definition newest :: "int \<Rightarrow> bytes \<Rightarrow> bytes" where
  "newest n b = drop (length b - nat n) b"

definition room :: "int \<Rightarrow> int \<Rightarrow> bytes \<Rightarrow> int" where
  "room pre_roll limit post = max 0 (min pre_roll (limit - int (length post)))"

definition spec_op :: "int \<Rightarrow> int \<Rightarrow> ring_op \<Rightarrow> ring_spec \<Rightarrow> (ring_error + bytes) \<times> ring_spec" where
  "spec_op pre_roll limit op q =
     (case op of
        AppendPre chunk \<Rightarrow>
          if chunk = [] then (Inl (RingValue ''pre_wake must not be empty''), q)
          else (Inr [], q\<lparr>q_pre := newest (room pre_roll limit (q_post q)) (q_pre q @ chunk)\<rparr>)
      | BeginTurn \<Rightarrow> (Inr [], q\<lparr>q_active := True, q_post := []\<rparr>)
      | AppendPost chunk \<Rightarrow>
          if chunk = [] then (Inl (RingValue ''post_wake must not be empty''), q)
          else if \<not> q_active q then (Inl (RingRuntime ''audio-ring-turn-not-started''), q)
          else if int (length (q_post q @ chunk)) > limit then (Inl (RingValue ''audio-ring-turn-limit''), q)
          else (Inr [], q\<lparr>q_post := q_post q @ chunk, q_pre := newest (room pre_roll limit (q_post q @ chunk)) (q_pre q)\<rparr>)
      | SnapshotTurn \<Rightarrow> (Inr (q_pre q @ q_post q), q)
      | ClearRing \<Rightarrow> (Inr [], q\<lparr>q_active := False, q_pre := [], q_post := []\<rparr>))"

definition spec_ring_step :: "int \<Rightarrow> int \<Rightarrow> event_loop option \<Rightarrow> ring_op \<Rightarrow> ring_spec \<Rightarrow> (ring_error + bytes) \<times> ring_spec" where
  "spec_ring_step pre_roll limit current op q =
     (if q_owner q \<noteq> None \<and> q_owner q \<noteq> current then (Inl (RingRuntime ''audio-ring-event-loop-owner''), q)
      else spec_op pre_roll limit op (q\<lparr>q_owner := current\<rparr>))"

definition ring_abs :: "audio_ring \<Rightarrow> ring_spec" where
  "ring_abs r = \<lparr>q_owner = r_owner r, q_active = r_active r, q_pre = concat (r_pre r), q_post = r_post r\<rparr>"

definition ring_ok :: "audio_ring \<Rightarrow> bool" where
  "ring_ok r \<longleftrightarrow> r_pre_size r = int (length (concat (r_pre r))) \<and> r_pre_size r \<le> pre_wake_limit r
     \<and> int (length (r_post r)) \<le> r_limit r \<and> 1 \<le> r_limit r \<and> r_limit r \<le> MAX_TURN_BYTES \<and> 0 < r_pre_roll r"

lemma limit_room: "0 < r_pre_roll r \<Longrightarrow> pre_wake_limit r = room (r_pre_roll r) (r_limit r) (r_post r)"
  by (simp add: pre_wake_limit_def room_def Let_def)

lemma newest_all: "int (length b) \<le> n \<Longrightarrow> newest n b = b"
  by (simp add: newest_def)

lemma newest_length: "0 \<le> n \<Longrightarrow> int (length (newest n b)) \<le> n"
  by (simp add: newest_def)

lemma trim_loop_correct:
  "excess \<le> int (length (concat pre)) \<Longrightarrow> held = int (length (concat pre)) \<Longrightarrow>
   \<exists>pre'. trim_loop excess pre held = (Inr (), pre', held - max 0 excess) \<and> concat pre' = drop (nat excess) (concat pre)"
proof (induction excess pre held rule: trim_loop.induct)
  case (2 excess oldest rest held)
  consider "excess \<le> 0" | "excess > 0" "int (length oldest) \<le> excess" | "excess > 0" "int (length oldest) > excess" by linarith
  then show ?case
  proof cases
    case 2
    obtain pre' where "trim_loop (excess - int (length oldest)) rest (held - int (length oldest))
        = (Inr (), pre', held - int (length oldest) - max 0 (excess - int (length oldest)))"
      "concat pre' = drop (nat (excess - int (length oldest))) (concat rest)"
      using "2.IH" 2 "2.prems" by auto
    moreover have "nat (excess - int (length oldest)) = nat excess - length oldest" by (simp add: nat_diff_distrib)
    ultimately show ?thesis using 2 by simp
  qed simp_all
qed simp

definition same_shape :: "audio_ring \<Rightarrow> audio_ring \<Rightarrow> bool" where
  "same_shape r r' \<longleftrightarrow> r_pre_roll r' = r_pre_roll r \<and> r_limit r' = r_limit r"

definition ring_bounds :: "audio_ring \<Rightarrow> bool" where
  "ring_bounds r \<longleftrightarrow> r_pre_size r = int (length (concat (r_pre r))) \<and> int (length (r_post r)) \<le> r_limit r
     \<and> 1 \<le> r_limit r \<and> r_limit r \<le> MAX_TURN_BYTES \<and> 0 < r_pre_roll r"

lemma ring_ok_bounds: "ring_ok r \<longleftrightarrow> ring_bounds r \<and> r_pre_size r \<le> pre_wake_limit r"
  by (auto simp: ring_ok_def ring_bounds_def)

lemma pre_wake_limit_nonneg: "ring_bounds r \<Longrightarrow> 0 \<le> pre_wake_limit r"
  by (simp add: pre_wake_limit_def Let_def ring_bounds_def)

lemma trim_pre_wake_correct:
  assumes b: "ring_bounds r"
  obtains r' where "trim_pre_wake r = (Inr (), r')" "ring_ok r'" "same_shape r r'"
    "ring_abs r' = (ring_abs r)\<lparr>q_pre := newest (pre_wake_limit r) (concat (r_pre r))\<rparr>"
proof -
  let ?x = "r_pre_size r - pre_wake_limit r"
  have held: "r_pre_size r = int (length (concat (r_pre r)))" using b by (simp add: ring_bounds_def)
  obtain pre where pre: "trim_loop ?x (r_pre r) (r_pre_size r) = (Inr (), pre, r_pre_size r - max 0 ?x)" "concat pre = drop (nat ?x) (concat (r_pre r))"
    using trim_loop_correct [of ?x "r_pre r" "r_pre_size r"] pre_wake_limit_nonneg [OF b] held by auto
  define r' where "r' = r\<lparr>r_pre := pre, r_pre_size := r_pre_size r - max 0 ?x\<rparr>"
  have same: "pre_wake_limit r' = pre_wake_limit r" by (simp add: r'_def pre_wake_limit_def)
  have len: "int (length (concat pre)) = r_pre_size r - max 0 ?x" unfolding pre(2) using held pre_wake_limit_nonneg [OF b] by simp
  have cut: "drop (nat ?x) (concat (r_pre r)) = newest (pre_wake_limit r) (concat (r_pre r))"
    using pre_wake_limit_nonneg [OF b] by (simp add: newest_def held nat_diff_distrib')
  show thesis
  proof (rule that)
    show "trim_pre_wake r = (Inr (), r')" by (simp add: trim_pre_wake_def pre(1) r'_def)
    show "ring_ok r'" unfolding ring_ok_bounds same using b len by (simp add: r'_def ring_bounds_def)
    show "same_shape r r'" by (simp add: r'_def same_shape_def)
    show "ring_abs r' = (ring_abs r)\<lparr>q_pre := newest (pre_wake_limit r) (concat (r_pre r))\<rparr>" using pre(2) cut by (simp add: r'_def ring_abs_def)
  qed
qed

text \<open>One operation against the specification, for a ring that already belongs to the running loop.\<close>

definition matches :: "audio_ring \<Rightarrow> (ring_error + bytes) \<times> audio_ring \<Rightarrow> (ring_error + bytes) \<times> ring_spec \<Rightarrow> bool" where
  "matches r c a \<longleftrightarrow> a = (fst c, ring_abs (snd c)) \<and> ring_ok (snd c) \<and> same_shape r (snd c)"

lemma newest_append: "int (length c) \<ge> n \<Longrightarrow> 0 \<le> n \<Longrightarrow> newest n (b @ c) = drop (length c - nat n) c"
  by (simp add: newest_def)

lemma append_pre_matches:
  assumes ok: "ring_ok r" and own: "check_owner current r0 = Inr r"
  shows "matches r (apfst (map_sum id (\<lambda>_. [])) (append_pre_wake current chunk r0)) (spec_op (r_pre_roll r) (r_limit r) (AppendPre chunk) (ring_abs r))"
proof -
  have b: "ring_bounds r" and lim: "pre_wake_limit r = room (r_pre_roll r) (r_limit r) (r_post r)"
    using ok limit_room by (auto simp: ring_ok_bounds ring_bounds_def)
  note nn = pre_wake_limit_nonneg [OF b]
  consider "chunk = []" | "chunk \<noteq> []" "pre_wake_limit r = 0" | "chunk \<noteq> []" "pre_wake_limit r > 0" "int (length chunk) \<ge> pre_wake_limit r"
    | "chunk \<noteq> []" "pre_wake_limit r > 0" "int (length chunk) < pre_wake_limit r" using nn by linarith
  then show ?thesis
  proof cases
    case 1
    then show ?thesis using ok by (simp add: matches_def append_pre_wake_def owned_def own require_audio_bytes_def require_def spec_op_def Let_def same_shape_def)
  next
    case 2
    then show ?thesis using b
      by (simp add: matches_def append_pre_wake_def owned_def own require_audio_bytes_def require_def spec_op_def Let_def same_shape_def clear_pre_wake_def
          ring_abs_def lim [symmetric] newest_def ring_ok_def ring_bounds_def pre_wake_limit_def)
  next
    case 3
    let ?r = "(clear_pre_wake r)\<lparr>r_pre := [drop (length chunk - nat (pre_wake_limit r)) chunk], r_pre_size := pre_wake_limit r\<rparr>"
    have "pre_wake_limit ?r = pre_wake_limit r" by (simp add: pre_wake_limit_def clear_pre_wake_def)
    then have "ring_ok ?r" using b 3 by (simp add: ring_ok_def ring_bounds_def clear_pre_wake_def)
    then show ?thesis using 3 nn
      by (simp add: matches_def append_pre_wake_def owned_def own require_audio_bytes_def require_def spec_op_def Let_def same_shape_def clear_pre_wake_def
          ring_abs_def lim [symmetric] newest_append)
  next
    case 4
    let ?r = "r\<lparr>r_pre := r_pre r @ [chunk], r_pre_size := r_pre_size r + int (length chunk)\<rparr>"
    have "ring_bounds ?r" using b by (simp add: ring_bounds_def)
    then obtain r' where r': "trim_pre_wake ?r = (Inr (), r')" "ring_ok r'" "same_shape ?r r'"
      "ring_abs r' = (ring_abs ?r)\<lparr>q_pre := newest (pre_wake_limit ?r) (concat (r_pre ?r))\<rparr>" by (rule trim_pre_wake_correct)
    have "pre_wake_limit ?r = pre_wake_limit r" by (simp add: pre_wake_limit_def)
    then show ?thesis using 4 r'
      by (simp add: matches_def append_pre_wake_def owned_def own require_audio_bytes_def require_def spec_op_def Let_def same_shape_def ring_abs_def lim [symmetric])
  qed
qed

lemma room_empty: "room p l [] \<ge> room p l post"
  by (simp add: room_def)

lemma begin_matches:
  assumes ok: "ring_ok r" and own: "check_owner current r0 = Inr r"
  shows "matches r (apfst (map_sum id (\<lambda>_. [])) (begin_turn current r0)) (spec_op (r_pre_roll r) (r_limit r) BeginTurn (ring_abs r))"
proof -
  let ?r = "r\<lparr>r_post := [], r_active := True\<rparr>"
  have b: "ring_bounds ?r" and p: "0 < r_pre_roll r" and s: "int (length (concat (r_pre r))) \<le> pre_wake_limit r"
    using ok by (auto simp: ring_ok_def ring_bounds_def)
  obtain r' where r': "trim_pre_wake ?r = (Inr (), r')" "ring_ok r'" "same_shape ?r r'"
    "ring_abs r' = (ring_abs ?r)\<lparr>q_pre := newest (pre_wake_limit ?r) (concat (r_pre ?r))\<rparr>" using b by (rule trim_pre_wake_correct)
  have "pre_wake_limit r \<le> pre_wake_limit ?r"
    using limit_room [of r] limit_room [of ?r] p room_empty [of "r_pre_roll r" "r_limit r" "r_post r"] by simp
  then have "newest (pre_wake_limit ?r) (concat (r_pre ?r)) = concat (r_pre r)" using s by (simp add: newest_all)
  then show ?thesis using r' by (simp add: matches_def begin_turn_def owned_def own spec_op_def same_shape_def ring_abs_def)
qed

lemma append_post_matches:
  assumes ok: "ring_ok r" and own: "check_owner current r0 = Inr r"
  shows "matches r (apfst (map_sum id (\<lambda>_. [])) (append_post_wake current chunk r0)) (spec_op (r_pre_roll r) (r_limit r) (AppendPost chunk) (ring_abs r))"
proof (cases "chunk \<noteq> [] \<and> r_active r \<and> int (length (r_post r @ chunk)) \<le> r_limit r")
  case True
  let ?r = "r\<lparr>r_post := r_post r @ chunk\<rparr>"
  have b: "ring_bounds ?r" and p: "0 < r_pre_roll r" using ok True by (auto simp: ring_ok_def ring_bounds_def)
  obtain r' where r': "trim_pre_wake ?r = (Inr (), r')" "ring_ok r'" "same_shape ?r r'"
    "ring_abs r' = (ring_abs ?r)\<lparr>q_pre := newest (pre_wake_limit ?r) (concat (r_pre ?r))\<rparr>" using b by (rule trim_pre_wake_correct)
  have "pre_wake_limit ?r = room (r_pre_roll r) (r_limit r) (r_post r @ chunk)" using limit_room [of ?r] p by simp
  then show ?thesis using True r'
    by (simp add: matches_def append_post_wake_def owned_def own require_audio_bytes_def require_def spec_op_def same_shape_def ring_abs_def)
next
  case False
  then show ?thesis using ok
    by (auto simp: matches_def append_post_wake_def owned_def own require_audio_bytes_def require_def spec_op_def same_shape_def ring_abs_def)
qed

lemma check_owner_again: "check_owner current r0 = Inr r \<Longrightarrow> r_owner r' = r_owner r \<Longrightarrow> check_owner current r' = Inr r'"
  by (auto simp: check_owner_def split: option.splits if_splits)

lemma snapshot_matches:
  assumes ok: "ring_ok r" and own: "check_owner current r0 = Inr r"
  shows "matches r (snapshot_turn current r0) (spec_op (r_pre_roll r) (r_limit r) SnapshotTurn (ring_abs r))"
proof -
  have b: "ring_bounds r" "r_pre_size r \<le> pre_wake_limit r" "r_pre_size r = int (length (concat (r_pre r)))"
    using ok by (auto simp: ring_ok_bounds ring_bounds_def)
  obtain r' where r': "trim_pre_wake r = (Inr (), r')" "ring_ok r'" "same_shape r r'"
    "ring_abs r' = (ring_abs r)\<lparr>q_pre := newest (pre_wake_limit r) (concat (r_pre r))\<rparr>" using b(1) by (rule trim_pre_wake_correct)
  have a: "ring_abs r' = ring_abs r" using r'(4) b(2,3) by (simp add: newest_all ring_abs_def)
  then have "check_owner current r' = Inr r'" using check_owner_again [OF own, of r'] by (simp add: ring_abs_def)
  then show ?thesis using r' a
    by (simp add: matches_def snapshot_turn_def snapshot_pre_wake_def snapshot_post_wake_def owned_def own spec_op_def) (simp add: ring_abs_def)
qed

lemma clear_matches:
  assumes ok: "ring_ok r" and own: "check_owner current r0 = Inr r"
  shows "matches r (apfst (map_sum id (\<lambda>_. [])) (clear_ring current r0)) (spec_op (r_pre_roll r) (r_limit r) ClearRing (ring_abs r))"
  using ok by (simp add: matches_def clear_ring_def owned_def own spec_op_def same_shape_def ring_abs_def clear_pre_wake_def ring_ok_def pre_wake_limit_def Let_def)

lemma ring_step_matches:
  assumes ok: "ring_ok r"
  shows "matches r (ring_step current op r) (spec_ring_step (r_pre_roll r) (r_limit r) current op (ring_abs r))"
proof (cases "check_owner current r")
  case (Inl e)
  then have "r_owner r \<noteq> None \<and> r_owner r \<noteq> current \<and> e = RingRuntime ''audio-ring-event-loop-owner''"
    by (auto simp: check_owner_def split: option.splits if_splits)
  then show ?thesis using ok Inl
    by (cases op) (simp_all add: matches_def ring_step_def spec_ring_step_def ring_abs_def same_shape_def append_pre_wake_def begin_turn_def append_post_wake_def
        snapshot_turn_def clear_ring_def owned_def)
next
  case (Inr r1)
  then have r1: "r1 = r\<lparr>r_owner := current\<rparr>" "\<not> (r_owner r \<noteq> None \<and> r_owner r \<noteq> current)"
    by (auto simp: check_owner_def split: option.splits if_splits)
  have "pre_wake_limit (r\<lparr>r_owner := current\<rparr>) = pre_wake_limit r" by (simp add: pre_wake_limit_def)
  then have ok1: "ring_ok r1" using ok r1(1) by (simp add: ring_ok_def)
  have sp: "spec_ring_step (r_pre_roll r) (r_limit r) current op (ring_abs r) = spec_op (r_pre_roll r1) (r_limit r1) op (ring_abs r1)"
    using r1 by (auto simp: spec_ring_step_def ring_abs_def)
  have "matches r1 (ring_step current op r) (spec_op (r_pre_roll r1) (r_limit r1) op (ring_abs r1))"
    using append_pre_matches [OF ok1 Inr] begin_matches [OF ok1 Inr] append_post_matches [OF ok1 Inr] snapshot_matches [OF ok1 Inr] clear_matches [OF ok1 Inr]
    by (cases op) (simp_all add: ring_step_def)
  then show ?thesis unfolding sp using r1(1) by (simp add: matches_def same_shape_def)
qed

lemma init_ok:
  assumes "audio_ring_init current rate seconds limit = Inr r"
  shows "ring_ok r" "ring_abs r = \<lparr>q_owner = current, q_active = False, q_pre = [], q_post = []\<rparr>" "r_pre_roll r = rate * seconds" "r_limit r = limit"
proof -
  have r: "r = \<lparr>r_active = False, r_owner = current, r_post = [], r_pre_roll = rate * seconds, r_pre = [], r_pre_size = 0, r_limit = limit\<rparr>"
    and p: "0 < rate" "seconds \<in> {3, 4, 5}" "1 \<le> limit" "limit \<le> MAX_TURN_BYTES"
    using assms by (auto simp: audio_ring_init_def split: if_splits)
  show "ring_ok r" using p by (auto simp: r ring_ok_def pre_wake_limit_def Let_def)
qed (use assms in \<open>auto simp: audio_ring_init_def ring_abs_def split: if_splits\<close>)

text \<open>A run of the ring from one event loop, and of the specification.\<close>

fun ring_run :: "(ring_op \<Rightarrow> 's \<Rightarrow> (ring_error + bytes) \<times> 's) \<Rightarrow> ring_op list \<Rightarrow> 's \<Rightarrow> (ring_error + bytes) list \<times> 's" where
  "ring_run step [] s = ([], s)"
| "ring_run step (op # ops) s = (case step op s of (res, s1) \<Rightarrow> apfst ((#) res) (ring_run step ops s1))"

lemma ring_run_matches:
  "ring_ok r \<Longrightarrow> map_prod id ring_abs (ring_run (ring_step current) ops r) = ring_run (spec_ring_step (r_pre_roll r) (r_limit r) current) ops (ring_abs r)
     \<and> ring_ok (snd (ring_run (ring_step current) ops r)) \<and> same_shape r (snd (ring_run (ring_step current) ops r))"
proof (induction ops arbitrary: r)
  case (Cons op ops)
  obtain res r1 where s: "ring_step current op r = (res, r1)" by (cases "ring_step current op r")
  have m: "spec_ring_step (r_pre_roll r) (r_limit r) current op (ring_abs r) = (res, ring_abs r1)" "ring_ok r1" "same_shape r r1"
    using ring_step_matches [OF Cons.prems, of current op] s by (auto simp: matches_def)
  have shape: "r_pre_roll r1 = r_pre_roll r" "r_limit r1 = r_limit r" using m(3) by (simp_all add: same_shape_def)
  obtain a b where run: "ring_run (ring_step current) ops r1 = (a, b)" by (cases "ring_run (ring_step current) ops r1")
  have "ring_run (spec_ring_step (r_pre_roll r) (r_limit r) current) ops (ring_abs r1) = (a, ring_abs b)" "ring_ok b" "same_shape r b"
    using Cons.IH [OF m(2)] run shape by (auto simp: same_shape_def)
  then show ?case using s m(1) run by simp
qed (simp add: same_shape_def)

lemma ring_turn_bounded: "ring_ok r \<Longrightarrow> int (length (q_pre (ring_abs r) @ q_post (ring_abs r))) \<le> r_limit r \<and> r_limit r \<le> MAX_TURN_BYTES"
  using limit_room [of r] by (auto simp: ring_ok_def ring_abs_def pre_wake_limit_def Let_def split: if_splits)

text \<open>C37: The audio ring is two byte strings: whatever sequence of operations a ring is put through, every result, error and snapshot
  is the one of the specification that keeps the newest pre-roll bytes that still fit beside the turn, and the bytes held never
  exceed the turn limit, itself at most 8 MiB.\<close>

theorem audio_ring_refines_spec:
  assumes "audio_ring_init current rate seconds limit = Inr r" "ring_run (ring_step current) ops r = (results, r')"
  shows "ring_run (spec_ring_step (rate * seconds) limit current) ops \<lparr>q_owner = current, q_active = False, q_pre = [], q_post = []\<rparr>
      = (results, ring_abs r')
    \<and> length (concat (r_pre r')) + length (r_post r') \<le> nat limit \<and> nat limit \<le> 8388608"
proof -
  note i = init_ok [OF assms(1)]
  have m: "ring_run (spec_ring_step (rate * seconds) limit current) ops (ring_abs r) = (results, ring_abs r')" "ring_ok r'" "r_limit r' = limit"
    using ring_run_matches [OF i(1), of current ops] assms(2) i(3,4) by (auto simp: same_shape_def)
  have "int (length (concat (r_pre r')) + length (r_post r')) \<le> limit \<and> limit \<le> MAX_TURN_BYTES"
    using ring_turn_bounded [OF m(2)] m(3) by (simp add: ring_abs_def)
  then show ?thesis using m(1) i(2) by (simp add: MAX_TURN_BYTES_def) linarith
qed

theorem audio_ring_refines_spec_witness:
  "\<exists>r results r'. audio_ring_init None 1 3 5 = Inr r
    \<and> ring_run (ring_step None) [AppendPre [1, 2], AppendPre [3, 4], BeginTurn, AppendPost [5, 6, 7], SnapshotTurn, AppendPost [8, 9, 10]] r = (results, r')
    \<and> results ! 4 = Inr [3, 4, 5, 6, 7] \<and> results ! 5 = Inl (RingValue ''audio-ring-turn-limit'')
    \<and> ring_run (spec_ring_step 3 5 None) [AppendPre [1, 2], AppendPre [3, 4], BeginTurn, AppendPost [5, 6, 7], SnapshotTurn, AppendPost [8, 9, 10]]
        \<lparr>q_owner = None, q_active = False, q_pre = [], q_post = []\<rparr> = (results, ring_abs r')"
proof -
  let ?ops = "[AppendPre [1, 2], AppendPre [3, 4], BeginTurn, AppendPost [5, 6, 7], SnapshotTurn, AppendPost [8, 9, 10]]"
  obtain r where r: "audio_ring_init None 1 3 5 = Inr r" "r = \<lparr>r_active = False, r_owner = None, r_post = [], r_pre_roll = 3, r_pre = [], r_pre_size = 0, r_limit = 5\<rparr>"
    by (simp add: audio_ring_init_def MAX_TURN_BYTES_def)
  obtain results r' where run: "ring_run (ring_step None) ?ops r = (results, r')" by (cases "ring_run (ring_step None) ?ops r")
  have "fst (ring_run (ring_step None) ?ops r) ! 4 = Inr [3, 4, 5, 6, 7] \<and> fst (ring_run (ring_step None) ?ops r) ! 5 = Inl (RingValue ''audio-ring-turn-limit'')"
    unfolding r(2) by code_simp
  then show ?thesis using run r(1) audio_ring_refines_spec [OF r(1) run] by auto
qed

subsection \<open>The voice activity detector\<close>

definition VAD_FRAME_BYTES :: nat where "VAD_FRAME_BYTES = 16000 * 20 div 1000 * 2"
definition SCORE_FLOOR :: int where "SCORE_FLOOR = 0"
definition SCORE_CEILING :: int where "SCORE_CEILING = 1000000"

datatype vad_error = VadFrameContract | VadScoreType | VadScoreContract | VadDetectionError | VadControlFlow | VadContract string

text \<open>What a call of the governed model returns; the model is a parameter.\<close>

datatype inference = Scored int | NotAnInt | InferenceRaised | InferenceControlFlow

record vad =
  v_threshold :: int
  v_start :: int
  v_hangover :: int
  v_end :: int
  v_speech :: int
  v_silence :: int
  v_active :: bool

record vad_result =
  is_voice :: bool
  started :: bool
  ended :: bool

definition require_score :: "inference \<Rightarrow> vad_error + int" where
  "require_score raw =
     (case raw of Scored n \<Rightarrow> if SCORE_FLOOR \<le> n \<and> n \<le> SCORE_CEILING then Inr n else Inl VadScoreContract | _ \<Rightarrow> Inl VadScoreType)"

definition require_bounded_count :: "int \<Rightarrow> string \<Rightarrow> int \<Rightarrow> int \<Rightarrow> vad_error + int" where
  "require_bounded_count n label minimum maximum = (if minimum \<le> n \<and> n \<le> maximum then Inr n else Inl (VadContract label))"

text \<open>The attributes read off the inference handle; reading them may fail. Attributes compared by identity with a constant are
  options, callable ones are flags.\<close>

record handle_snapshot =
  hs_method :: bool
  hs_model_id :: "string option"
  hs_activated :: "bool option"
  hs_runtime_download :: "bool option"
  hs_download :: bool
  hs_download_model :: bool
  hs_cloud_endpoint :: bool

definition validate_governed_handle :: "handle_snapshot option \<Rightarrow> vad_error + unit" where
  "validate_governed_handle handle =
     (case handle of
        None \<Rightarrow> Inl VadDetectionError
      | Some s \<Rightarrow>
          if \<not> hs_method s then Inl (VadContract ''governed-local-inference-handle'')
          else if hs_activated s \<noteq> Some True \<or> hs_runtime_download s \<noteq> Some False \<or> hs_model_id s = None \<or> hs_model_id s = Some []
             \<or> hs_download s \<or> hs_download_model s \<or> hs_cloud_endpoint s
          then Inl (VadContract ''governed-local-inference-handle'')
          else Inr ())"

definition vad_init :: "handle_snapshot option \<Rightarrow> int \<Rightarrow> int \<Rightarrow> int \<Rightarrow> int \<Rightarrow> vad_error + vad" where
  "vad_init handle threshold start hangover ending =
     bindE (validate_governed_handle handle) (\<lambda>_.
     bindE (if SCORE_FLOOR \<le> threshold \<and> threshold \<le> SCORE_CEILING then Inr threshold else Inl (VadContract ''vad-threshold-contract'')) (\<lambda>t.
     bindE (require_bounded_count start ''vad-start-frames-contract'' 1 10) (\<lambda>s.
     bindE (require_bounded_count hangover ''vad-hangover-frames-contract'' 0 50) (\<lambda>h.
     bindE (require_bounded_count ending ''vad-end-frames-contract'' 1 10) (\<lambda>e.
     Inr \<lparr>v_threshold = t, v_start = s, v_hangover = h, v_end = e, v_speech = 0, v_silence = 0, v_active = False\<rparr>)))))"

definition vad_score :: "int \<Rightarrow> vad \<Rightarrow> vad_result \<times> vad" where
  "vad_score score v =
     (if score \<ge> v_threshold v
      then
        let v1 = v\<lparr>v_speech := v_speech v + 1, v_silence := 0\<rparr> in
        if \<not> v_active v1 \<and> v_speech v1 \<ge> v_start v1
        then (\<lparr>is_voice = True, started = True, ended = False\<rparr>, v1\<lparr>v_active := True\<rparr>)
        else (\<lparr>is_voice = v_active v1, started = False, ended = False\<rparr>, v1)
      else
        let v1 = v\<lparr>v_speech := 0\<rparr> in
        if v_active v1
        then
          let v2 = v1\<lparr>v_silence := v_silence v1 + 1\<rparr> in
          if v_silence v2 > v_hangover v2 \<and> v_silence v2 - v_hangover v2 \<ge> v_end v2
          then (\<lparr>is_voice = False, started = False, ended = True\<rparr>, v2\<lparr>v_active := False, v_silence := 0\<rparr>)
          else (\<lparr>is_voice = True, started = False, ended = False\<rparr>, v2)
        else (\<lparr>is_voice = False, started = False, ended = False\<rparr>, v1))"

definition vad_process :: "(bytes \<Rightarrow> inference) \<Rightarrow> bytes \<Rightarrow> vad \<Rightarrow> (vad_error + vad_result) \<times> vad" where
  "vad_process infer frame v =
     (if length frame \<noteq> VAD_FRAME_BYTES then (Inl VadFrameContract, v)
      else case infer frame of
        InferenceControlFlow \<Rightarrow> (Inl VadControlFlow, v)
      | InferenceRaised \<Rightarrow> (Inl VadDetectionError, v)
      | raw \<Rightarrow> (case require_score raw of Inl e \<Rightarrow> (Inl e, v) | Inr score \<Rightarrow> apfst Inr (vad_score score v)))"

fun vad_run :: "(bytes \<Rightarrow> inference) \<Rightarrow> bytes list \<Rightarrow> vad \<Rightarrow> (vad_error + vad_result) list \<times> vad" where
  "vad_run infer [] v = ([], v)"
| "vad_run infer (frame # frames) v =
     (case vad_process infer frame v of (res, v1) \<Rightarrow> apfst ((#) res) (vad_run infer frames v1))"

text \<open>The reference rule: on the history of accepted frames, most recent first, voice begins when the last frames up to the start
  count were all voiced, and ends when the last frames up to hangover plus end count were all silent.\<close>

definition accepted_score :: "(bytes \<Rightarrow> inference) \<Rightarrow> bytes \<Rightarrow> int option" where
  "accepted_score infer frame =
     (if length frame \<noteq> VAD_FRAME_BYTES then None
      else case infer frame of Scored n \<Rightarrow> if 0 \<le> n \<and> n \<le> 1000000 then Some n else None | _ \<Rightarrow> None)"

fun trailing :: "bool \<Rightarrow> bool list \<Rightarrow> nat" where
  "trailing b [] = 0"
| "trailing b (x # xs) = (if x = b then Suc (trailing b xs) else 0)"

fun voice_rule :: "nat \<Rightarrow> nat \<Rightarrow> bool list \<Rightarrow> bool" where
  "voice_rule start quiet [] = False"
| "voice_rule start quiet (voiced # h) =
     (if voiced then voice_rule start quiet h \<or> trailing True (voiced # h) \<ge> start
      else voice_rule start quiet h \<and> trailing False (voiced # h) < quiet)"

definition rule_result :: "nat \<Rightarrow> nat \<Rightarrow> bool list \<Rightarrow> bool \<Rightarrow> vad_result" where
  "rule_result start quiet h voiced =
     (let before = voice_rule start quiet h; after = voice_rule start quiet (voiced # h) in
      \<lparr>is_voice = after, started = \<not> before \<and> after, ended = before \<and> \<not> after\<rparr>)"

definition vad_at :: "bool list \<Rightarrow> vad \<Rightarrow> bool" where
  "vad_at h v \<longleftrightarrow> 1 \<le> v_start v \<and> 0 \<le> v_hangover v \<and> 1 \<le> v_end v \<and> v_speech v = int (trailing True h)
     \<and> v_active v = voice_rule (nat (v_start v)) (nat (v_hangover v + v_end v)) h
     \<and> v_silence v = (if v_active v then int (trailing False h) else 0)"

lemma trailing_other: "trailing b (x # h) > 0 \<Longrightarrow> trailing (\<not> b) (x # h) = 0"
  by (simp split: if_splits)

lemma vad_score_rule:
  assumes at: "vad_at h v"
  shows "fst (vad_score score v) = rule_result (nat (v_start v)) (nat (v_hangover v + v_end v)) h (v_threshold v \<le> score)"
    "vad_at ((v_threshold v \<le> score) # h) (snd (vad_score score v))"
    "v_threshold (snd (vad_score score v)) = v_threshold v" "v_start (snd (vad_score score v)) = v_start v"
    "v_hangover (snd (vad_score score v)) = v_hangover v" "v_end (snd (vad_score score v)) = v_end v"
  using at by (auto simp: vad_at_def vad_score_def rule_result_def Let_def nat_le_iff)

fun rule_run :: "(bytes \<Rightarrow> inference) \<Rightarrow> int \<Rightarrow> nat \<Rightarrow> nat \<Rightarrow> bool list \<Rightarrow> bytes list \<Rightarrow> vad_result option list" where
  "rule_run infer threshold start quiet h [] = []"
| "rule_run infer threshold start quiet h (frame # frames) =
     (case accepted_score infer frame of
        None \<Rightarrow> None # rule_run infer threshold start quiet h frames
      | Some n \<Rightarrow> Some (rule_result start quiet h (threshold \<le> n)) # rule_run infer threshold start quiet ((threshold \<le> n) # h) frames)"

fun answer :: "vad_error + vad_result \<Rightarrow> vad_result option" where
  "answer (Inl _) = None"
| "answer (Inr x) = Some x"

lemma vad_process_accepted:
  "vad_process infer frame v = (res, v') \<Longrightarrow>
   (case accepted_score infer frame of None \<Rightarrow> answer res = None \<and> v' = v | Some n \<Rightarrow> res = Inr (fst (vad_score n v)) \<and> v' = snd (vad_score n v))"
  by (auto simp: vad_process_def accepted_score_def require_score_def SCORE_FLOOR_def SCORE_CEILING_def apfst_def map_prod_def
      split: inference.splits if_splits prod.splits)

lemma vad_run_rule:
  assumes "vad_at h v" "vad_run infer frames v = (results, v')"
  shows "map answer results = rule_run infer (v_threshold v) (nat (v_start v)) (nat (v_hangover v + v_end v)) h frames"
  using assms
proof (induction frames arbitrary: h v results)
  case (Cons frame frames)
  obtain res v1 where p: "vad_process infer frame v = (res, v1)" by (cases "vad_process infer frame v")
  obtain rest where r: "vad_run infer frames v1 = (rest, v')" "results = res # rest"
    using Cons.prems(2) p by (cases "vad_run infer frames v1") auto
  show ?case
  proof (cases "accepted_score infer frame")
    case None
    then show ?thesis using vad_process_accepted [OF p] Cons.IH [OF Cons.prems(1)] r by simp
  next
    case (Some n)
    have "res = Inr (fst (vad_score n v))" "v1 = snd (vad_score n v)" using vad_process_accepted [OF p] Some by simp_all
    then show ?thesis using vad_score_rule [OF Cons.prems(1), of n] Cons.IH [of "(v_threshold v \<le> n) # h"] r Some by simp
  qed
qed simp

lemma vad_init_at:
  assumes "vad_init handle threshold start hangover ending = Inr v"
  shows "vad_at [] v" "v_threshold v = threshold" "v_start v = start" "v_hangover v = hangover" "v_end v = ending"
  using assms by (auto simp: vad_init_def bindE_eq_Inr require_bounded_count_def vad_at_def split: if_splits)

text \<open>C38: The voice activity detector decides by the trailing runs of the frames it accepted: it reports voice from the frame that
  completes the start count of voiced frames to the one that completes hangover plus end count of silent frames, reports each start
  and each end once, and a frame it rejects changes nothing.\<close>

theorem vad_matches_rule:
  assumes "vad_init handle threshold start hangover ending = Inr v" "vad_run infer frames v = (results, v')"
  shows "map answer results = rule_run infer threshold (nat start) (nat (hangover + ending)) [] frames"
  using vad_run_rule [OF vad_init_at(1) [OF assms(1)] assms(2)] vad_init_at(2-) [OF assms(1)] by simp

definition ex_handle :: "handle_snapshot option" where
  "ex_handle = Some \<lparr>hs_method = True, hs_model_id = Some ''vad'', hs_activated = Some True, hs_runtime_download = Some False,
     hs_download = False, hs_download_model = False, hs_cloud_endpoint = False\<rparr>"

definition ex_infer :: "bytes \<Rightarrow> inference" where "ex_infer frame = (if hd frame = 0 then Scored 0 else if hd frame = 1 then Scored 900000 else InferenceRaised)"

definition ex_frames :: "bytes list" where
  "ex_frames = map (\<lambda>b. replicate VAD_FRAME_BYTES b) [1, 0, 1, 2, 1, 1, 0, 0]"

theorem vad_matches_rule_witness:
  "\<exists>v results v'. vad_init ex_handle 500000 2 1 1 = Inr v \<and> vad_run ex_infer ex_frames v = (results, v')
    \<and> map answer results = rule_run ex_infer 500000 2 2 [] ex_frames
    \<and> map (map_option started) (map answer results) = [Some False, Some False, Some False, None, Some True, Some False, Some False, Some False]"
proof -
  obtain v where v: "vad_init ex_handle 500000 2 1 1 = Inr v"
    by (simp add: vad_init_def ex_handle_def validate_governed_handle_def require_bounded_count_def SCORE_FLOOR_def SCORE_CEILING_def)
  obtain results v' where r: "vad_run ex_infer ex_frames v = (results, v')" by (cases "vad_run ex_infer ex_frames v")
  have "map (map_option started) (rule_run ex_infer 500000 2 2 [] ex_frames) = [Some False, Some False, Some False, None, Some True, Some False, Some False, Some False]"
    by (simp add: ex_frames_def accepted_score_def ex_infer_def rule_result_def Let_def VAD_FRAME_BYTES_def)
  then show ?thesis using v r vad_matches_rule [OF v r] by auto
qed

end
