(* ===== verification/Audit_Ledger.thy ===== *)
theory Audit_Ledger
  imports Contract_Json
begin

text \<open>
  The hash-chained audit log: appending and sealing (\<^verbatim>\<open>services/audit/ledger.py\<close>), verification
  (\<^verbatim>\<open>services/audit/verifier.py\<close>) and the two tables (\<^verbatim>\<open>foundation_0001.py\<close>). The canonical printer and the schema
  validation of a draft, SHA-256, HMAC and SQLite's \<^verbatim>\<open>json_valid\<close> are parameters. The columns are typed, so the checks of a
  stored value's type and of its UUID or timestamp spelling are not branches, and the two messages of
  \<^verbatim>\<open>_validate_hmac_b64\<close> are one error.
\<close>

subsection \<open>Text encodings\<close>

definition HEX_DIGITS :: string where "HEX_DIGITS = ''0123456789abcdef''"

definition B64_ALPHABET :: string where
  "B64_ALPHABET = ''ABCDEFGHIJKLMNOPQRSTUVWXYZabcdefghijklmnopqrstuvwxyz0123456789+/''"

definition PAD :: char where "PAD = CHR ''=''"

text \<open>The digit of a value below the alphabet's length, and the value of a digit.\<close>

fun digit_value :: "string \<Rightarrow> char \<Rightarrow> nat option" where
  "digit_value [] c = None"
| "digit_value (x # xs) c = (if x = c then Some 0 else map_option Suc (digit_value xs c))"

definition bytes_hex :: "bytes \<Rightarrow> string" where
  "bytes_hex bs = concat (map (\<lambda>b. [HEX_DIGITS ! (unat b div 16), HEX_DIGITS ! (unat b mod 16)]) bs)"

fun bytes_fromhex :: "string \<Rightarrow> bytes option" where
  "bytes_fromhex [] = Some []"
| "bytes_fromhex [c] = None"
| "bytes_fromhex (c # d # rest) =
     (case (digit_value HEX_DIGITS c, digit_value HEX_DIGITS d, bytes_fromhex rest) of
        (Some h, Some l, Some bs) \<Rightarrow> Some (word_of_nat (h * 16 + l) # bs)
      | _ \<Rightarrow> None)"

fun b64encode :: "bytes \<Rightarrow> string" where
  "b64encode [] = []"
| "b64encode [a] = [B64_ALPHABET ! (unat a div 4), B64_ALPHABET ! (unat a mod 4 * 16), PAD, PAD]"
| "b64encode [a, b] = [B64_ALPHABET ! (unat a div 4), B64_ALPHABET ! (unat a mod 4 * 16 + unat b div 16), B64_ALPHABET ! (unat b mod 16 * 4), PAD]"
| "b64encode (a # b # c # rest) =
     B64_ALPHABET ! (unat a div 4) # B64_ALPHABET ! (unat a mod 4 * 16 + unat b div 16) # B64_ALPHABET ! (unat b mod 16 * 4 + unat c div 64)
       # B64_ALPHABET ! (unat c mod 64) # b64encode rest"

text \<open>Strict decoding: whole groups of four, padding only at the end of the last one.\<close>

fun b64decode :: "string \<Rightarrow> bytes option" where
  "b64decode [] = Some []"
| "b64decode (p # q # r # s # rest) =
     (case (digit_value B64_ALPHABET p, digit_value B64_ALPHABET q) of
        (Some vp, Some vq) \<Rightarrow>
          let a = word_of_nat (vp * 4 + vq div 16) in
          (case digit_value B64_ALPHABET r of
             None \<Rightarrow> if r = PAD \<and> s = PAD \<and> rest = [] then Some [a] else None
           | Some vr \<Rightarrow>
               let b = word_of_nat (vq mod 16 * 16 + vr div 4) in
               (case digit_value B64_ALPHABET s of
                  None \<Rightarrow> if s = PAD \<and> rest = [] then Some [a, b] else None
                | Some vs \<Rightarrow> map_option (\<lambda>bs. a # b # word_of_nat (vr mod 4 * 64 + vs) # bs) (b64decode rest)))
      | _ \<Rightarrow> None)"
| "b64decode _ = None"

lemma hex_digit: "n < 16 \<Longrightarrow> digit_value HEX_DIGITS (HEX_DIGITS ! n) = Some n"
proof -
  have "list_all (\<lambda>n. digit_value HEX_DIGITS (HEX_DIGITS ! n) = Some n) [0..<16]" by code_simp
  then show "n < 16 \<Longrightarrow> digit_value HEX_DIGITS (HEX_DIGITS ! n) = Some n" by (simp add: list_all_iff)
qed

lemma b64_digit: "n < 64 \<Longrightarrow> digit_value B64_ALPHABET (B64_ALPHABET ! n) = Some n"
proof -
  have "list_all (\<lambda>n. digit_value B64_ALPHABET (B64_ALPHABET ! n) = Some n) [0..<64]" by code_simp
  then show "n < 64 \<Longrightarrow> digit_value B64_ALPHABET (B64_ALPHABET ! n) = Some n" by (simp add: list_all_iff)
qed

lemma pad_digit: "digit_value B64_ALPHABET PAD = None"
  by code_simp

lemma byte_parts: "unat (b :: byte) div 16 < 16" "unat (b :: byte) div 4 < 64" "unat (b :: byte) div 64 < 4"
  by (rule less_mult_imp_div_less, simp)+

lemma shift_parts:
  "(y :: nat) < 16 \<Longrightarrow> (x * 16 + y) div 16 = x" "(y :: nat) < 16 \<Longrightarrow> (x * 16 + y) mod 16 = y"
  "(y :: nat) < 4 \<Longrightarrow> (x * 4 + y) div 4 = x" "(y :: nat) < 4 \<Longrightarrow> (x * 4 + y) mod 4 = y"
  by simp_all

lemma fromhex_hex: "bytes_fromhex (bytes_hex bs) = Some bs"
  by (induction bs) (simp_all add: bytes_hex_def hex_digit byte_parts)

lemma hex_length: "length (bytes_hex bs) = 2 * length bs"
  by (induction bs) (simp_all add: bytes_hex_def)

lemma hex_chars: "set (bytes_hex bs) \<subseteq> set HEX_DIGITS"
proof -
  have "length HEX_DIGITS = 16" by (simp add: HEX_DIGITS_def)
  then show ?thesis by (auto simp: bytes_hex_def byte_parts intro!: nth_mem)
qed

lemma sextets: "unat (a :: byte) mod 4 * 16 + unat (b :: byte) div 16 < 64" "unat b mod 16 * 4 + unat (c :: byte) div 64 < 64"
proof -
  have "unat a mod 4 < 4" "unat b mod 16 < 16" by simp_all
  then show "unat a mod 4 * 16 + unat b div 16 < 64" "unat b mod 16 * 4 + unat c div 64 < 64"
    using byte_parts(1) [of b] byte_parts(3) [of c] by linarith+
qed

lemma b64decode_encode: "b64decode (b64encode bs) = Some bs"
proof (induction bs rule: b64encode.induct)
  case (2 a)
  have "unat a mod 4 * 16 < 64" by simp
  then show ?case by (simp add: b64_digit pad_digit byte_parts)
next
  case (3 a b)
  have "unat a mod 4 * 16 + unat b div 16 < 64" "unat b mod 16 * 4 < 64" using sextets(1) [of a b] by simp_all
  then show ?case using byte_parts [of a] byte_parts [of b] by (simp add: b64_digit pad_digit shift_parts Let_def)
next
  case (4 a b c rest)
  have "unat a mod 4 * 16 + unat b div 16 < 64" "unat b mod 16 * 4 + unat c div 64 < 64" by (rule sextets)+
  then show ?case using byte_parts [of a] byte_parts [of b] byte_parts [of c] 4 by (simp add: b64_digit pad_digit shift_parts Let_def)
qed simp

subsection \<open>Drafts, rows and keys\<close>

record audit_draft =
  ad_event :: uuid
  ad_occurred :: instant
  ad_actor :: string
  ad_action :: string
  ad_outcome :: string
  ad_reason :: string
  ad_correlation :: uuid
  ad_commitment_key :: string
  ad_commitment :: string

record audit_env =
  a_canon :: "audit_draft \<Rightarrow> bytes"
  a_validate :: "bytes \<Rightarrow> audit_draft option"
  a_sha256 :: "bytes \<Rightarrow> bytes"
  a_hmac :: "bytes \<Rightarrow> bytes \<Rightarrow> bytes"
  a_json_valid :: "bytes \<Rightarrow> bool"

record audit_row =
  ar_id :: uuid
  ar_ordinal :: int
  ar_previous :: "string option"
  ar_public :: string
  ar_key_id :: string
  ar_mac :: string
  ar_body :: bytes
  ar_occurred :: instant

record segment_row =
  sg_id :: uuid
  sg_first :: int
  sg_last :: int
  sg_count :: int
  sg_public :: string
  sg_mac :: string
  sg_key_id :: string
  sg_sealed :: instant

record audit_db =
  receipts :: "audit_row list"
  segments :: "segment_row list"

datatype audit_error = AuditValue string | AuditIntegrity

record chain_values =
  cv_public :: string
  cv_mac :: string
  cv_body :: bytes

definition AUDIT_PURPOSE :: bytes where
  "AUDIT_PURPOSE = map (\<lambda>c. of_char c) ''tuntun:audit:v1'' @ [0]"

definition MAX_AUDIT_ORDINAL :: int where "MAX_AUDIT_ORDINAL = 9000000000000000"

definition KEY_ID_CHARS :: string where
  "KEY_ID_CHARS = ''abcdefghijklmnopqrstuvwxyzABCDEFGHIJKLMNOPQRSTUVWXYZ0123456789_.:-''"

definition valid_key_id :: "string \<Rightarrow> bool" where
  "valid_key_id k \<longleftrightarrow> 8 \<le> length k \<and> length k \<le> 128 \<and> list_all (\<lambda>c. c \<in> set KEY_ID_CHARS) k"

definition valid_hmac_key :: "bytes \<Rightarrow> bool" where
  "valid_hmac_key key \<longleftrightarrow> 32 \<le> length key"

definition valid_public_hash :: "string \<Rightarrow> bool" where
  "valid_public_hash v \<longleftrightarrow> length v = 64 \<and> list_all (\<lambda>c. c \<in> set HEX_DIGITS) v"

definition valid_hmac_b64 :: "string \<Rightarrow> bool" where
  "valid_hmac_b64 v \<longleftrightarrow> (case b64decode v of None \<Rightarrow> False | Some d \<Rightarrow> length d = 32 \<and> b64encode d = v)"

definition require_hmac_material :: "string \<Rightarrow> bytes \<Rightarrow> audit_error + unit" where
  "require_hmac_material key_id key =
     bindE (require (valid_key_id key_id) (AuditValue ''audit HMAC key ID is required'')) (\<lambda>_.
     require (valid_hmac_key key) (AuditValue ''audit HMAC key must be at least 32 bytes''))"

definition compute_chain_values :: "audit_env \<Rightarrow> string option \<Rightarrow> audit_draft \<Rightarrow> string \<Rightarrow> bytes \<Rightarrow> audit_error + chain_values" where
  "compute_chain_values env previous draft key_id key =
     bindE (require_hmac_material key_id key) (\<lambda>_.
     let body = a_canon env draft in
     bindE (case previous of
              None \<Rightarrow> Inr []
            | Some h \<Rightarrow>
                bindE (require (valid_public_hash h) (AuditValue ''audit public hash must be lowercase SHA-256 hex'')) (\<lambda>_.
                case bytes_fromhex h of None \<Rightarrow> Inl (AuditValue ''non-hexadecimal number'') | Some b \<Rightarrow> Inr b)) (\<lambda>prev.
     let public = a_sha256 env (prev @ body) in
     Inr \<lparr>cv_public = bytes_hex public, cv_mac = b64encode (a_hmac env key (AUDIT_PURPOSE @ public @ body)), cv_body = body\<rparr>))"

subsection \<open>Appending and sealing\<close>

record audit_ledger =
  al_key_id :: string
  al_key :: bytes

definition ledger_init :: "string \<Rightarrow> bytes \<Rightarrow> audit_error + audit_ledger" where
  "ledger_init key_id key = bindE (require_hmac_material key_id key) (\<lambda>_. Inr \<lparr>al_key_id = key_id, al_key = key\<rparr>)"

definition receipt_check :: "audit_env \<Rightarrow> audit_row \<Rightarrow> bool" where
  "receipt_check env r \<longleftrightarrow> 1 \<le> ar_ordinal r \<and> ar_ordinal r \<le> MAX_AUDIT_ORDINAL \<and> valid_public_hash (ar_public r)
     \<and> null_or valid_public_hash (ar_previous r) \<and> a_json_valid env (ar_body r)"

definition segment_check :: "segment_row \<Rightarrow> bool" where
  "segment_check s \<longleftrightarrow> 1 \<le> sg_first s \<and> sg_first s \<le> MAX_AUDIT_ORDINAL \<and> sg_first s \<le> sg_last s \<and> sg_last s \<le> MAX_AUDIT_ORDINAL
     \<and> 1 \<le> sg_count s \<and> sg_count s \<le> MAX_AUDIT_ORDINAL \<and> valid_public_hash (sg_public s)"

definition by_ordinal :: "audit_row list \<Rightarrow> audit_row list" where
  "by_ordinal rows = sort_key ar_ordinal rows"

definition append_receipt :: "audit_env \<Rightarrow> audit_ledger \<Rightarrow> uuid \<Rightarrow> audit_draft \<Rightarrow> audit_db \<Rightarrow> audit_error + (audit_row \<times> audit_db)" where
  "append_receipt env ledger receipt_id draft db =
     bindE (case rev (by_ordinal (receipts db)) of
              [] \<Rightarrow> Inr (1, None)
            | row # _ \<Rightarrow>
                bindE (require (1 \<le> ar_ordinal row \<and> ar_ordinal row < MAX_AUDIT_ORDINAL) (AuditValue ''audit ordinal storage value is invalid'')) (\<lambda>_.
                bindE (require (valid_public_hash (ar_public row)) (AuditValue ''audit public hash must be lowercase SHA-256 hex'')) (\<lambda>_.
                Inr (ar_ordinal row + 1, Some (ar_public row))))) (\<lambda>(ordinal, previous).
     bindE (compute_chain_values env previous draft (al_key_id ledger) (al_key ledger)) (\<lambda>values.
     let row = \<lparr>ar_id = receipt_id, ar_ordinal = ordinal, ar_previous = previous, ar_public = cv_public values, ar_key_id = al_key_id ledger,
                ar_mac = cv_mac values, ar_body = cv_body values, ar_occurred = ad_occurred draft\<rparr> in
     bindE (require (receipt_check env row \<and> list_all (\<lambda>r. ar_id r \<noteq> receipt_id \<and> ar_ordinal r \<noteq> ordinal) (receipts db)) AuditIntegrity) (\<lambda>_.
     Inr (row, db\<lparr>receipts := receipts db @ [row]\<rparr>))))"

definition rows_between :: "int \<Rightarrow> int \<Rightarrow> audit_row list \<Rightarrow> audit_row list" where
  "rows_between lo hi rows = filter (\<lambda>r. lo \<le> ar_ordinal r \<and> ar_ordinal r \<le> hi) (by_ordinal rows)"

definition seal :: "audit_ledger \<Rightarrow> uuid \<Rightarrow> int \<Rightarrow> int \<Rightarrow> instant \<Rightarrow> audit_db \<Rightarrow> audit_error + (segment_row \<times> audit_db)" where
  "seal ledger segment_id lo hi sealed_at db =
     bindE (require (\<not> (lo < 1 \<or> lo > hi \<or> hi > MAX_AUDIT_ORDINAL)) (AuditValue ''segment range is not contiguous'')) (\<lambda>_.
     let rows = rows_between lo hi (receipts db) in
     bindE (require (map ar_ordinal rows = [lo..lo + int (length rows) - 1]) (AuditValue ''segment range is not contiguous'')) (\<lambda>_.
     bindE (require (rows \<noteq> [] \<and> int (length rows) = hi - lo + 1) (AuditValue ''segment range is not contiguous'')) (\<lambda>_.
     let terminal = last rows in
     bindE (require (valid_public_hash (ar_public terminal)) (AuditValue ''audit public hash must be lowercase SHA-256 hex'')) (\<lambda>_.
     bindE (require (valid_hmac_b64 (ar_mac terminal)) (AuditValue ''audit HMAC must be canonical base64'')) (\<lambda>_.
     bindE (require (valid_key_id (ar_key_id terminal)) (AuditValue ''audit HMAC key ID is required'')) (\<lambda>_.
     let segment = \<lparr>sg_id = segment_id, sg_first = lo, sg_last = hi, sg_count = int (length rows), sg_public = ar_public terminal,
                    sg_mac = ar_mac terminal, sg_key_id = ar_key_id terminal, sg_sealed = sealed_at\<rparr> in
     bindE (require (segment_check segment \<and> list_all (\<lambda>s. sg_id s \<noteq> segment_id) (segments db)) AuditIntegrity) (\<lambda>_.
     Inr (segment, db\<lparr>segments := segments db @ [segment]\<rparr>))))))))"

subsection \<open>Verification\<close>

record keyring =
  kr_keys :: "(string \<times> bytes) list"
  kr_invalid :: "string list"

definition verifier_init :: "(string \<times> bytes) list \<Rightarrow> keyring" where
  "verifier_init keys =
     \<lparr>kr_keys = filter (\<lambda>(k, key). valid_key_id k \<and> valid_hmac_key key) keys,
      kr_invalid = map fst (filter (\<lambda>(k, key). \<not> (valid_key_id k \<and> valid_hmac_key key)) keys)\<rparr>"

definition MAX_CANONICAL_BODY_BYTES :: nat where "MAX_CANONICAL_BODY_BYTES = 65536"

record verification =
  av_valid :: bool
  av_count :: int
  av_terminal :: "string option"
  av_reason :: string

text \<open>One receipt: an escaping exception, a reason to reject, or the hash the next receipt has to link to.\<close>

definition check_receipt :: "audit_env \<Rightarrow> keyring \<Rightarrow> string option \<Rightarrow> int \<Rightarrow> audit_row \<Rightarrow> parse_failure + (string + string)" where
  "check_receipt env kr previous count row =
     (if \<not> (valid_public_hash (ar_public row) \<and> null_or valid_public_hash (ar_previous row)) then Inr (Inl ''invalid-receipt-row'')
      else if ar_ordinal row \<noteq> count \<or> ar_previous row \<noteq> previous then Inr (Inl ''ordinal-or-link-mismatch'')
      else if \<not> valid_key_id (ar_key_id row) \<or> ar_key_id row \<in> set (kr_invalid kr) then Inr (Inl ''invalid-hmac-key'')
      else case map_of (kr_keys kr) (ar_key_id row) of None \<Rightarrow> Inr (Inl ''missing-hmac-key'')
      | Some key \<Rightarrow>
        if \<not> valid_hmac_b64 (ar_mac row) then Inr (Inl ''invalid-hmac'')
        else if \<not> (1 \<le> length (ar_body row) \<and> length (ar_body row) \<le> MAX_CANONICAL_BODY_BYTES) then Inr (Inl ''invalid-canonical-body'')
        else case parse_contract_json (a_validate env) (a_canon env) MAX_CANONICAL_BODY_BYTES True (ar_body row) of
          Inl Uncaught_InvalidOperation \<Rightarrow> Inl Uncaught_InvalidOperation
        | Inl _ \<Rightarrow> Inr (Inl ''invalid-canonical-body'')
        | Inr draft \<Rightarrow>
          if ar_occurred row \<noteq> ad_occurred draft then Inr (Inl ''occurred-at-mismatch'')
          else case compute_chain_values env previous draft (ar_key_id row) key of
            Inl _ \<Rightarrow> Inr (Inl ''invalid-receipt-row'')
          | Inr values \<Rightarrow>
            if cv_public values \<noteq> ar_public row \<or> cv_mac values \<noteq> ar_mac row then Inr (Inl ''hash-or-hmac-mismatch'')
            else Inr (Inr (cv_public values)))"

fun verify_receipts :: "audit_env \<Rightarrow> keyring \<Rightarrow> string option \<Rightarrow> int \<Rightarrow> audit_row list \<Rightarrow> parse_failure + (verification + (string option \<times> int))" where
  "verify_receipts env kr previous count [] = Inr (Inr (previous, count))"
| "verify_receipts env kr previous count (row # rows) =
     (case check_receipt env kr previous (count + 1) row of
        Inl x \<Rightarrow> Inl x
      | Inr (Inl reason) \<Rightarrow> Inr (Inl \<lparr>av_valid = False, av_count = count, av_terminal = previous, av_reason = reason\<rparr>)
      | Inr (Inr public) \<Rightarrow> verify_receipts env kr (Some public) (count + 1) rows)"

text \<open>One segment: the reason to reject it, or none.\<close>

definition check_segment :: "keyring \<Rightarrow> int \<Rightarrow> audit_row list \<Rightarrow> segment_row \<Rightarrow> string option" where
  "check_segment kr count rows s =
     (if sg_first s < 1 \<or> sg_first s > sg_last s \<or> sg_last s > MAX_AUDIT_ORDINAL \<or> sg_last s > count \<or> sg_count s \<noteq> sg_last s - sg_first s + 1
      then Some ''invalid-segment-range''
      else if map ar_ordinal (rows_between (sg_first s) (sg_last s) rows)
              \<noteq> [sg_first s..sg_first s + int (length (rows_between (sg_first s) (sg_last s) rows)) - 1]
      then Some ''invalid-segment-range''
      else if int (length (rows_between (sg_first s) (sg_last s) rows)) \<noteq> sg_count s then Some ''invalid-segment-range''
      else if \<not> valid_key_id (sg_key_id s) then Some ''invalid-hmac-key''
      else if \<not> valid_public_hash (sg_public s) \<or> \<not> valid_hmac_b64 (sg_mac s) then Some ''invalid-segment-row''
      else if sg_key_id s \<in> set (kr_invalid kr) then Some ''invalid-hmac-key''
      else if map_of (kr_keys kr) (sg_key_id s) = None then Some ''missing-hmac-key''
      else case find (\<lambda>r. ar_ordinal r = sg_last s) rows of
        None \<Rightarrow> Some ''invalid-segment-range''
      | Some t \<Rightarrow>
        if \<not> (valid_public_hash (ar_public t) \<and> valid_hmac_b64 (ar_mac t) \<and> valid_key_id (ar_key_id t)) then Some ''invalid-receipt-row''
        else if ar_public t \<noteq> sg_public s \<or> ar_mac t \<noteq> sg_mac s \<or> ar_key_id t \<noteq> sg_key_id s then Some ''segment-terminal-mismatch''
        else None)"

definition verify :: "audit_env \<Rightarrow> keyring \<Rightarrow> audit_db \<Rightarrow> parse_failure + verification" where
  "verify env kr db =
     (case verify_receipts env kr None 0 (by_ordinal (receipts db)) of
        Inl x \<Rightarrow> Inl x
      | Inr (Inl v) \<Rightarrow> Inr v
      | Inr (Inr (previous, count)) \<Rightarrow>
        (case filter (\<lambda>s. check_segment kr count (receipts db) s \<noteq> None) (sort_key sg_first (segments db)) of
           s # _ \<Rightarrow> Inr \<lparr>av_valid = False, av_count = count, av_terminal = previous, av_reason = the (check_segment kr count (receipts db) s)\<rparr>
         | [] \<Rightarrow> Inr \<lparr>av_valid = True, av_count = count, av_terminal = previous, av_reason = ''ok''\<rparr>))"

end
