(* ===== verification/Audit_Chain.thy ===== *)
theory Audit_Chain
  imports Audit_Ledger
begin

text \<open>
  What the audit log guarantees: every log the ledger writes verifies, segments included; two logs that verify with the same length
  and the same last hash hold the same records, or a hash collision is exhibited; and a record too long for the verifier spoils the log.
\<close>

subsection \<open>Runs of the ledger\<close>

datatype audit_op = Append audit_ledger uuid audit_draft | Seal audit_ledger uuid int int instant

datatype audit_done = ReceiptOf audit_row | SegmentOf segment_row

definition audit_apply :: "audit_env \<Rightarrow> audit_op \<Rightarrow> audit_db \<Rightarrow> (audit_error + audit_done) \<times> audit_db" where
  "audit_apply env op db =
     (case (case op of
              Append ledger rid draft \<Rightarrow> map_sum id (map_prod ReceiptOf id) (append_receipt env ledger rid draft db)
            | Seal ledger sid lo hi now \<Rightarrow> map_sum id (map_prod SegmentOf id) (seal ledger sid lo hi now db)) of
        Inl e \<Rightarrow> (Inl e, db) | Inr (x, db') \<Rightarrow> (Inr x, db'))"

fun audit_run :: "audit_env \<Rightarrow> audit_op list \<Rightarrow> audit_db \<Rightarrow> (audit_error + audit_done) list \<times> audit_db" where
  "audit_run env [] db = ([], db)"
| "audit_run env (op # ops) db = (case audit_apply env op db of (r, db1) \<Rightarrow> apfst ((#) r) (audit_run env ops db1))"

fun is_receipt :: "audit_error + audit_done \<Rightarrow> bool" where
  "is_receipt (Inr (ReceiptOf _)) = True"
| "is_receipt _ = False"

definition hash_law :: "audit_env \<Rightarrow> bool" where
  "hash_law env \<longleftrightarrow> (\<forall>b. length (a_sha256 env b) = 32) \<and> (\<forall>k b. length (a_hmac env k b) = 32)"

definition draft_ok :: "audit_env \<Rightarrow> audit_draft \<Rightarrow> bool" where
  "draft_ok env d \<longleftrightarrow> 1 \<le> length (a_canon env d) \<and> length (a_canon env d) \<le> MAX_CANONICAL_BODY_BYTES
     \<and> parse_contract_json (a_validate env) (a_canon env) MAX_CANONICAL_BODY_BYTES True (a_canon env d) = Inr d"

fun op_ok :: "audit_env \<Rightarrow> (string \<times> bytes) list \<Rightarrow> audit_op \<Rightarrow> bool" where
  "op_ok env keys (Append ledger _ d) = (draft_ok env d \<and> map_of keys (al_key_id ledger) = Some (al_key ledger))"
| "op_ok env keys (Seal _ _ _ _ _) = True"

subsection \<open>Facts about verified receipts\<close>

definition row_verified :: "keyring \<Rightarrow> audit_row \<Rightarrow> bool" where
  "row_verified kr r \<longleftrightarrow> valid_public_hash (ar_public r) \<and> valid_hmac_b64 (ar_mac r) \<and> valid_key_id (ar_key_id r)
     \<and> ar_key_id r \<notin> set (kr_invalid kr) \<and> map_of (kr_keys kr) (ar_key_id r) \<noteq> None"

lemma check_receipt_facts:
  assumes "check_receipt env kr p c row = Inr (Inr h)"
  shows "ar_ordinal row = c \<and> ar_public row = h \<and> ar_previous row = p \<and> row_verified kr row"
    "\<exists>d key v. parse_contract_json (a_validate env) (a_canon env) MAX_CANONICAL_BODY_BYTES True (ar_body row) = Inr d
       \<and> ad_occurred d = ar_occurred row \<and> compute_chain_values env p d (ar_key_id row) key = Inr v \<and> cv_public v = ar_public row"
  using assms by (auto simp: check_receipt_def row_verified_def split: if_splits option.splits sum.splits parse_failure.splits)

lemma verify_receipts_append:
  "verify_receipts env kr p c (xs @ ys) =
     (case verify_receipts env kr p c xs of Inl x \<Rightarrow> Inl x | Inr (Inl v) \<Rightarrow> Inr (Inl v) | Inr (Inr (p', c')) \<Rightarrow> verify_receipts env kr p' c' ys)"
  by (induction xs arbitrary: p c) (auto split: sum.splits)

lemma verify_receipts_facts:
  assumes "verify_receipts env kr p c rows = Inr (Inr (p', c'))"
  shows "c' = c + int (length rows) \<and> map ar_ordinal rows = [c + 1..c'] \<and> list_all (row_verified kr) rows
    \<and> p' = (if rows = [] then p else Some (ar_public (last rows)))"
  using assms
proof (induction rows arbitrary: p c)
  case (Cons row rows)
  then obtain h where h: "check_receipt env kr p (c + 1) row = Inr (Inr h)" "verify_receipts env kr (Some h) (c + 1) rows = Inr (Inr (p', c'))"
    by (auto split: sum.splits)
  note f = check_receipt_facts(1) [OF h(1)] and ih = Cons.IH [OF h(2)]
  have "[c + 1..c'] = (c + 1) # [c + 1 + 1..c']" using ih by (simp add: upto_rec1)
  then show ?case using f ih by auto
qed simp

definition log_ok :: "audit_env \<Rightarrow> keyring \<Rightarrow> audit_db \<Rightarrow> bool" where
  "log_ok env kr db \<longleftrightarrow> (\<exists>p. verify_receipts env kr None 0 (receipts db) = Inr (Inr (p, int (length (receipts db)))))
     \<and> list_all (\<lambda>s. check_segment kr (int (length (receipts db))) (receipts db) s = None) (segments db)"

lemma log_okD:
  assumes "log_ok env kr db"
  shows "by_ordinal (receipts db) = receipts db" "map ar_ordinal (receipts db) = [1..int (length (receipts db))]" "list_all (row_verified kr) (receipts db)"
    "verify_receipts env kr None 0 (receipts db)
       = Inr (Inr (if receipts db = [] then None else Some (ar_public (last (receipts db))), int (length (receipts db))))"
proof -
  obtain p where p: "verify_receipts env kr None 0 (receipts db) = Inr (Inr (p, int (length (receipts db))))" using assms by (auto simp: log_ok_def)
  note f = verify_receipts_facts [OF p]
  show o: "map ar_ordinal (receipts db) = [1..int (length (receipts db))]" using f by simp
  show "by_ordinal (receipts db) = receipts db" unfolding by_ordinal_def by (rule sort_key_id_if_sorted) (simp add: o)
  show "list_all (row_verified kr) (receipts db)" using f by simp
  show "verify_receipts env kr None 0 (receipts db)
       = Inr (Inr (if receipts db = [] then None else Some (ar_public (last (receipts db))), int (length (receipts db))))" using p f by simp
qed

lemma log_ok_verifies:
  assumes "log_ok env kr db"
  shows "\<exists>h. verify env kr db = Inr \<lparr>av_valid = True, av_count = int (length (receipts db)), av_terminal = h, av_reason = ''ok''\<rparr>"
proof -
  have "filter (\<lambda>s. check_segment kr (int (length (receipts db))) (receipts db) s \<noteq> None) (sort_key sg_first (segments db)) = []"
    using assms by (auto simp: log_ok_def filter_empty_conv list_all_iff)
  then show ?thesis using log_okD [OF assms] by (simp add: verify_def)
qed

subsection \<open>Appending keeps the log verifiable\<close>

lemma public_hash_valid: "length b = 32 \<Longrightarrow> valid_public_hash (bytes_hex b)"
  using hex_chars [of b] by (auto simp: valid_public_hash_def hex_length list_all_iff)

lemma mac_valid: "length b = 32 \<Longrightarrow> valid_hmac_b64 (b64encode b)"
  by (simp add: valid_hmac_b64_def b64decode_encode)

lemma chain_values_facts:
  assumes "hash_law env" "compute_chain_values env p d k key = Inr v"
  shows "valid_public_hash (cv_public v)" "valid_hmac_b64 (cv_mac v)" "cv_body v = a_canon env d" "valid_key_id k \<and> valid_hmac_key key"
  using assms by (auto simp: compute_chain_values_def bindE_eq_Inr Let_def require_hmac_material_def hash_law_def intro!: public_hash_valid mac_valid)

lemma keyring_lookup:
  assumes "distinct (map fst keys)" "map_of keys k = Some key" "valid_key_id k" "valid_hmac_key key"
  shows "map_of (kr_keys (verifier_init keys)) k = Some key" "k \<notin> set (kr_invalid (verifier_init keys))"
proof -
  have m: "(k, key) \<in> set keys" using assms(2) by (rule map_of_SomeD)
  have "map_of (filter (\<lambda>(k, key). valid_key_id k \<and> valid_hmac_key key) keys) k = Some key"
    using m assms by (intro map_of_is_SomeI) (auto simp: distinct_map_filter)
  then show "map_of (kr_keys (verifier_init keys)) k = Some key" by (simp add: verifier_init_def)
  have "key' = key" if "(k, key') \<in> set keys" for key'
    using assms(1) m that by (metis eq_key_imp_eq_value)
  then show "k \<notin> set (kr_invalid (verifier_init keys))" using assms(3,4) by (auto simp: verifier_init_def)
qed

lemma append_receipt_row:
  assumes ok: "log_ok env kr db" and run: "append_receipt env ledger rid draft db = Inr (row, db')"
  defines "p \<equiv> if receipts db = [] then None else Some (ar_public (last (receipts db)))"
  obtains v where "compute_chain_values env p draft (al_key_id ledger) (al_key ledger) = Inr v"
    "row = \<lparr>ar_id = rid, ar_ordinal = int (length (receipts db)) + 1, ar_previous = p, ar_public = cv_public v, ar_key_id = al_key_id ledger,
       ar_mac = cv_mac v, ar_body = cv_body v, ar_occurred = ad_occurred draft\<rparr>"
    "db' = db\<lparr>receipts := receipts db @ [row]\<rparr>" "null_or valid_public_hash p"
proof -
  have last: "ar_ordinal (last (receipts db)) = int (length (receipts db))" if "receipts db \<noteq> []"
  proof -
    have "ar_ordinal (last (receipts db)) = last (map ar_ordinal (receipts db))" using that by (simp add: last_map)
    moreover have "1 \<le> int (length (receipts db))" using that by (cases "receipts db") simp_all
    ultimately show ?thesis using log_okD(2) [OF ok] upto_rec2 [of 1 "int (length (receipts db))"] by simp
  qed
  show thesis
  proof (cases "receipts db = []")
    case True
    then show ?thesis using run log_okD(1) [OF ok] that
      by (auto simp: append_receipt_def p_def bindE_eq_Inr Let_def)
  next
    case False
    then have r: "rev (by_ordinal (receipts db)) = last (receipts db) # rev (butlast (receipts db))"
      unfolding log_okD(1) [OF ok] by (metis append_butlast_last_id rev.simps(2) rev_rev_ident rev_append append_Nil append_Cons rev_singleton_conv)
    show ?thesis using run that False last unfolding append_receipt_def r
      by (auto simp: p_def bindE_eq_Inr Let_def)
  qed
qed

lemma append_check:
  assumes ok: "log_ok env (verifier_init keys) db" and law: "hash_law env" and d: "distinct (map fst keys)"
    and op: "draft_ok env draft" "map_of keys (al_key_id ledger) = Some (al_key ledger)"
    and run: "append_receipt env ledger rid draft db = Inr (row, db')"
  shows "check_receipt env (verifier_init keys) (if receipts db = [] then None else Some (ar_public (last (receipts db))))
           (int (length (receipts db)) + 1) row = Inr (Inr (ar_public row))"
proof -
  let ?p = "if receipts db = [] then None else Some (ar_public (last (receipts db)))"
  obtain v where v: "compute_chain_values env ?p draft (al_key_id ledger) (al_key ledger) = Inr v"
    "row = \<lparr>ar_id = rid, ar_ordinal = int (length (receipts db)) + 1, ar_previous = ?p, ar_public = cv_public v, ar_key_id = al_key_id ledger,
       ar_mac = cv_mac v, ar_body = cv_body v, ar_occurred = ad_occurred draft\<rparr>" "null_or valid_public_hash ?p"
    using append_receipt_row [OF ok run] by blast
  note f = chain_values_facts [OF law v(1)]
  have k: "map_of (kr_keys (verifier_init keys)) (al_key_id ledger) = Some (al_key ledger)" "al_key_id ledger \<notin> set (kr_invalid (verifier_init keys))"
    using keyring_lookup [OF d op(2)] f(4) by blast+
  show ?thesis using v f k op(1) unfolding check_receipt_def draft_ok_def by simp
qed

lemma rows_between_prefix:
  assumes "map ar_ordinal (rows @ [row]) = [1..n + 1]" "n = int (length rows)" "hi \<le> n"
  shows "rows_between lo hi (rows @ [row]) = rows_between lo hi rows"
proof -
  have s: "sorted (map ar_ordinal (rows @ [row]))" unfolding assms(1) by simp
  have "by_ordinal (rows @ [row]) = rows @ [row]" unfolding by_ordinal_def by (rule sort_key_id_if_sorted [OF s])
  moreover have "by_ordinal rows = rows" unfolding by_ordinal_def by (rule sort_key_id_if_sorted) (use s in \<open>simp add: sorted_append\<close>)
  moreover have "ar_ordinal row = n + 1" using assms(1,2) upto_rec2 [of 1 "n + 1"] by simp
  ultimately show ?thesis using assms(3) by (simp add: rows_between_def)
qed

lemma find_append_Some: "find P xs = Some y \<Longrightarrow> find P (xs @ ys) = Some y"
  by (induction xs) auto

lemma check_segment_prefix:
  assumes o: "map ar_ordinal (rows @ [row]) = [1..n + 1]" "n = int (length rows)" and c: "check_segment kr n rows s = None"
  shows "check_segment kr (n + 1) (rows @ [row]) s = None"
proof -
  have hi: "sg_last s \<le> n" using c by (auto simp: check_segment_def split: if_splits)
  obtain t where t: "find (\<lambda>r. ar_ordinal r = sg_last s) rows = Some t"
    using c by (cases "find (\<lambda>r. ar_ordinal r = sg_last s) rows") (simp_all add: check_segment_def split: if_split_asm)
  show ?thesis using c hi by (simp add: check_segment_def rows_between_prefix [OF o hi] t find_append_Some [OF t] split: if_split_asm)
qed

lemma append_keeps:
  assumes ok: "log_ok env (verifier_init keys) db" and law: "hash_law env" and d: "distinct (map fst keys)"
    and op: "draft_ok env draft" "map_of keys (al_key_id ledger) = Some (al_key ledger)"
    and run: "append_receipt env ledger rid draft db = Inr (row, db')"
  shows "log_ok env (verifier_init keys) db'" "length (receipts db') = Suc (length (receipts db))"
proof -
  have db': "db' = db\<lparr>receipts := receipts db @ [row]\<rparr>" using append_receipt_row [OF ok run] by blast
  have v: "verify_receipts env (verifier_init keys) None 0 (receipts db @ [row]) = Inr (Inr (Some (ar_public row), int (length (receipts db)) + 1))"
    using append_check [OF assms] log_okD(4) [OF ok] by (simp add: verify_receipts_append)
  have o: "map ar_ordinal (receipts db @ [row]) = [1..int (length (receipts db)) + 1]" using verify_receipts_facts [OF v] by simp
  have "list_all (\<lambda>s. check_segment (verifier_init keys) (int (length (receipts db)) + 1) (receipts db @ [row]) s = None) (segments db)"
    using ok check_segment_prefix [OF o refl] by (auto simp: log_ok_def list_all_iff)
  then show "log_ok env (verifier_init keys) db'" using v by (simp add: log_ok_def db' add.commute)
  show "length (receipts db') = Suc (length (receipts db))" by (simp add: db')
qed

subsection \<open>Sealing keeps the log verifiable\<close>

lemma find_unique: "distinct (map f xs) \<Longrightarrow> x \<in> set xs \<Longrightarrow> find (\<lambda>y. f y = f x) xs = Some x"
  by (induction xs) (auto simp: image_iff)

lemma seal_segment:
  assumes run: "seal ledger sid lo hi now db = Inr (s, db')"
  shows "1 \<le> lo \<and> lo \<le> hi \<and> hi \<le> MAX_AUDIT_ORDINAL \<and> map ar_ordinal (rows_between lo hi (receipts db)) = [lo..hi]
     \<and> int (length (rows_between lo hi (receipts db))) = hi - lo + 1 \<and> rows_between lo hi (receipts db) \<noteq> []
     \<and> db' = db\<lparr>segments := segments db @ [s]\<rparr>
     \<and> s = \<lparr>sg_id = sid, sg_first = lo, sg_last = hi, sg_count = hi - lo + 1, sg_public = ar_public (last (rows_between lo hi (receipts db))),
         sg_mac = ar_mac (last (rows_between lo hi (receipts db))), sg_key_id = ar_key_id (last (rows_between lo hi (receipts db))), sg_sealed = now\<rparr>"
  using run by (auto simp: seal_def bindE_eq_Inr Let_def)

lemma seal_check:
  assumes ok: "log_ok env kr db" and run: "seal ledger sid lo hi now db = Inr (s, db')"
  shows "check_segment kr (int (length (receipts db))) (receipts db) s = None"
proof -
  note f = seal_segment [OF run]
  define t where "t = last (rows_between lo hi (receipts db))"
  have t: "t \<in> set (receipts db)" using f log_okD(1) [OF ok] last_in_set [of "rows_between lo hi (receipts db)"] by (auto simp: t_def rows_between_def)
  have ne: "rows_between lo hi (receipts db) \<noteq> []" using f by simp
  have "ar_ordinal t = last (map ar_ordinal (rows_between lo hi (receipts db)))" unfolding t_def by (simp only: last_map [OF ne])
  also have "\<dots> = hi" using f upto_rec2 [of lo hi] by simp
  finally have th: "ar_ordinal t = hi" .
  have "distinct (map ar_ordinal (receipts db))" unfolding log_okD(2) [OF ok] by simp
  then have fd: "find (\<lambda>r. ar_ordinal r = hi) (receipts db) = Some t" using find_unique [of ar_ordinal "receipts db" t] t th by simp
  have "ar_ordinal t \<in> set (map ar_ordinal (receipts db))" using t by simp
  then have n: "hi \<le> int (length (receipts db))" unfolding log_okD(2) [OF ok] th by simp
  have v: "row_verified kr t" using log_okD(3) [OF ok] t by (auto simp: list_all_iff)
  have s: "s = \<lparr>sg_id = sid, sg_first = lo, sg_last = hi, sg_count = hi - lo + 1, sg_public = ar_public t, sg_mac = ar_mac t, sg_key_id = ar_key_id t, sg_sealed = now\<rparr>"
    using f by (simp add: t_def)
  show ?thesis using f n fd v unfolding s check_segment_def row_verified_def by auto
qed

lemma seal_keeps:
  assumes ok: "log_ok env kr db" and run: "seal ledger sid lo hi now db = Inr (s, db')"
  shows "log_ok env kr db' \<and> receipts db' = receipts db"
  using ok seal_check [OF assms] seal_segment [OF run] by (auto simp: log_ok_def)

lemma audit_apply_keeps:
  assumes law: "hash_law env" and d: "distinct (map fst keys)" and ok: "log_ok env (verifier_init keys) db" and op: "op_ok env keys op"
    and run: "audit_apply env op db = (r, db1)"
  shows "log_ok env (verifier_init keys) db1" "length (receipts db1) = length (receipts db) + (if is_receipt r then 1 else 0)"
proof -
  have "log_ok env (verifier_init keys) db1 \<and> length (receipts db1) = length (receipts db) + (if is_receipt r then 1 else 0)"
  proof (cases op)
    case (Append ledger rid draft)
    show ?thesis
    proof (cases "append_receipt env ledger rid draft db")
      case (Inl e)
      then show ?thesis using run ok Append by (auto simp: audit_apply_def)
    next
      case (Inr x)
      obtain row db2 where x: "x = (row, db2)" by (cases x)
      have "draft_ok env draft" "map_of keys (al_key_id ledger) = Some (al_key ledger)" using op Append by simp_all
      note k = append_keeps [OF ok law d this Inr [unfolded x]]
      have "r = Inr (ReceiptOf row) \<and> db1 = db2" using run Append Inr x by (simp add: audit_apply_def)
      then show ?thesis using k by simp
    qed
  next
    case (Seal ledger sid lo hi now)
    show ?thesis
    proof (cases "seal ledger sid lo hi now db")
      case (Inl e)
      then show ?thesis using run ok Seal by (auto simp: audit_apply_def)
    next
      case (Inr x)
      obtain s db2 where x: "x = (s, db2)" by (cases x)
      have "r = Inr (SegmentOf s) \<and> db1 = db2" using run Seal Inr x by (simp add: audit_apply_def)
      then show ?thesis using seal_keeps [OF ok Inr [unfolded x]] by simp
    qed
  qed
  then show "log_ok env (verifier_init keys) db1" "length (receipts db1) = length (receipts db) + (if is_receipt r then 1 else 0)" by simp_all
qed

lemma audit_run_keeps:
  assumes law: "hash_law env" and d: "distinct (map fst keys)"
  shows "log_ok env (verifier_init keys) db \<Longrightarrow> list_all (op_ok env keys) ops \<Longrightarrow> audit_run env ops db = (results, db') \<Longrightarrow>
    log_ok env (verifier_init keys) db' \<and> length (receipts db') = length (receipts db) + length (filter is_receipt results)"
proof (induction ops arbitrary: db results)
  case (Cons op ops)
  obtain r db1 where r: "audit_apply env op db = (r, db1)" by (cases "audit_apply env op db")
  obtain rest where rest: "audit_run env ops db1 = (rest, db')" "results = r # rest"
    using Cons.prems(3) r by (cases "audit_run env ops db1") auto
  have op: "op_ok env keys op" "list_all (op_ok env keys) ops" using Cons.prems(2) by simp_all
  note k = audit_apply_keeps [OF law d Cons.prems(1) op(1) r]
  show ?case using Cons.IH [OF k(1) op(2) rest(1)] k(2) rest(2) by simp
qed simp

subsection \<open>Tampering\<close>












lemma verify_receipts_invalid: "verify_receipts env kr p c rows = Inr (Inl v) \<Longrightarrow> \<not> av_valid v"
  by (induction rows arbitrary: p c) (auto split: sum.splits)

lemma verify_valid:
  assumes "verify env kr db = Inr v" "av_valid v"
  shows "verify_receipts env kr None 0 (by_ordinal (receipts db)) = Inr (Inr (av_terminal v, av_count v))"
  using assms verify_receipts_invalid [of env kr None 0 "by_ordinal (receipts db)" v] by (auto simp: verify_def split: sum.splits list.splits)

subsection \<open>Oversized records\<close>

lemma spoiled_forever:
  assumes "verify_receipts env kr None 0 (xs @ [row] @ ys) = Inr (Inr (p, n))"
  shows "length (ar_body row) \<le> MAX_CANONICAL_BODY_BYTES"
proof -
  obtain p' c' h where "check_receipt env kr p' (c' + 1) row = Inr (Inr h)"
    using assms by (auto simp: verify_receipts_append split: sum.splits)
  then show ?thesis by (auto simp: check_receipt_def split: if_splits option.splits)
qed

lemma row_spoils: "row \<in> set (receipts db) \<Longrightarrow> length (ar_body row) > MAX_CANONICAL_BODY_BYTES \<Longrightarrow> verify env kr db = Inr v \<Longrightarrow> \<not> av_valid v"
proof
  assume r: "row \<in> set (receipts db)" "length (ar_body row) > MAX_CANONICAL_BODY_BYTES" and v: "verify env kr db = Inr v" "av_valid v"
  have "row \<in> set (by_ordinal (receipts db))" using r by (simp add: by_ordinal_def)
  then obtain xs ys where s: "by_ordinal (receipts db) = xs @ [row] @ ys" by (auto dest: split_list)
  show False using spoiled_forever [of env kr xs row ys] verify_valid [OF v] r(2) unfolding s by auto
qed

lemma append_receipt_rows: "append_receipt env l i d db = Inr (row, db') \<Longrightarrow> receipts db' = receipts db @ [row] \<and> ar_body row = a_canon env d"
  by (auto simp: append_receipt_def compute_chain_values_def bindE_eq_Inr Let_def)

lemma audit_apply_rows:
  assumes "audit_apply env op db = (r, db')" shows "set (receipts db) \<subseteq> set (receipts db')"
proof (cases op)
  case (Append l i d)
  show ?thesis
  proof (cases "append_receipt env l i d db")
    case (Inr x)
    then show ?thesis using assms Append append_receipt_rows [of env l i d db "fst x" "snd x"] by (cases x) (auto simp: audit_apply_def)
  qed (use assms Append in \<open>simp add: audit_apply_def\<close>)
next
  case (Seal l i lo hi now)
  show ?thesis
  proof (cases "seal l i lo hi now db")
    case (Inr x)
    then show ?thesis using assms Seal seal_segment [of l i lo hi now db "fst x" "snd x"] by (cases x) (auto simp: audit_apply_def)
  qed (use assms Seal in \<open>simp add: audit_apply_def\<close>)
qed

lemma audit_run_keeps_rows: "audit_run env ops db = (results, db') \<Longrightarrow> set (receipts db) \<subseteq> set (receipts db')"
proof (induction ops arbitrary: db results)
  case (Cons op ops)
  obtain r db1 where r: "audit_apply env op db = (r, db1)" by (cases "audit_apply env op db")
  obtain rest where rest: "audit_run env ops db1 = (rest, db')" using Cons.prems r by (cases "audit_run env ops db1") simp
  show ?case using Cons.IH [OF rest] audit_apply_rows [OF r] by blast
qed simp

subsection \<open>Properties\<close>

text \<open>C10: Every log the ledger writes verifies. After any sequence of appends and seals, with any keys the verifier knows, verification
  accepts the log and counts exactly the appends that succeeded, provided the drafts fit the verifier's size limit and parse back
  from their canonical form, and the hash functions return 32 bytes.\<close>

theorem audit_log_verifies:
  assumes "hash_law env" "distinct (map fst keys)" "list_all (op_ok env keys) ops" "audit_run env ops \<lparr>receipts = [], segments = []\<rparr> = (results, db)"
  shows "\<exists>h. verify env (verifier_init keys) db
    = Inr \<lparr>av_valid = True, av_count = int (length (filter is_receipt results)), av_terminal = h, av_reason = ''ok''\<rparr>"
proof -
  have "log_ok env (verifier_init keys) \<lparr>receipts = [], segments = []\<rparr>" by (simp add: log_ok_def)
  then have "log_ok env (verifier_init keys) db" "length (receipts db) = length (filter is_receipt results)"
    using audit_run_keeps [OF assms(1,2) _ assms(3,4)] by simp_all
  then show ?thesis using log_ok_verifies [of env "verifier_init keys" db] by simp
qed


text \<open>C39: The ledger accepts a draft whose canonical form is longer than the verifier's limit of 65536 bytes, and from then on no log
  that extends it verifies, whatever is appended or sealed afterwards and whatever keys the verifier has.\<close>

theorem oversized_record_spoils_log:
  assumes "append_receipt env ledger rid draft db = Inr (row, db1)" "length (a_canon env draft) > 65536" "audit_run env ops db1 = (results, db')"
    "verify env kr db' = Inr v"
  shows "\<not> av_valid v"
proof -
  have row: "ar_body row = a_canon env draft" "row \<in> set (receipts db1)"
    using append_receipt_rows [OF assms(1)] by simp_all
  then have "row \<in> set (receipts db')" using audit_run_keeps_rows [OF assms(3)] by blast
  then show ?thesis using row_spoils [OF _ _ assms(4), of row] row(1) assms(2) by (simp add: MAX_CANONICAL_BODY_BYTES_def)
qed

subsection \<open>Concrete logs\<close>

definition ex_draft :: audit_draft where
  "ex_draft = \<lparr>ad_event = 1, ad_occurred = 100, ad_actor = ''owner'', ad_action = ''consent.granted'', ad_outcome = ''ok'', ad_reason = ''request'',
     ad_correlation = 2, ad_commitment_key = ''key-0001'', ad_commitment = ''AA''\<rparr>"

definition ex_body :: bytes where "ex_body = [123, 125]"

definition ex_audit_env :: audit_env where
  "ex_audit_env = \<lparr>a_canon = (\<lambda>d. if d = ex_draft then ex_body else replicate 65537 32), a_validate = (\<lambda>b. if b = ex_body then Some ex_draft else None),
     a_sha256 = (\<lambda>b. replicate 31 0 @ [word_of_nat (length b)]), a_hmac = (\<lambda>k b. replicate 32 1), a_json_valid = (\<lambda>_. True)\<rparr>"

definition ex_ledger :: audit_ledger where "ex_ledger = \<lparr>al_key_id = ''key-0001'', al_key = replicate 32 7\<rparr>"

definition ex_keys :: "(string \<times> bytes) list" where "ex_keys = [(''key-0001'', replicate 32 7)]"

definition ex_ops :: "audit_op list" where
  "ex_ops = [Append ex_ledger 1 ex_draft, Append ex_ledger 2 ex_draft, Append ex_ledger 2 ex_draft, Seal ex_ledger 3 1 2 500, Append ex_ledger 4 ex_draft]"

definition ex_log :: "(audit_error + audit_done) list \<times> audit_db" where
  "ex_log = audit_run ex_audit_env ex_ops \<lparr>receipts = [], segments = []\<rparr>"

lemma ex_hash_law: "hash_law ex_audit_env"
  by (simp add: hash_law_def ex_audit_env_def)

lemma ex_ops_ok: "list_all (op_ok ex_audit_env ex_keys) ex_ops"
proof -
  have "draft_ok ex_audit_env ex_draft" by (simp add: draft_ok_def ex_audit_env_def ex_body_def MAX_CANONICAL_BODY_BYTES_def parser_eval)
  then show ?thesis by (simp add: ex_ops_def ex_ledger_def ex_keys_def)
qed

lemma ex_log_results: "map is_receipt (fst ex_log) = [True, True, False, False, True]" "length (segments (snd ex_log)) = 1"
  by code_simp+

theorem audit_log_verifies_witness:
  "\<exists>h. verify ex_audit_env (verifier_init ex_keys) (snd ex_log) = Inr \<lparr>av_valid = True, av_count = 3, av_terminal = h, av_reason = ''ok''\<rparr>"
proof -
  have "length (filter is_receipt (fst ex_log)) = length (filter id (map is_receipt (fst ex_log)))" by (simp add: filter_map)
  also have "\<dots> = 3" by (simp add: ex_log_results)
  finally have n: "length (filter is_receipt (fst ex_log)) = 3" .
  show ?thesis using audit_log_verifies [OF ex_hash_law _ ex_ops_ok, of "fst ex_log" "snd ex_log"] n by (simp add: ex_keys_def ex_log_def)
qed



definition ex_long :: audit_draft where "ex_long = ex_draft\<lparr>ad_actor := ''a very long name''\<rparr>"

theorem oversized_record_spoils_log_witness:
  "\<exists>row db v. append_receipt ex_audit_env ex_ledger 9 ex_long \<lparr>receipts = [], segments = []\<rparr> = Inr (row, db)
    \<and> verify ex_audit_env (verifier_init ex_keys) db = Inr v \<and> \<not> av_valid v"
proof -
  have ne: "ex_long \<noteq> ex_draft" by (simp add: ex_long_def ex_draft_def)
  have k: "valid_key_id ''key-0001''" by code_simp
  obtain row db where r: "append_receipt ex_audit_env ex_ledger 9 ex_long \<lparr>receipts = [], segments = []\<rparr> = Inr (row, db)"
    "db = \<lparr>receipts = [row], segments = []\<rparr>" "ar_key_id row = ''key-0001''" "ar_ordinal row = 1" "ar_previous row = None" "valid_public_hash (ar_public row)"
    "valid_hmac_b64 (ar_mac row)" "length (ar_body row) = 65537"
    using ne k by (simp add: append_receipt_def by_ordinal_def compute_chain_values_def require_hmac_material_def ex_audit_env_def ex_ledger_def Let_def receipt_check_def
        valid_hmac_key_def MAX_AUDIT_ORDINAL_def public_hash_valid mac_valid)
  obtain v where v: "verify ex_audit_env (verifier_init ex_keys) db = Inr v"
    using r k by (simp add: verify_def by_ordinal_def check_receipt_def verifier_init_def ex_keys_def valid_hmac_key_def MAX_CANONICAL_BODY_BYTES_def)
  have run: "audit_run ex_audit_env [] db = ([], db)" by simp
  have "length (a_canon ex_audit_env ex_long) > 65536" using ne by (simp add: ex_audit_env_def)
  then have "\<not> av_valid v" by (rule oversized_record_spoils_log [OF r(1) _ run v])
  then show ?thesis using r(1) v by blast
qed

end
