(* ===== verification/Route_Authorization.thy ===== *)
theory Route_Authorization
  imports Budget_Guard Audit_Ledger "HOL-Library.List_Lexorder" "HOL-Library.Char_ord"
begin

text \<open>
  Route authorizations (\<^verbatim>\<open>services/providers/route_authorization.py\<close>, \<^verbatim>\<open>route_verifier.py\<close>, \<^verbatim>\<open>review.py\<close>): issuing a
  short-lived authorization for one provider call, consuming it once, and deleting the unused ones of a revoked subject.
  The settings table is kept as text keys and text values here, because the revocation scans keys in text order.

  Canonical printing and parsing of the stored records, SQLite's \<^verbatim>\<open>json_extract\<close>, the subject and consent verifiers and the
  runtime identity reader are parameters. A unit of work is one step, as in the budget tables.
\<close>

subsection \<open>Identifiers as text\<close>

definition uuid_text :: "uuid \<Rightarrow> string" where
  "uuid_text u =
     (let h = bytes_hex (be_bytes 16 (unat u)) in
      take 8 h @ ''-'' @ take 4 (drop 8 h) @ ''-'' @ take 4 (drop 12 h) @ ''-'' @ take 4 (drop 16 h) @ ''-'' @ drop 20 h)"

definition uuid_parse :: "string \<Rightarrow> uuid option" where
  "uuid_parse s =
     (case bytes_fromhex (filter (\<lambda>c. c \<noteq> CHR ''-'') s) of
        None \<Rightarrow> None
      | Some b \<Rightarrow> if length b = 16 then Some (word_of_nat (be_nat b)) else None)"

definition ROUTE_PREFIX :: string where "ROUTE_PREFIX = ''route.authorization.''"

definition runtime_key :: "uuid \<Rightarrow> string" where "runtime_key aid = ROUTE_PREFIX @ uuid_text aid"

definition authorization_id_from_runtime_key :: "string \<Rightarrow> uuid option" where
  "authorization_id_from_runtime_key key =
     (if take (length ROUTE_PREFIX) key \<noteq> ROUTE_PREFIX then None
      else let suffix = drop (length ROUTE_PREFIX) key in
        case uuid_parse suffix of None \<Rightarrow> None | Some u \<Rightarrow> if uuid_text u = suffix then Some u else None)"

subsection \<open>Records\<close>

type_synonym commitment = "string \<times> string \<times> string"

record qwen_binding =
  qb_owner_activation :: commitment
  qb_evaluation_report :: commitment
  qb_endpoint_authority :: commitment
  qb_pricing_schedule :: commitment
  qb_probe_receipt :: uuid
  qb_probe_generation :: int
  qb_probe_commitment :: commitment
  qb_probe_expires_at :: instant
  qb_workspace :: string
  qb_base_url :: string
  qb_endpoint_review_version :: int
  qb_endpoint_sha256 :: string
  qb_pricing_version :: string
  qb_price_sha256 :: string
  qb_fx_version :: string
  qb_fx_micros :: int
  qb_fx_source :: string
  qb_fx_sha256 :: string
  qb_fx_record :: commitment
  qb_terms_version :: int
  qb_terms_sha256 :: string
  qb_expires_at :: instant

definition exact_endpoint_and_expiry :: "qwen_binding \<Rightarrow> budget_error + unit" where
  "exact_endpoint_and_expiry q =
     bindE (require (qb_base_url q = ''https://'' @ qb_workspace q @ ''.ap-southeast-1.maas.aliyuncs.com/compatible-mode/v1'')
              (ValueErr ''qwen_route_activation_endpoint_mismatch'')) (\<lambda>_.
     require (qb_expires_at q \<le> qb_probe_expires_at q) (ValueErr ''qwen_route_activation_expiry_mismatch''))"

record route_request =
  rr_request :: uuid
  rr_attempt :: uuid
  rr_purpose :: route_purpose
  rr_household :: uuid
  rr_subject :: "uuid option"
  rr_session :: uuid
  rr_turn :: uuid
  rr_provider :: string
  rr_model :: string
  rr_commitment :: commitment
  rr_max_input_bytes :: int
  rr_max_input_units :: int
  rr_privacy :: uuid
  rr_consents :: "uuid list"
  rr_reservation :: uuid
  rr_sensitivity :: nat

text \<open>The authorization of the gateway's theory with the two receipt fields that only this service reads.\<close>

record route_grant =
  gr_route :: route_authorization
  gr_privacy :: uuid
  gr_consents :: "uuid list"

definition authorization_from_request :: "route_request \<Rightarrow> uuid \<Rightarrow> instant \<Rightarrow> route_grant" where
  "authorization_from_request q aid expires_at =
     \<lparr>gr_route = \<lparr>rt_authorization = aid, rt_request = rr_request q, rt_attempt = rr_attempt q, rt_purpose = rr_purpose q,
                  rt_household = rr_household q, rt_subject = rr_subject q, rt_session = rr_session q, rt_turn = rr_turn q,
                  rt_provider = rr_provider q, rt_model = rr_model q, rt_commitment = rr_commitment q,
                  rt_max_input_bytes = rr_max_input_bytes q, rt_max_input_units = rr_max_input_units q,
                  rt_reservation = rr_reservation q, rt_sensitivity = rr_sensitivity q, rt_expires_at = expires_at\<rparr>,
      gr_privacy = rr_privacy q, gr_consents = rr_consents q\<rparr>"

record authorization_envelope =
  ae_grant :: route_grant
  ae_generation :: "int option"
  ae_qwen :: "qwen_binding option"

abbreviation ae_route :: "authorization_envelope \<Rightarrow> route_authorization" where "ae_route en \<equiv> gr_route (ae_grant en)"

definition bindings_match_route :: "authorization_envelope \<Rightarrow> budget_error + unit" where
  "bindings_match_route en =
     bindE (require ((rt_subject (ae_route en) = None) = (ae_generation en = None)) (ValueErr ''route_subject_authority_generation_mismatch'')) (\<lambda>_.
     bindE (require ((rt_provider (ae_route en) = ''qwen'') = (ae_qwen en \<noteq> None)) (ValueErr ''route_qwen_activation_binding_mismatch'')) (\<lambda>_.
     require (ae_qwen en = None \<or> rt_model (ae_route en) = ''qwen3.7-plus'') (ValueErr ''route_qwen_activation_binding_mismatch'')))"

record privacy_binding =
  pb_receipt :: uuid
  pb_turn :: uuid
  pb_expires_at :: instant

record hard_limit =
  hl_project :: string
  hl_threshold :: int
  hl_evidence :: string
  hl_settings :: string
  hl_credential_kind :: string
  hl_admin_key :: bool

record provider_review =
  pv_expires_at :: instant
  pv_purposes :: "route_purpose list"
  pv_models :: "string list"
  pv_limit :: hard_limit

record provider_identity =
  pi_project :: string
  pi_credential_kind :: string
  pi_admin_key :: bool

subsection \<open>Tables and parameters\<close>

record setting_row =
  st_key :: string
  st_value :: string
  st_updated :: instant

record idempotency_row =
  id_id :: uuid
  id_operation :: string
  id_scope :: uuid
  id_key :: uuid
  id_seen :: instant
  id_expires :: instant

record session_row =
  ss_id :: uuid
  ss_household :: uuid
  ss_state :: string
  ss_speaker :: "uuid option"
  ss_closed :: "instant option"

record route_db =
  rd_settings :: "setting_row list"
  rd_receipts :: "idempotency_row list"
  rd_sessions :: "session_row list"
  rd_reservations :: "reservation_row list"

text \<open>
  \<open>w_parse_envelope\<close> is the bounded canonical parse with the field types; the envelope's own validators are modelled.
  \<open>w_route_text\<close> is what \<^verbatim>\<open>json_type\<close> and \<^verbatim>\<open>json_extract\<close> read at \<^verbatim>\<open>$.route.subject_id\<close> and \<^verbatim>\<open>$.route.purpose\<close> where they are text.
  The other parameters parse and commit to the records named.
\<close>

record route_env =
  w_print :: "authorization_envelope \<Rightarrow> string"
  w_parse_envelope :: "string \<Rightarrow> authorization_envelope option"
  w_route_text :: "string \<Rightarrow> string option \<times> string option"
  w_json_valid :: "string \<Rightarrow> bool"
  w_parse_privacy :: "string \<Rightarrow> privacy_binding option"
  w_parse_review :: "string \<Rightarrow> provider_review option"
  w_limit_commitment :: "hard_limit \<Rightarrow> string"
  w_parse_usage :: "usage_category \<Rightarrow> string \<Rightarrow> usage_units option"

text \<open>The injected verifiers, as they answer during one operation; no answer of \<open>o_subject\<close> or \<open>o_identity\<close> is an exception.\<close>

record route_ports =
  o_subject :: "uuid \<Rightarrow> uuid \<Rightarrow> int option \<Rightarrow> int option"
  o_consent :: "uuid \<Rightarrow> uuid option \<Rightarrow> uuid \<Rightarrow> route_purpose \<Rightarrow> uuid list \<Rightarrow> budget_error + unit"
  o_identity :: "string \<Rightarrow> provider_identity option"

definition ROUTE_TTL :: instant where "ROUTE_TTL = 30000000"
definition REVOCATION_SCAN_BATCH_SIZE :: nat where "REVOCATION_SCAN_BATCH_SIZE = 128"
definition ISSUE_OPERATION :: string where "ISSUE_OPERATION = ''provider.route.authorize''"
definition CONSUME_OPERATION :: string where "CONSUME_OPERATION = ''provider.route.consume''"
definition REVIEW_MAX_AGE :: instant where "REVIEW_MAX_AGE = 90 * 86400 * 1000000"
definition OPENAI_REVIEW_KEY :: string where "OPENAI_REVIEW_KEY = ''provider.review.openai''"

definition OPENAI_ROUTES :: "(route_purpose \<times> string) list" where
  "OPENAI_ROUTES = [(CloudStt, ''gpt-transcribe''), (CloudReasoning, ''gpt-5.6-sol''), (CloudTts, ''tts-1'')]"

fun purpose_text :: "route_purpose \<Rightarrow> string" where
  "purpose_text CloudStt = ''cloud_stt''"
| "purpose_text CloudReasoning = ''cloud_reasoning''"
| "purpose_text CloudTts = ''cloud_tts''"

subsection \<open>Reading the tables\<close>

definition select_setting :: "string \<Rightarrow> route_db \<Rightarrow> setting_row option" where
  "select_setting key db = find (\<lambda>s. st_key s = key) (rd_settings db)"

definition parse_persisted_route_envelope :: "route_env \<Rightarrow> string \<Rightarrow> budget_error + authorization_envelope" where
  "parse_persisted_route_envelope env raw =
     (case w_parse_envelope env raw of
        None \<Rightarrow> Inl (PermissionErr ''route_authorization_corrupt'')
      | Some en \<Rightarrow>
          (case bindE (case ae_qwen en of None \<Rightarrow> Inr () | Some q \<Rightarrow> exact_endpoint_and_expiry q) (\<lambda>_. bindings_match_route en) of
             Inl _ \<Rightarrow> Inl (PermissionErr ''route_authorization_corrupt'')
           | Inr _ \<Rightarrow> Inr en))"

definition zero_or_one :: "nat \<Rightarrow> budget_error + bool" where
  "zero_or_one n = (if n \<notin> {0, 1} then Inl (RuntimeErr ''invalid route consumption state'') else Inr (n = 1))"

definition idempotency_exists :: "string \<Rightarrow> uuid \<Rightarrow> uuid \<Rightarrow> route_db \<Rightarrow> budget_error + bool" where
  "idempotency_exists operation household key db =
     zero_or_one (length (filter (\<lambda>r. id_operation r = operation \<and> id_scope r = household \<and> id_key r = key) (rd_receipts db)))"

definition consumption_exists :: "uuid \<Rightarrow> uuid \<Rightarrow> route_db \<Rightarrow> budget_error + bool" where
  "consumption_exists household aid db = idempotency_exists CONSUME_OPERATION household aid db"

definition count_consumptions :: "uuid \<Rightarrow> route_db \<Rightarrow> nat" where
  "count_consumptions aid db = length (filter (\<lambda>r. id_operation r = CONSUME_OPERATION \<and> id_key r = aid) (rd_receipts db))"

definition consumption_exists_any_scope :: "uuid \<Rightarrow> route_db \<Rightarrow> budget_error + bool" where
  "consumption_exists_any_scope aid db =
     zero_or_one (length (filter (\<lambda>r. id_operation r = CONSUME_OPERATION \<and> id_key r = aid) (rd_receipts db)))"

definition require_privacy_receipt :: "route_env \<Rightarrow> uuid \<Rightarrow> uuid \<Rightarrow> instant \<Rightarrow> route_db \<Rightarrow> budget_error + unit" where
  "require_privacy_receipt env receipt turn now db =
     (case select_setting (''privacy.receipt.'' @ uuid_text receipt) db of
        None \<Rightarrow> Inl (PermissionErr ''route_invalidated:privacy'')
      | Some row \<Rightarrow>
          (case w_parse_privacy env (st_value row) of
             None \<Rightarrow> Inl (PermissionErr ''route_invalidated:privacy'')
           | Some p \<Rightarrow>
               if pb_receipt p \<noteq> receipt \<or> pb_turn p \<noteq> turn \<or> now \<ge> pb_expires_at p
               then Inl (PermissionErr ''route_invalidated:privacy'') else Inr ()))"

fun usage_input_units :: "usage_units \<Rightarrow> budget_error + int" where
  "usage_input_units (LlmUsageUnits i _) = Inr i"
| "usage_input_units (SttUsageUnits n) = Inr n"
| "usage_input_units (TtsUsageUnits n) = Inr n"
| "usage_input_units (WebSearchUsageUnits _ _ _) = Inl (PermissionErr ''route_invalidated:budget_reservation'')"

definition reservation_open ::
    "uuid \<Rightarrow> uuid \<Rightarrow> uuid \<Rightarrow> string \<Rightarrow> string \<Rightarrow> usage_category \<Rightarrow> instant \<Rightarrow> reservation_row \<Rightarrow> bool" where
  "reservation_open rid request attempt provider model category now r \<longleftrightarrow>
     r_id r = rid \<and> r_request r = request \<and> r_attempt r = attempt \<and> r_provider r = provider \<and> r_model r = model \<and> r_category r = category
     \<and> r_outcome r \<in> allowing \<and> r_state r = Reserved \<and> r_phase r = NotClaimed \<and> r_ordering r = 1 \<and> r_reserved r > 0
     \<and> r_price r \<noteq> None \<and> r_charged r = None \<and> r_settled_at r = None \<and> r_expires_at r > now"

definition require_budget_reservation :: "route_env \<Rightarrow> route_authorization \<Rightarrow> instant \<Rightarrow> route_db \<Rightarrow> budget_error + unit" where
  "require_budget_reservation env rt now db =
     (let category = purpose_category (rt_purpose rt) in
      case find (reservation_open (rt_reservation rt) (rt_request rt) (rt_attempt rt) (rt_provider rt) (rt_model rt) category now) (rd_reservations db) of
        None \<Rightarrow> Inl (PermissionErr ''route_invalidated:budget_reservation'')
      | Some r \<Rightarrow>
          (case w_parse_usage env category (r_usage_json r) of
             None \<Rightarrow> Inl (PermissionErr ''route_invalidated:budget_reservation'')
           | Some usage \<Rightarrow>
               bindE (usage_input_units usage) (\<lambda>n.
               require (n = rt_max_input_units rt) (PermissionErr ''route_invalidated:budget_reservation''))))"

definition require_active_session :: "route_authorization \<Rightarrow> route_db \<Rightarrow> budget_error + unit" where
  "require_active_session rt db =
     require (list_ex (\<lambda>s. ss_id s = rt_session rt \<and> ss_household s = rt_household rt \<and> ss_state s = ''active'' \<and> ss_closed s = None
                         \<and> ss_speaker s = rt_subject rt) (rd_sessions db))
       (PermissionErr ''route_invalidated:turn'')"

definition review_require_current ::
    "route_env \<Rightarrow> route_ports \<Rightarrow> string \<Rightarrow> string \<Rightarrow> route_purpose \<Rightarrow> instant \<Rightarrow> route_db \<Rightarrow> budget_error + provider_review" where
  "review_require_current env ports provider model purpose now db =
     (let stale = Inl (PermissionErr ''provider_review_not_current'') in
      if provider \<noteq> ''openai'' then stale
      else case select_setting OPENAI_REVIEW_KEY db of None \<Rightarrow> stale
      | Some row \<Rightarrow>
        (case w_parse_review env (st_value row) of None \<Rightarrow> stale
         | Some review \<Rightarrow>
           if st_updated row > now \<or> pv_expires_at review > st_updated row + REVIEW_MAX_AGE \<or> now \<ge> pv_expires_at review
              \<or> model \<notin> set (pv_models review) \<or> purpose \<notin> set (pv_purposes review) \<or> (purpose, model) \<notin> set OPENAI_ROUTES
           then stale
           else case o_identity ports provider of None \<Rightarrow> stale
           | Some ident \<Rightarrow>
             if \<not> valid_public_hash (pi_project ident) then stale
             else let limit = pv_limit review in
               if hl_settings limit \<noteq> w_limit_commitment env limit \<or> hl_project limit \<noteq> pi_project ident
                  \<or> hl_credential_kind limit \<noteq> pi_credential_kind ident \<or> hl_admin_key limit \<noteq> pi_admin_key ident
                  \<or> pi_credential_kind ident \<noteq> ''project_service_account'' \<or> pi_admin_key ident
               then stale else Inr review))"

definition provider_review_gate ::
    "route_env \<Rightarrow> route_ports \<Rightarrow> string \<Rightarrow> string \<Rightarrow> route_purpose \<Rightarrow> instant \<Rightarrow> route_db \<Rightarrow> budget_error + unit" where
  "provider_review_gate env ports provider model purpose now db =
     (case review_require_current env ports provider model purpose now db of
        Inl _ \<Rightarrow> Inl (PermissionErr ''route_invalidated:provider_review'') | Inr _ \<Rightarrow> Inr ())"

subsection \<open>The gates\<close>

definition require_current_subject_authority :: "route_ports \<Rightarrow> uuid \<Rightarrow> uuid option \<Rightarrow> int option \<Rightarrow> budget_error + int option" where
  "require_current_subject_authority ports household subject expected =
     (case subject of
        None \<Rightarrow> bindE (require (expected = None) (PermissionErr ''route_invalidated:subject_authority'')) (\<lambda>_. Inr None)
      | Some s \<Rightarrow>
          (case o_subject ports household s expected of
             None \<Rightarrow> Inl (PermissionErr ''route_invalidated:subject_authority'')
           | Some g \<Rightarrow>
               if g < 1 \<or> (expected \<noteq> None \<and> Some g \<noteq> expected) then Inl (PermissionErr ''route_invalidated:subject_authority'')
               else Inr (Some g)))"

definition starts_with :: "string \<Rightarrow> string \<Rightarrow> bool" where
  "starts_with p s \<longleftrightarrow> take (length p) s = p"

definition require_current_consent ::
    "route_ports \<Rightarrow> uuid \<Rightarrow> uuid option \<Rightarrow> uuid \<Rightarrow> route_purpose \<Rightarrow> uuid list \<Rightarrow> budget_error + unit" where
  "require_current_consent ports household subject session purpose consents =
     (case o_consent ports household subject session purpose consents of
        Inr _ \<Rightarrow> Inr ()
      | Inl (PermissionErr m) \<Rightarrow>
          if starts_with ''consent_required:'' m \<or> starts_with ''guest_session_consent_required:'' m then Inl (PermissionErr m)
          else Inl (PermissionErr ''route_invalidated:consent'')
      | Inl _ \<Rightarrow> Inl (PermissionErr ''route_invalidated:consent''))"

definition require_provider_review ::
    "route_env \<Rightarrow> route_ports \<Rightarrow> string \<Rightarrow> string \<Rightarrow> route_purpose \<Rightarrow> instant \<Rightarrow> route_db \<Rightarrow> budget_error + unit" where
  "require_provider_review env ports provider model purpose now db =
     (if provider = ''qwen'' then Inl (PermissionErr ''route_invalidated:qwen_activation'')
      else provider_review_gate env ports provider model purpose now db)"

definition require_provider_activation :: "string \<Rightarrow> qwen_binding option \<Rightarrow> budget_error + qwen_binding option" where
  "require_provider_activation provider expected =
     (if provider = ''qwen'' then Inl (PermissionErr ''route_invalidated:qwen_activation'')
      else if provider \<noteq> ''openai'' \<or> expected \<noteq> None then Inl (PermissionErr ''route_invalidated:qwen_activation'')
      else Inr None)"

definition require_runtime_state :: "route_env \<Rightarrow> route_ports \<Rightarrow> authorization_envelope \<Rightarrow> instant \<Rightarrow> route_db \<Rightarrow> budget_error + unit" where
  "require_runtime_state env ports en now db =
     (let rt = ae_route en in
      bindE (require_active_session rt db) (\<lambda>_.
      bindE (require_privacy_receipt env (gr_privacy (ae_grant en)) (rt_turn rt) now db) (\<lambda>_.
      bindE (require (\<not> (rt_provider rt = ''qwen'' \<or> ae_qwen en \<noteq> None)) (PermissionErr ''route_invalidated:qwen_activation'')) (\<lambda>_.
      bindE (provider_review_gate env ports (rt_provider rt) (rt_model rt) (rt_purpose rt) now db) (\<lambda>_.
      require_budget_reservation env rt now db)))))"

subsection \<open>Authorizing and consuming\<close>

text \<open>\<open>clk i\<close> is the \<open>i\<close>-th reading of the clock within one operation.\<close>

definition insert_setting_row :: "route_env \<Rightarrow> setting_row \<Rightarrow> route_db \<Rightarrow> budget_error + route_db" where
  "insert_setting_row env row db =
     bindE (sql_insert (\<lambda>s. w_json_valid env (st_value s)) (\<lambda>x s. st_key x = st_key s) row (rd_settings db)) (\<lambda>rows.
     Inr (db\<lparr>rd_settings := rows\<rparr>))"

definition idempotency_conflict :: "idempotency_row \<Rightarrow> idempotency_row \<Rightarrow> bool" where
  "idempotency_conflict x r \<longleftrightarrow>
     id_id x = id_id r \<or> id_operation x = id_operation r \<and> id_scope x = id_scope r \<and> id_key x = id_key r"

definition insert_receipt_row :: "idempotency_row \<Rightarrow> route_db \<Rightarrow> budget_error + route_db" where
  "insert_receipt_row row db =
     bindE (sql_insert (\<lambda>_. True) idempotency_conflict row (rd_receipts db)) (\<lambda>rows. Inr (db\<lparr>rd_receipts := rows\<rparr>))"

definition persist_authorization ::
    "route_env \<Rightarrow> route_ports \<Rightarrow> (nat \<Rightarrow> instant) \<Rightarrow> uuid \<Rightarrow> authorization_envelope \<Rightarrow> route_db \<Rightarrow> budget_error + route_db" where
  "persist_authorization env ports clk receipt_id en db =
     (let rt = ae_route en; writer_now = clk 4; persisted_at = clk 5 in
      bindE (require (\<not> writer_now < clk 3) (RuntimeErr ''route authorization clock moved backwards'')) (\<lambda>_.
      bindE (require (\<not> writer_now \<ge> rt_expires_at rt) (PermissionErr ''route_authorization_expired'')) (\<lambda>_.
      bindE (require_runtime_state env ports en writer_now db) (\<lambda>_.
      bindE (require (\<not> persisted_at < writer_now) (RuntimeErr ''route authorization clock moved backwards'')) (\<lambda>_.
      bindE (require (\<not> persisted_at \<ge> rt_expires_at rt) (PermissionErr ''route_authorization_expired'')) (\<lambda>_.
      bindE (insert_setting_row env \<lparr>st_key = runtime_key (rt_authorization rt), st_value = w_print env en, st_updated = persisted_at\<rparr> db) (\<lambda>db1.
      insert_receipt_row \<lparr>id_id = receipt_id, id_operation = ISSUE_OPERATION, id_scope = rt_household rt, id_key = rt_attempt rt,
                          id_seen = persisted_at, id_expires = rt_expires_at rt\<rparr> db1)))))))"

definition authorize_locked ::
    "route_env \<Rightarrow> route_ports \<Rightarrow> (nat \<Rightarrow> instant) \<Rightarrow> uuid \<Rightarrow> uuid \<Rightarrow> route_request \<Rightarrow> route_db \<Rightarrow> budget_error + (route_grant \<times> route_db)" where
  "authorize_locked env ports clk aid receipt_id q db =
     bindE (idempotency_exists ISSUE_OPERATION (rr_household q) (rr_attempt q) db) (\<lambda>already_issued.
     bindE (require (\<not> already_issued) (PermissionErr ''route_authorization_already_issued'')) (\<lambda>_.
     bindE (require_current_subject_authority ports (rr_household q) (rr_subject q) None) (\<lambda>generation.
     bindE (require_current_consent ports (rr_household q) (rr_subject q) (rr_session q) (rr_purpose q) (rr_consents q)) (\<lambda>_.
     bindE (require_privacy_receipt env (rr_privacy q) (rr_turn q) (clk 0) db) (\<lambda>_.
     bindE (require_provider_review env ports (rr_provider q) (rr_model q) (rr_purpose q) (clk 1) db) (\<lambda>_.
     bindE (require_provider_activation (rr_provider q) None) (\<lambda>qwen.
     let grant = authorization_from_request q aid (clk 3 + ROUTE_TTL);
         en = \<lparr>ae_grant = grant, ae_generation = generation, ae_qwen = qwen\<rparr> in
     bindE (require_budget_reservation env (gr_route grant) (clk 2) db) (\<lambda>_.
     bindE (bindings_match_route en) (\<lambda>_.
     bindE (persist_authorization env ports clk receipt_id en db) (\<lambda>db1.
     Inr (grant, db1)))))))))))"

definition persist_consumption ::
    "route_env \<Rightarrow> route_ports \<Rightarrow> (nat \<Rightarrow> instant) \<Rightarrow> uuid \<Rightarrow> authorization_envelope \<Rightarrow> route_consumption \<Rightarrow> route_db \<Rightarrow> budget_error + route_db" where
  "persist_consumption env ports clk receipt_id en cs db =
     (let rt = ae_route en; writer_now = clk 2; receipt_now = clk 3 in
      bindE (require (\<not> writer_now < clk 1) (RuntimeErr ''route authorization clock moved backwards'')) (\<lambda>_.
      bindE (verify_route_consumption rt cs writer_now) (\<lambda>_.
      bindE (require_runtime_state env ports en writer_now db) (\<lambda>_.
      bindE (require (\<not> receipt_now < writer_now) (RuntimeErr ''route authorization clock moved backwards'')) (\<lambda>_.
      bindE (verify_route_consumption rt cs receipt_now) (\<lambda>_.
      insert_receipt_row \<lparr>id_id = receipt_id, id_operation = CONSUME_OPERATION, id_scope = rt_household rt, id_key = rt_authorization rt,
                          id_seen = receipt_now, id_expires = rt_expires_at rt\<rparr> db))))))"

definition consume_locked ::
    "route_env \<Rightarrow> route_ports \<Rightarrow> (nat \<Rightarrow> instant) \<Rightarrow> uuid \<Rightarrow> uuid \<Rightarrow> route_consumption \<Rightarrow> route_db \<Rightarrow> budget_error + (unit \<times> route_db)" where
  "consume_locked env ports clk aid receipt_id cs db =
     (case select_setting (runtime_key aid) db of
        None \<Rightarrow> Inl (PermissionErr ''route_authorization_unknown'')
      | Some row \<Rightarrow>
        bindE (parse_persisted_route_envelope env (st_value row)) (\<lambda>en.
        let rt = ae_route en in
        bindE (require (rt_authorization rt = aid) (PermissionErr ''route_authorization_corrupt'')) (\<lambda>_.
        bindE (consumption_exists (rt_household rt) (rt_authorization rt) db) (\<lambda>already_consumed.
        bindE (require (\<not> already_consumed) (PermissionErr ''route_authorization_consumed'')) (\<lambda>_.
        bindE (verify_route_consumption rt cs (clk 0)) (\<lambda>_.
        bindE (require_current_subject_authority ports (rt_household rt) (rt_subject rt) (ae_generation en)) (\<lambda>_.
        bindE (require_current_consent ports (rt_household rt) (rt_subject rt) (rt_session rt) (rt_purpose rt) (gr_consents (ae_grant en))) (\<lambda>_.
        bindE (verify_route_consumption rt cs (clk 1)) (\<lambda>_.
        bindE (persist_consumption env ports clk receipt_id en cs db) (\<lambda>db1.
        Inr ((), db1)))))))))))"

definition route_uow :: "(route_db \<Rightarrow> budget_error + ('a \<times> route_db)) \<Rightarrow> route_db \<Rightarrow> (budget_error + 'a) \<times> route_db" where
  "route_uow f db = (case f db of Inl e \<Rightarrow> (Inl e, db) | Inr (x, db') \<Rightarrow> (Inr x, db'))"

definition authorize ::
    "route_env \<Rightarrow> route_ports \<Rightarrow> (nat \<Rightarrow> instant) \<Rightarrow> uuid \<Rightarrow> uuid \<Rightarrow> route_request \<Rightarrow> route_db \<Rightarrow> (budget_error + route_grant) \<times> route_db" where
  "authorize env ports clk aid receipt_id q = route_uow (authorize_locked env ports clk aid receipt_id q)"

definition consume ::
    "route_env \<Rightarrow> route_ports \<Rightarrow> (nat \<Rightarrow> instant) \<Rightarrow> uuid \<Rightarrow> uuid \<Rightarrow> route_consumption \<Rightarrow> route_db \<Rightarrow> (budget_error + unit) \<times> route_db" where
  "consume env ports clk aid receipt_id cs = route_uow (consume_locked env ports clk aid receipt_id cs)"

subsection \<open>Revoking the unused routes of a subject\<close>

definition is_route_key :: "string \<Rightarrow> bool" where
  "is_route_key key \<longleftrightarrow> starts_with ROUTE_PREFIX key"

definition select_routes :: "route_env \<Rightarrow> uuid \<Rightarrow> route_purpose \<Rightarrow> route_db \<Rightarrow> setting_row list" where
  "select_routes env subject purpose db =
     filter (\<lambda>s. is_route_key (st_key s) \<and> w_route_text env (st_value s) = (Some (uuid_text subject), Some (purpose_text purpose))) (rd_settings db)"

definition delete_setting :: "string \<Rightarrow> route_db \<Rightarrow> budget_error + route_db" where
  "delete_setting key db =
     bindE (require (length (filter (\<lambda>s. st_key s = key) (rd_settings db)) = 1) (RuntimeErr ''route authorization revocation lost ownership'')) (\<lambda>_.
     Inr (db\<lparr>rd_settings := filter (\<lambda>s. st_key s \<noteq> key) (rd_settings db)\<rparr>))"

text \<open>A row that is not a readable envelope of its own key goes, unless its identifier was consumed.\<close>

definition drop_unreadable :: "string \<Rightarrow> route_db \<Rightarrow> budget_error + (uuid list \<times> route_db)" where
  "drop_unreadable key db =
     (let key_id = authorization_id_from_runtime_key key in
      bindE (case key_id of None \<Rightarrow> Inr False | Some aid \<Rightarrow> consumption_exists_any_scope aid db) (\<lambda>consumed.
      if consumed then Inr ([], db)
      else bindE (delete_setting key db) (\<lambda>db1. Inr (case key_id of None \<Rightarrow> [] | Some aid \<Rightarrow> [aid], db1))))"

definition drop_unused :: "uuid \<Rightarrow> route_purpose \<Rightarrow> string \<Rightarrow> route_authorization \<Rightarrow> route_db \<Rightarrow> budget_error + (uuid list \<times> route_db)" where
  "drop_unused subject purpose key rt db =
     (if rt_subject rt \<noteq> Some subject \<or> rt_purpose rt \<noteq> purpose then Inr ([], db)
      else bindE (consumption_exists (rt_household rt) (rt_authorization rt) db) (\<lambda>consumed.
        if consumed then Inr ([], db)
        else bindE (delete_setting key db) (\<lambda>db1. Inr ([rt_authorization rt], db1))))"

definition invalidate_row :: "route_env \<Rightarrow> uuid \<Rightarrow> route_purpose \<Rightarrow> setting_row \<Rightarrow> route_db \<Rightarrow> budget_error + (uuid list \<times> route_db)" where
  "invalidate_row env subject purpose row db =
     (case parse_persisted_route_envelope env (st_value row) of
        Inl _ \<Rightarrow> drop_unreadable (st_key row) db
      | Inr en \<Rightarrow>
          if st_key row \<noteq> runtime_key (rt_authorization (ae_route en)) then drop_unreadable (st_key row) db
          else drop_unused subject purpose (st_key row) (ae_route en) db)"

fun invalidate_rows :: "(setting_row \<Rightarrow> route_db \<Rightarrow> budget_error + (uuid list \<times> route_db)) \<Rightarrow> setting_row list \<Rightarrow> route_db \<Rightarrow> budget_error + (uuid list \<times> route_db)" where
  "invalidate_rows f [] db = Inr ([], db)"
| "invalidate_rows f (row # rows) db =
     bindE (f row db) (\<lambda>(ids, db1). bindE (invalidate_rows f rows db1) (\<lambda>(ids', db2). Inr (ids @ ids', db2)))"

definition invalidate_batch ::
    "route_env \<Rightarrow> uuid \<Rightarrow> route_purpose \<Rightarrow> string \<Rightarrow> route_db \<Rightarrow> budget_error + (string \<times> uuid list \<times> nat \<times> route_db)" where
  "invalidate_batch env subject purpose cursor db =
     (let rows = take REVOCATION_SCAN_BATCH_SIZE (sort_key st_key (filter (\<lambda>s. cursor < st_key s) (select_routes env subject purpose db))) in
      bindE (invalidate_rows (invalidate_row env subject purpose) rows db) (\<lambda>(ids, db1).
      Inr (last (cursor # map st_key rows), ids, length rows, db1)))"

lemma invalidate_row_shrinks:
  assumes "invalidate_row env subject purpose row db = Inr (ids, db')"
  shows "\<exists>P. db' = db\<lparr>rd_settings := filter P (rd_settings db)\<rparr>"
proof -
  have same: "\<exists>P. db = db\<lparr>rd_settings := filter P (rd_settings db)\<rparr>" by (rule exI [of _ "\<lambda>_. True"]) simp
  have del: "delete_setting k db = Inr x \<Longrightarrow> \<exists>P. x = db\<lparr>rd_settings := filter P (rd_settings db)\<rparr>" for k x
    by (auto simp: delete_setting_def bindE_eq_Inr)
  show ?thesis using assms same del
    by (auto simp: invalidate_row_def drop_unreadable_def drop_unused_def bindE_eq_Inr Let_def split: sum.splits if_splits)
qed

lemma invalidate_rows_shrinks:
  assumes "invalidate_rows (invalidate_row env subject purpose) rows db = Inr (ids, db')"
  shows "\<exists>P. db' = db\<lparr>rd_settings := filter P (rd_settings db)\<rparr>"
  using assms
proof (induction rows arbitrary: db ids)
  case Nil
  then show ?case by (intro exI [of _ "\<lambda>_. True"]) simp
next
  case (Cons row rows)
  then obtain i1 db1 i2 where 1: "invalidate_row env subject purpose row db = Inr (i1, db1)"
      and 2: "invalidate_rows (invalidate_row env subject purpose) rows db1 = Inr (i2, db')"
    by (auto simp: bindE_eq_Inr)
  obtain P Q where "db1 = db\<lparr>rd_settings := filter P (rd_settings db)\<rparr>" "db' = db1\<lparr>rd_settings := filter Q (rd_settings db1)\<rparr>"
    using invalidate_row_shrinks [OF 1] Cons.IH [OF 2] by blast
  then have "db' = db\<lparr>rd_settings := filter (\<lambda>x. P x \<and> Q x) (rd_settings db)\<rparr>" by (simp add: conj_commute)
  then show ?case by blast
qed

text \<open>A full batch moves the cursor past at least one row, and rows are only deleted, so the scan ends.\<close>

lemma batch_progress:
  assumes "invalidate_batch env subject purpose cursor db = Inr (next_cursor, ids, n, db')" "\<not> n < REVOCATION_SCAN_BATCH_SIZE"
  shows "length (filter (\<lambda>s. next_cursor < st_key s) (rd_settings db')) < length (filter (\<lambda>s. cursor < st_key s) (rd_settings db))"
proof -
  define L where "L = sort_key st_key (filter (\<lambda>s. cursor < st_key s) (select_routes env subject purpose db))"
  define rows where "rows = take REVOCATION_SCAN_BATCH_SIZE L"
  have run: "invalidate_rows (invalidate_row env subject purpose) rows db = Inr (ids, db')"
    and c: "next_cursor = last (cursor # map st_key rows)" and n: "n = length rows"
    using assms(1) by (auto simp: invalidate_batch_def Let_def bindE_eq_Inr rows_def L_def)
  have ne: "rows \<noteq> []" using assms(2) n by (auto simp: REVOCATION_SCAN_BATCH_SIZE_def)
  then have c': "next_cursor = st_key (last rows)" using c by (simp add: last_map)
  have "last rows \<in> set L" using ne by (metis in_set_takeD last_in_set rows_def)
  then have lr: "last rows \<in> set (rd_settings db)" "cursor < st_key (last rows)" by (auto simp: L_def select_routes_def)
  obtain P where P: "db' = db\<lparr>rd_settings := filter P (rd_settings db)\<rparr>" using invalidate_rows_shrinks [OF run] by blast
  let ?A = "filter (\<lambda>s. next_cursor < st_key s) (rd_settings db')"
  have "?A = filter (\<lambda>s. P s \<and> next_cursor < st_key s) (filter (\<lambda>s. cursor < st_key s) (rd_settings db))"
    using lr(2) c' by (auto simp: P intro!: filter_cong)
  moreover have "\<exists>x \<in> set (filter (\<lambda>s. cursor < st_key s) (rd_settings db)). \<not> (P x \<and> next_cursor < st_key x)"
    using lr c' by auto
  ultimately show ?thesis by (metis (mono_tags, lifting) length_filter_less)
qed

function invalidate_loop :: "route_env \<Rightarrow> uuid \<Rightarrow> route_purpose \<Rightarrow> string \<Rightarrow> route_db \<Rightarrow> budget_error + (uuid list \<times> route_db)" where
  "invalidate_loop env subject purpose cursor db =
     (case invalidate_batch env subject purpose cursor db of
        Inl e \<Rightarrow> Inl e
      | Inr (next_cursor, revoked, scanned, db1) \<Rightarrow>
          if scanned < REVOCATION_SCAN_BATCH_SIZE then Inr (revoked, db1)
          else bindE (invalidate_loop env subject purpose next_cursor db1) (\<lambda>(rest, db2). Inr (revoked @ rest, db2)))"
  by pat_completeness auto
termination
  by (relation "measure (\<lambda>(_, _, _, cursor, db). length (filter (\<lambda>s. cursor < st_key s) (rd_settings db)))")
     (auto simp: batch_progress)

declare invalidate_loop.simps [simp del]

definition invalidate_subject_purpose ::
    "route_env \<Rightarrow> uuid \<Rightarrow> route_purpose \<Rightarrow> route_db \<Rightarrow> (budget_error + uuid list) \<times> route_db" where
  "invalidate_subject_purpose env subject purpose = route_uow (invalidate_loop env subject purpose [])"

text \<open>The identity service has a second implementation, one pass in the order the table is read and without the key check.\<close>

definition revoke_row :: "route_env \<Rightarrow> uuid \<Rightarrow> route_purpose \<Rightarrow> setting_row \<Rightarrow> route_db \<Rightarrow> budget_error + (uuid list \<times> route_db)" where
  "revoke_row env subject purpose row db =
     (case parse_persisted_route_envelope env (st_value row) of
        Inl _ \<Rightarrow> drop_unreadable (st_key row) db
      | Inr en \<Rightarrow> drop_unused subject purpose (st_key row) (ae_route en) db)"

definition revoke_subject_purpose ::
    "route_env \<Rightarrow> uuid \<Rightarrow> route_purpose \<Rightarrow> route_db \<Rightarrow> (budget_error + uuid list) \<times> route_db" where
  "revoke_subject_purpose env subject purpose =
     route_uow (\<lambda>db. invalidate_rows (revoke_row env subject purpose) (select_routes env subject purpose db) db)"

end
