(* ===== verification/Route_Theorems.thy ===== *)
theory Route_Theorems
  imports Route_Authorization "HOL-Library.Multiset"
begin

text \<open>
  What route authorizations guarantee. A consumption happens at most once per authorization, for the request it was issued for and
  before it expires. Revoking a subject's routes is final. The batched revocation scan and the one-pass one do the same.
\<close>

subsection \<open>Keys\<close>

lemma hex_no_dash: "CHR ''-'' \<notin> set (bytes_hex b)"
  using hex_chars [of b] by (auto simp: HEX_DIGITS_def)

lemma uuid_pieces: "h = take 8 h @ take 4 (drop 8 h) @ take 4 (drop 12 h) @ take 4 (drop 16 h) @ drop 20 h"
proof -
  have "take 4 (drop 16 h) @ drop 20 h = drop 16 h" using append_take_drop_id [of 4 "drop 16 h"] by simp
  moreover have "take 4 (drop 12 h) @ drop 16 h = drop 12 h" using append_take_drop_id [of 4 "drop 12 h"] by simp
  moreover have "take 4 (drop 8 h) @ drop 12 h = drop 8 h" using append_take_drop_id [of 4 "drop 8 h"] by simp
  ultimately show ?thesis by simp
qed

lemma filter_piece: "CHR ''-'' \<notin> set h \<Longrightarrow> set p \<subseteq> set h \<Longrightarrow> filter (\<lambda>c. c \<noteq> CHR ''-'') p = p"
  by (auto intro!: filter_True)

lemma uuid_parse_text: "uuid_parse (uuid_text u) = Some u"
proof -
  let ?h = "bytes_hex (be_bytes 16 (unat u))"
  have sub: "set (take 8 ?h) \<subseteq> set ?h" "set (take 4 (drop 8 ?h)) \<subseteq> set ?h" "set (take 4 (drop 12 ?h)) \<subseteq> set ?h"
    "set (take 4 (drop 16 ?h)) \<subseteq> set ?h" "set (drop 20 ?h) \<subseteq> set ?h"
    by (meson set_take_subset set_drop_subset order_trans)+
  have "filter (\<lambda>c. c \<noteq> CHR ''-'') (uuid_text u) = take 8 ?h @ take 4 (drop 8 ?h) @ take 4 (drop 12 ?h) @ take 4 (drop 16 ?h) @ drop 20 ?h"
    unfolding uuid_text_def Let_def using sub [THEN filter_piece [OF hex_no_dash]] by simp
  also have "\<dots> = ?h" by (rule uuid_pieces [symmetric])
  finally have f: "filter (\<lambda>c. c \<noteq> CHR ''-'') (uuid_text u) = ?h" .
  have "unat u < 256 ^ 16" using unsigned_less [of u] by simp
  then show ?thesis by (simp add: uuid_parse_def f fromhex_hex be_nat_be_bytes_id)
qed

lemma uuid_text_inj: "uuid_text a = uuid_text b \<longleftrightarrow> a = b"
  using uuid_parse_text by (metis option.inject)

lemma runtime_key_inj [simp]: "runtime_key a = runtime_key b \<longleftrightarrow> a = b"
  by (simp add: runtime_key_def uuid_text_inj)

lemma runtime_key_route [simp]: "is_route_key (runtime_key a)"
  by (simp add: is_route_key_def starts_with_def runtime_key_def)

subsection \<open>Sweeping rows\<close>

text \<open>A sweep decides each row by the consumption receipts alone, keeps the row or deletes it and reports identifiers.\<close>

definition without :: "string list \<Rightarrow> route_db \<Rightarrow> route_db" where
  "without ks db = db\<lparr>rd_settings := filter (\<lambda>s. st_key s \<notin> set ks) (rd_settings db)\<rparr>"

lemma without_simps [simp]:
  "without [] db = db" "without ks' (without ks db) = without (ks @ ks') db" "rd_receipts (without ks db) = rd_receipts db"
  "set (rd_settings (without ks db)) = {s \<in> set (rd_settings db). st_key s \<notin> set ks}"
  by (auto simp: without_def intro!: filter_cong)

fun fates :: "(setting_row \<Rightarrow> route_db \<Rightarrow> budget_error + uuid list option) \<Rightarrow> setting_row list \<Rightarrow> route_db \<Rightarrow> budget_error + (string list \<times> uuid list)" where
  "fates F [] db = Inr ([], [])"
| "fates F (row # rows) db =
     bindE (F row db) (\<lambda>f. bindE (fates F rows db) (\<lambda>(ks, ids).
     Inr (case f of None \<Rightarrow> (ks, ids) | Some i \<Rightarrow> (st_key row # ks, i @ ids))))"

lemma fates_append:
  "fates F (xs @ ys) db = bindE (fates F xs db) (\<lambda>(ks, ids). bindE (fates F ys db) (\<lambda>(ks', ids'). Inr (ks @ ks', ids @ ids')))"
  by (induction xs) (auto simp: bindE_def split: sum.splits option.splits)

lemma fates_keys: "fates F rows db = Inr (ks, ids) \<Longrightarrow> set ks = st_key ` {s \<in> set rows. \<exists>i. F s db = Inr (Some i)}"
proof (induction rows arbitrary: ks ids)
  case (Cons row rows)
  then obtain f ks' ids' where f: "F row db = Inr f" and r: "fates F rows db = Inr (ks', ids')"
      and k: "(ks, ids) = (case f of None \<Rightarrow> (ks', ids') | Some i \<Rightarrow> (st_key row # ks', i @ ids'))"
    by (auto simp: bindE_eq_Inr)
  have "{s \<in> set (row # rows). \<exists>i. F s db = Inr (Some i)} =
      (if f = None then {} else {row}) \<union> {s \<in> set rows. \<exists>i. F s db = Inr (Some i)}"
    using f by auto
  then show ?case using Cons.IH [OF r] k by (cases f) auto
qed simp

lemma fates_total: "fates F rows db = Inr (ks, ids) \<Longrightarrow> s \<in> set rows \<Longrightarrow> \<exists>f. F s db = Inr f"
  by (induction rows arbitrary: ks ids) (auto simp: bindE_eq_Inr)

lemma filter_key:
  assumes "distinct (map f xs)" "x \<in> set xs"
  shows "filter (\<lambda>y. f y = f x) xs = [x]"
  using assms
proof (induction xs)
  case (Cons a xs)
  show ?case
  proof (cases "f a = f x")
    case True
    then have "x \<notin> set xs" using Cons.prems(1) by (metis distinct.simps(2) image_eqI list.simps(9) list.set_map)
    then have "a = x" using Cons.prems(2) by simp
    moreover have "filter (\<lambda>y. f y = f x) xs = []" using Cons.prems(1) \<open>a = x\<close> by (auto simp: filter_empty_conv image_iff)
    ultimately show ?thesis by simp
  next
    case False
    then show ?thesis using Cons by auto
  qed
qed simp

lemma delete_one:
  assumes "distinct (map st_key (rd_settings db))" "row \<in> set (rd_settings db)"
  shows "delete_setting (st_key row) db = Inr (without [st_key row] db)"
  using filter_key [OF assms] by (simp add: delete_setting_def without_def)

locale route_sweep =
  fixes sweep :: "setting_row \<Rightarrow> route_db \<Rightarrow> budget_error + (uuid list \<times> route_db)"
    and fate :: "setting_row \<Rightarrow> route_db \<Rightarrow> budget_error + uuid list option"
  assumes sweep_fate: "sweep row db = bindE (fate row db) (\<lambda>f. case f of None \<Rightarrow> Inr ([], db)
            | Some ids \<Rightarrow> bindE (delete_setting (st_key row) db) (\<lambda>db1. Inr (ids, db1)))"
    and fate_receipts: "rd_receipts db = rd_receipts db' \<Longrightarrow> fate row db = fate row db'"
begin

lemma fates_receipts: "rd_receipts db = rd_receipts db' \<Longrightarrow> fates fate rows db = fates fate rows db'"
  by (induction rows) (simp_all add: fate_receipts [of db db'])

lemma rows_fates:
  assumes "distinct (map st_key (rd_settings db))" "set rows \<subseteq> set (rd_settings db)" "distinct (map st_key rows)"
  shows "invalidate_rows sweep rows db = bindE (fates fate rows db) (\<lambda>(ks, ids). Inr (ids, without ks db))"
  using assms
proof (induction rows arbitrary: db)
  case (Cons row rows)
  have d: "delete_setting (st_key row) db = Inr (without [st_key row] db)" using Cons.prems by (intro delete_one) auto
  note sw = sweep_fate [of row db]
  show ?case
  proof (cases "fate row db")
    case (Inr f)
    show ?thesis
    proof (cases f)
      case None
      then show ?thesis using Inr Cons sw by (auto simp: bindE_def split: sum.splits)
    next
      case (Some i)
      let ?db = "without [st_key row] db"
      have "invalidate_rows sweep rows ?db = bindE (fates fate rows ?db) (\<lambda>(ks, ids). Inr (ids, without ks ?db))"
      proof (rule Cons.IH)
        show "distinct (map st_key (rd_settings ?db))" using Cons.prems(1) by (simp add: without_def distinct_map_filter)
        have "st_key x \<noteq> st_key row" if "x \<in> set rows" for x using that Cons.prems(3) by (force simp: image_iff)
        then show "set rows \<subseteq> set (rd_settings ?db)" using Cons.prems(2) by auto
      qed (use Cons.prems in simp)
      moreover have "fates fate rows ?db = fates fate rows db" by (rule fates_receipts) simp
      ultimately show ?thesis using Inr Some d sw by (auto simp: bindE_def split: sum.splits)
    qed
  qed (simp add: sw)
qed simp

end

definition unreadable_fate :: "string \<Rightarrow> route_db \<Rightarrow> budget_error + uuid list option" where
  "unreadable_fate key db =
     (let key_id = authorization_id_from_runtime_key key in
      bindE (case key_id of None \<Rightarrow> Inr False | Some aid \<Rightarrow> consumption_exists_any_scope aid db) (\<lambda>consumed.
      Inr (if consumed then None else Some (case key_id of None \<Rightarrow> [] | Some aid \<Rightarrow> [aid]))))"

definition unused_fate :: "uuid \<Rightarrow> route_purpose \<Rightarrow> route_authorization \<Rightarrow> route_db \<Rightarrow> budget_error + uuid list option" where
  "unused_fate subject purpose rt db =
     (if rt_subject rt \<noteq> Some subject \<or> rt_purpose rt \<noteq> purpose then Inr None
      else bindE (consumption_exists (rt_household rt) (rt_authorization rt) db) (\<lambda>consumed.
        Inr (if consumed then None else Some [rt_authorization rt])))"

definition invalidate_fate :: "route_env \<Rightarrow> uuid \<Rightarrow> route_purpose \<Rightarrow> setting_row \<Rightarrow> route_db \<Rightarrow> budget_error + uuid list option" where
  "invalidate_fate env subject purpose row db =
     (case parse_persisted_route_envelope env (st_value row) of
        Inl _ \<Rightarrow> unreadable_fate (st_key row) db
      | Inr en \<Rightarrow> if st_key row \<noteq> runtime_key (rt_authorization (ae_route en)) then unreadable_fate (st_key row) db
          else unused_fate subject purpose (ae_route en) db)"

definition revoke_fate :: "route_env \<Rightarrow> uuid \<Rightarrow> route_purpose \<Rightarrow> setting_row \<Rightarrow> route_db \<Rightarrow> budget_error + uuid list option" where
  "revoke_fate env subject purpose row db =
     (case parse_persisted_route_envelope env (st_value row) of
        Inl _ \<Rightarrow> unreadable_fate (st_key row) db
      | Inr en \<Rightarrow> unused_fate subject purpose (ae_route en) db)"

lemmas exists_defs = consumption_exists_any_scope_def consumption_exists_def idempotency_exists_def

lemma unreadable_fate_receipts: "rd_receipts db = rd_receipts db' \<Longrightarrow> unreadable_fate key db = unreadable_fate key db'"
  by (simp add: unreadable_fate_def exists_defs Let_def split: option.split)

lemma unused_fate_receipts: "rd_receipts db = rd_receipts db' \<Longrightarrow> unused_fate subject purpose rt db = unused_fate subject purpose rt db'"
  by (simp add: unused_fate_def exists_defs)

lemma drop_unreadable_fate:
  "drop_unreadable key db = bindE (unreadable_fate key db) (\<lambda>f. case f of None \<Rightarrow> Inr ([], db)
     | Some ids \<Rightarrow> bindE (delete_setting key db) (\<lambda>db1. Inr (ids, db1)))"
  by (simp add: drop_unreadable_def unreadable_fate_def Let_def bindE_def split: sum.split option.split)

lemma drop_unused_fate:
  "drop_unused subject purpose key rt db = bindE (unused_fate subject purpose rt db) (\<lambda>f. case f of None \<Rightarrow> Inr ([], db)
     | Some ids \<Rightarrow> bindE (delete_setting key db) (\<lambda>db1. Inr (ids, db1)))"
  by (simp add: drop_unused_def unused_fate_def bindE_def split: sum.split)

interpretation batched: route_sweep "invalidate_row env subject purpose" "invalidate_fate env subject purpose" for env subject purpose
proof
  show "invalidate_row env subject purpose row db = bindE (invalidate_fate env subject purpose row db) (\<lambda>f. case f of None \<Rightarrow> Inr ([], db)
     | Some ids \<Rightarrow> bindE (delete_setting (st_key row) db) (\<lambda>db1. Inr (ids, db1)))" for row db
    by (simp add: invalidate_row_def invalidate_fate_def drop_unreadable_fate drop_unused_fate split: sum.split)
  show "invalidate_fate env subject purpose row db = invalidate_fate env subject purpose row db'" if "rd_receipts db = rd_receipts db'" for row db db'
    using unreadable_fate_receipts [OF that] unused_fate_receipts [OF that] by (simp add: invalidate_fate_def split: sum.split)
qed

interpretation one_pass: route_sweep "revoke_row env subject purpose" "revoke_fate env subject purpose" for env subject purpose
proof
  show "revoke_row env subject purpose row db = bindE (revoke_fate env subject purpose row db) (\<lambda>f. case f of None \<Rightarrow> Inr ([], db)
     | Some ids \<Rightarrow> bindE (delete_setting (st_key row) db) (\<lambda>db1. Inr (ids, db1)))" for row db
    by (simp add: revoke_row_def revoke_fate_def drop_unreadable_fate drop_unused_fate split: sum.split)
  show "revoke_fate env subject purpose row db = revoke_fate env subject purpose row db'" if "rd_receipts db = rd_receipts db'" for row db db'
    using unreadable_fate_receipts [OF that] unused_fate_receipts [OF that] by (simp add: revoke_fate_def split: sum.split)
qed

subsection \<open>The batched scan is one sweep\<close>

definition ahead :: "route_env \<Rightarrow> uuid \<Rightarrow> route_purpose \<Rightarrow> string \<Rightarrow> route_db \<Rightarrow> setting_row list" where
  "ahead env subject purpose cursor db = sort_key st_key (filter (\<lambda>s. cursor < st_key s) (select_routes env subject purpose db))"

lemma ahead_keys:
  assumes "distinct (map st_key (rd_settings db))"
  shows "distinct (map st_key (ahead env subject purpose cursor db))" "sorted (map st_key (ahead env subject purpose cursor db))"
    "set (ahead env subject purpose cursor db) \<subseteq> set (rd_settings db)"
proof -
  have "distinct (map st_key (filter (\<lambda>s. cursor < st_key s) (select_routes env subject purpose db)))"
    using assms by (simp add: select_routes_def distinct_map_filter)
  then show "distinct (map st_key (ahead env subject purpose cursor db))"
    by (simp add: ahead_def distinct_map)
qed (auto simp: ahead_def select_routes_def)

lemma take_member: "x \<in> set (take n xs) \<Longrightarrow> \<exists>i. i < n \<and> i < length xs \<and> x = xs ! i"
  unfolding in_set_conv_nth by auto

lemma drop_member: "x \<in> set (drop n xs) \<Longrightarrow> \<exists>i. n \<le> i \<and> i < length xs \<and> x = xs ! i"
proof -
  assume "x \<in> set (drop n xs)"
  then obtain j where "j < length xs - n" "x = xs ! (n + j)" unfolding in_set_conv_nth by auto
  then show ?thesis by (intro exI [of _ "n + j"]) auto
qed

lemma beyond_prefix:
  assumes "sorted (map f xs)" "distinct (map f xs)" "0 < n" "n \<le> length xs"
  shows "filter (\<lambda>x. f (xs ! (n - 1)) < (f x :: 'k :: linorder)) xs = drop n xs"
proof -
  let ?c = "f (xs ! (n - 1))"
  have st: "sorted_wrt (<) (map f xs)" using assms(1,2) by (simp add: strict_sorted_iff)
  have lo: "\<not> ?c < f x" if x: "x \<in> set (take n xs)" for x
  proof -
    obtain i where i: "i < n" "x = xs ! i" using take_member [OF x] by blast
    then have "map f xs ! i \<le> map f xs ! (n - 1)" using assms by (intro sorted_nth_mono) auto
    then show ?thesis using i assms by simp
  qed
  have hi: "?c < f x" if x: "x \<in> set (drop n xs)" for x
  proof -
    obtain i where i: "n \<le> i" "i < length xs" "x = xs ! i" using drop_member [OF x] by blast
    then have "map f xs ! (n - 1) < map f xs ! i" using sorted_wrt_nth_less [OF st, of "n - 1" i] assms(3) by simp
    then show ?thesis using i assms by simp
  qed
  have "filter (\<lambda>x. ?c < f x) (take n xs @ drop n xs) = drop n xs"
    using lo hi by (simp only: filter_append) (simp add: filter_empty_conv filter_id_conv)
  then show ?thesis by simp
qed

lemma ahead_after:
  assumes d: "distinct (map st_key (rd_settings db))" and n: "0 < n" "n \<le> length (ahead env subject purpose cursor db)"
    and c: "c = st_key (ahead env subject purpose cursor db ! (n - 1))"
    and ks: "set ks \<subseteq> st_key ` set (take n (ahead env subject purpose cursor db))"
  shows "ahead env subject purpose c (without ks db) = drop n (ahead env subject purpose cursor db)"
proof -
  let ?L = "ahead env subject purpose cursor db"
  have mem: "?L ! (n - 1) \<in> set ?L" using n by simp
  then have cc: "cursor < c" by (auto simp: c ahead_def)
  have below: "k \<le> c" if k: "k \<in> set ks" for k
  proof -
    obtain x where x: "x \<in> set (take n ?L)" "k = st_key x" using ks k by auto
    obtain i where i: "i < n" "x = ?L ! i" using take_member [OF x(1)] by blast
    then have "map st_key ?L ! i \<le> map st_key ?L ! (n - 1)" using n ahead_keys(2) [OF d] by (intro sorted_nth_mono) auto
    then show ?thesis using i x n by (simp add: c)
  qed
  have "filter (\<lambda>s. c < st_key s) (select_routes env subject purpose (without ks db))
      = filter (\<lambda>s. c < st_key s) (filter (\<lambda>s. cursor < st_key s) (select_routes env subject purpose db))"
    using below cc by (auto simp: select_routes_def without_def leD intro!: filter_cong)
  then have "ahead env subject purpose c (without ks db) = filter (\<lambda>s. c < st_key s) ?L"
    by (simp add: ahead_def filter_sort)
  also have "\<dots> = drop n ?L" unfolding c using ahead_keys [OF d] n by (intro beyond_prefix) auto
  finally show ?thesis .
qed

lemma batch_fates:
  assumes "distinct (map st_key (rd_settings db))"
  shows "invalidate_batch env subject purpose cursor db =
    (let rows = take REVOCATION_SCAN_BATCH_SIZE (ahead env subject purpose cursor db) in
     bindE (fates (invalidate_fate env subject purpose) rows db) (\<lambda>(ks, ids).
     Inr (last (cursor # map st_key rows), ids, length rows, without ks db)))"
proof -
  let ?rows = "take REVOCATION_SCAN_BATCH_SIZE (ahead env subject purpose cursor db)"
  have "set ?rows \<subseteq> set (rd_settings db)" "distinct (map st_key ?rows)"
    using ahead_keys [OF assms] by (metis order_trans set_take_subset, simp add: take_map [symmetric])
  then have "invalidate_rows (invalidate_row env subject purpose) ?rows db =
      bindE (fates (invalidate_fate env subject purpose) ?rows db) (\<lambda>(ks, ids). Inr (ids, without ks db))"
    using assms by (intro batched.rows_fates)
  then show ?thesis by (simp add: invalidate_batch_def ahead_def Let_def bindE_def split: sum.splits)
qed

lemma invalidate_loop_fates:
  assumes "distinct (map st_key (rd_settings db))"
  shows "invalidate_loop env subject purpose cursor db =
    bindE (fates (invalidate_fate env subject purpose) (ahead env subject purpose cursor db) db) (\<lambda>(ks, ids). Inr (ids, without ks db))"
  using assms
proof (induction env subject purpose cursor db rule: invalidate_loop.induct)
  case (1 env subject purpose cursor db)
  let ?n = "REVOCATION_SCAN_BATCH_SIZE" and ?L = "ahead env subject purpose cursor db" and ?F = "invalidate_fate env subject purpose"
  note batch = batch_fates [OF 1(2), of env subject purpose cursor, unfolded Let_def]
  note unfold = invalidate_loop.simps [of env subject purpose cursor db]
  show ?case
  proof (cases "fates ?F (take ?n ?L) db")
    case (Inl e)
    then have "fates ?F ?L db = Inl e" using fates_append [of ?F "take ?n ?L" "drop ?n ?L" db] by simp
    then show ?thesis using batch Inl unfold by simp
  next
    case (Inr p)
    obtain ks ids where p: "p = (ks, ids)" by (cases p)
    let ?c = "last (cursor # map st_key (take ?n ?L))"
    have b: "invalidate_batch env subject purpose cursor db = Inr (?c, ids, length (take ?n ?L), without ks db)"
      using batch Inr p by simp
    have all: "fates ?F ?L db = bindE (fates ?F (drop ?n ?L) db) (\<lambda>(ks', ids'). Inr (ks @ ks', ids @ ids'))"
      using fates_append [of ?F "take ?n ?L" "drop ?n ?L" db] Inr p by simp
    show ?thesis
    proof (cases "length (take ?n ?L) < ?n")
      case True
      then have "length ?L < ?n" by simp
      then show ?thesis using b all unfold by simp
    next
      case False
      then have n: "0 < ?n" "?n \<le> length ?L" by (auto simp: REVOCATION_SCAN_BATCH_SIZE_def)
      then have c: "?c = st_key (?L ! (?n - 1))" by (auto simp: last_conv_nth)
      have rest: "ahead env subject purpose ?c (without ks db) = drop ?n ?L"
        using fates_keys [OF Inr [unfolded p]] by (intro ahead_after [OF 1(2) n c]) auto
      have d: "distinct (map st_key (rd_settings (without ks db)))" using 1(2) by (simp add: without_def distinct_map_filter)
      have "fates ?F (drop ?n ?L) (without ks db) = fates ?F (drop ?n ?L) db" by (rule batched.fates_receipts) simp
      then have ih: "invalidate_loop env subject purpose ?c (without ks db) =
          bindE (fates ?F (drop ?n ?L) db) (\<lambda>(ks', ids'). Inr (ids', without ks' (without ks db)))"
        using 1(1) [OF b refl refl refl False d] rest by simp
      have "invalidate_loop env subject purpose cursor db =
          bindE (invalidate_loop env subject purpose ?c (without ks db)) (\<lambda>(rest, db2). Inr (ids @ rest, db2))"
        unfolding unfold b using False by simp
      then show ?thesis unfolding ih all by (cases "fates ?F (drop ?n ?L) db") auto
    qed
  qed
qed

lemma ahead_start: "mset (ahead env subject purpose [] db) = mset (select_routes env subject purpose db)"
proof -
  have "[] < st_key s" if "s \<in> set (select_routes env subject purpose db)" for s
    using that by (cases "st_key s") (auto simp: select_routes_def is_route_key_def starts_with_def ROUTE_PREFIX_def)
  then have "filter (\<lambda>s. [] < st_key s) (select_routes env subject purpose db) = select_routes env subject purpose db" by (simp add: filter_id_conv)
  then show ?thesis by (simp add: ahead_def)
qed

lemma ahead_start_set: "set (ahead env subject purpose [] db) = set (select_routes env subject purpose db)"
  using ahead_start mset_eq_setD by blast

subsection \<open>Order does not matter\<close>

definition reported :: "(setting_row \<Rightarrow> route_db \<Rightarrow> budget_error + uuid list option) \<Rightarrow> route_db \<Rightarrow> setting_row \<Rightarrow> uuid multiset" where
  "reported F db s = (case F s db of Inr (Some i) \<Rightarrow> mset i | _ \<Rightarrow> {#})"

lemma fates_ids: "fates F rows db = Inr (ks, ids) \<Longrightarrow> mset ids = (\<Sum>s\<in>#mset rows. reported F db s)"
proof (induction rows arbitrary: ks ids)
  case (Cons row rows)
  then obtain f ks' ids' where f: "F row db = Inr f" and r: "fates F rows db = Inr (ks', ids')"
      and k: "(ks, ids) = (case f of None \<Rightarrow> (ks', ids') | Some i \<Rightarrow> (st_key row # ks', i @ ids'))"
    by (auto simp: bindE_eq_Inr)
  then show ?case using Cons.IH [OF r] by (cases f) (auto simp: reported_def)
qed simp

lemma fates_Inl: "fates F rows db = Inl e \<Longrightarrow> \<exists>s \<in> set rows. F s db = Inl e"
  by (induction rows) (auto simp: bindE_eq_Inl)

lemma fates_perm:
  assumes m: "mset xs = mset ys" and e0: "\<forall>s e. F s db = Inl e \<longrightarrow> e = e0"
  shows "fates F xs db = Inl e \<Longrightarrow> fates F ys db = Inl e"
    and "fates F xs db = Inr (ks, ids) \<Longrightarrow> \<exists>ks' ids'. fates F ys db = Inr (ks', ids') \<and> set ks' = set ks \<and> mset ids' = mset ids"
proof -
  have set: "set xs = set ys" using m by (rule mset_eq_setD)
  {
    assume x: "fates F xs db = Inl e"
    obtain s where s: "s \<in> set ys" "F s db = Inl e" using fates_Inl [OF x] set by blast
    show "fates F ys db = Inl e"
    proof (cases "fates F ys db")
      case (Inl e')
      then have "e' = e0" using fates_Inl [OF Inl] e0 by blast
      then show ?thesis using Inl e0 s(2) by auto
    next
      case (Inr p)
      obtain ks ids where "p = (ks, ids)" by (cases p)
      then show ?thesis using fates_total [of F ys db ks ids s] Inr s by auto
    qed
  next
    assume x: "fates F xs db = Inr (ks, ids)"
    show "\<exists>ks' ids'. fates F ys db = Inr (ks', ids') \<and> set ks' = set ks \<and> mset ids' = mset ids"
    proof (cases "fates F ys db")
      case (Inl e')
      then show ?thesis using fates_Inl [OF Inl] fates_total [OF x] set by (metis Inl_Inr_False)
    next
      case (Inr p)
      obtain ks' ids' where p: "p = (ks', ids')" by (cases p)
      have "set ks' = set ks" using fates_keys [OF x] fates_keys [OF Inr [unfolded p]] set by simp
      moreover have "mset ids' = mset ids" using fates_ids [OF x] fates_ids [OF Inr [unfolded p]] m by simp
      ultimately show ?thesis using Inr p by blast
    qed
  }
qed

lemma invalidate_fate_Inl: "invalidate_fate env subject purpose s db = Inl e \<Longrightarrow> e = RuntimeErr ''invalid route consumption state''"
  by (auto simp: invalidate_fate_def unreadable_fate_def unused_fate_def exists_defs zero_or_one_def bindE_eq_Inl Let_def
      split: sum.splits if_splits option.splits)

lemma fates_cong: "(\<And>s. s \<in> set rows \<Longrightarrow> F s db = G s db) \<Longrightarrow> fates F rows db = fates G rows db"
  by (induction rows) simp_all

subsection \<open>Runs\<close>

datatype route_event =
    Authorized route_grant instant
  | Consumed uuid route_consumption instant
  | Revoked uuid route_purpose "uuid list"

text \<open>
  One operation, or a transaction of other code: that code may change any other setting, session, reservation or receipt, but neither
  route rows nor consumption receipts, and keys stay unique.
\<close>

inductive route_step :: "route_env \<Rightarrow> route_db \<Rightarrow> route_event list \<Rightarrow> route_db \<Rightarrow> bool" for env where
  step_authorize: "authorize env ports clk aid receipt_id q db = (r, db') \<Longrightarrow>
     route_step env db (case r of Inl _ \<Rightarrow> [] | Inr g \<Rightarrow> [Authorized g (clk 3)]) db'"
| step_consume: "consume env ports clk aid receipt_id cs db = (r, db') \<Longrightarrow>
     route_step env db (case r of Inl _ \<Rightarrow> [] | Inr _ \<Rightarrow> [Consumed aid cs (clk 3)]) db'"
| step_invalidate: "invalidate_subject_purpose env subject purpose db = (r, db') \<Longrightarrow>
     route_step env db (case r of Inl _ \<Rightarrow> [] | Inr ids \<Rightarrow> [Revoked subject purpose ids]) db'"
| step_revoke: "revoke_subject_purpose env subject purpose db = (r, db') \<Longrightarrow>
     route_step env db (case r of Inl _ \<Rightarrow> [] | Inr ids \<Rightarrow> [Revoked subject purpose ids]) db'"
| step_other: "filter (\<lambda>s. is_route_key (st_key s)) (rd_settings db') = filter (\<lambda>s. is_route_key (st_key s)) (rd_settings db) \<Longrightarrow>
     filter (\<lambda>r. id_operation r = CONSUME_OPERATION) (rd_receipts db') = filter (\<lambda>r. id_operation r = CONSUME_OPERATION) (rd_receipts db) \<Longrightarrow>
     distinct (map st_key (rd_settings db')) \<Longrightarrow> route_step env db [] db'"

inductive route_run :: "route_env \<Rightarrow> route_db \<Rightarrow> route_event list \<Rightarrow> route_db \<Rightarrow> bool" for env where
  run_start: "route_run env db [] db"
| run_step: "route_run env db tr db1 \<Longrightarrow> route_step env db1 evs db2 \<Longrightarrow> route_run env db (tr @ evs) db2"

definition no_routes :: "route_db \<Rightarrow> bool" where
  "no_routes db \<longleftrightarrow> distinct (map st_key (rd_settings db)) \<and> list_all (\<lambda>s. \<not> is_route_key (st_key s)) (rd_settings db)
     \<and> list_all (\<lambda>r. id_operation r \<noteq> CONSUME_OPERATION) (rd_receipts db)"

text \<open>What is assumed of printing and of SQLite: a printed envelope parses as itself or not at all, and its two text fields are read back.\<close>

definition route_law :: "route_env \<Rightarrow> bool" where
  "route_law env \<longleftrightarrow> (\<forall>en en'. w_parse_envelope env (w_print env en) = Some en' \<longrightarrow> en' = en)
     \<and> (\<forall>en. w_route_text env (w_print env en) = (map_option uuid_text (rt_subject (ae_route en)), Some (purpose_text (rt_purpose (ae_route en)))))"

fun consumed_ids :: "route_event list \<Rightarrow> uuid list" where
  "consumed_ids [] = []"
| "consumed_ids (Consumed aid cs t # tr) = aid # consumed_ids tr"
| "consumed_ids (_ # tr) = consumed_ids tr"

lemma consumed_ids_append [simp]: "consumed_ids (xs @ ys) = consumed_ids xs @ consumed_ids ys"
  by (induction xs rule: consumed_ids.induct) auto

definition used :: "route_db \<Rightarrow> route_authorization \<Rightarrow> bool" where
  "used db rt \<longleftrightarrow> (\<exists>r \<in> set (rd_receipts db). id_operation r = CONSUME_OPERATION \<and> id_scope r = rt_household rt \<and> id_key r = rt_authorization rt)"

definition issued :: "route_env \<Rightarrow> route_event list \<Rightarrow> setting_row \<Rightarrow> bool" where
  "issued env tr s \<longleftrightarrow> (\<exists>en t. st_value s = w_print env en \<and> st_key s = runtime_key (rt_authorization (ae_route en))
     \<and> Authorized (ae_grant en) t \<in> set tr \<and> rt_expires_at (ae_route en) = t + ROUTE_TTL)"

definition justified :: "route_event list \<Rightarrow> bool" where
  "justified tr \<longleftrightarrow> (\<forall>xs aid cs t ys. tr = xs @ Consumed aid cs t # ys \<longrightarrow>
     (\<exists>g t0. Authorized g t0 \<in> set xs \<and> rt_authorization (gr_route g) = aid \<and> verify_route_consumption (gr_route g) cs t = Inr ()
       \<and> t < t0 + ROUTE_TTL))"

definition spent :: "route_env \<Rightarrow> route_db \<Rightarrow> uuid \<Rightarrow> bool" where
  "spent env db aid \<longleftrightarrow> (\<exists>s \<in> set (rd_settings db). st_key s = runtime_key aid
     \<and> (\<exists>en. parse_persisted_route_envelope env (st_value s) = Inr en \<and> rt_authorization (ae_route en) = aid \<and> used db (ae_route en)))"

definition route_inv :: "route_env \<Rightarrow> route_event list \<Rightarrow> route_db \<Rightarrow> bool" where
  "route_inv env tr db \<longleftrightarrow> distinct (map st_key (rd_settings db))
     \<and> (\<forall>s \<in> set (rd_settings db). is_route_key (st_key s) \<longrightarrow> issued env tr s)
     \<and> (\<forall>aid \<in> set (consumed_ids tr). spent env db aid) \<and> distinct (consumed_ids tr) \<and> justified tr"

subsection \<open>What each operation does\<close>

lemma zero_or_one_Inr: "zero_or_one (length (filter P xs)) = Inr b \<Longrightarrow> b \<longleftrightarrow> (\<exists>x \<in> set xs. P x)"
proof -
  assume "zero_or_one (length (filter P xs)) = Inr b"
  then have "b \<longleftrightarrow> length (filter P xs) \<noteq> 0" by (auto simp: zero_or_one_def split: if_splits)
  also have "\<dots> \<longleftrightarrow> (\<exists>x \<in> set xs. P x)" by (simp add: filter_empty_conv)
  finally show ?thesis .
qed

lemma consumption_exists_used: "consumption_exists (rt_household rt) (rt_authorization rt) db = Inr b \<Longrightarrow> b \<longleftrightarrow> used db rt"
  unfolding exists_defs by (drule zero_or_one_Inr) (auto simp: used_def)

lemma select_setting_Some: "select_setting key db = Some s \<Longrightarrow> s \<in> set (rd_settings db) \<and> st_key s = key"
  by (auto simp: select_setting_def find_Some_iff)

lemma authorize_Inr:
  assumes "authorize env ports clk aid receipt_id q db = (Inr g, db')"
  obtains en s r where "ae_grant en = g" "rt_authorization (ae_route en) = aid" "rt_expires_at (ae_route en) = clk 3 + ROUTE_TTL"
    "st_key s = runtime_key aid" "st_value s = w_print env en" "rd_settings db' = rd_settings db @ [s]"
    "\<forall>x \<in> set (rd_settings db). st_key x \<noteq> runtime_key aid" "id_operation r = ISSUE_OPERATION" "rd_receipts db' = rd_receipts db @ [r]"
proof -
  have "authorize_locked env ports clk aid receipt_id q db = Inr (g, db')"
    using assms by (auto simp: authorize_def route_uow_def split: sum.splits)
  then obtain gen qw where g: "g = authorization_from_request q aid (clk 3 + ROUTE_TTL)"
      and p: "persist_authorization env ports clk receipt_id \<lparr>ae_grant = g, ae_generation = gen, ae_qwen = qw\<rparr> db = Inr db'"
    by (auto simp: authorize_locked_def bindE_eq_Inr Let_def)
  have aid: "rt_authorization (gr_route g) = aid" and ex: "rt_expires_at (gr_route g) = clk 3 + ROUTE_TTL"
    using g by (simp_all add: authorization_from_request_def)
  obtain db1 where 1: "insert_setting_row env \<lparr>st_key = runtime_key aid, st_value = w_print env \<lparr>ae_grant = g, ae_generation = gen, ae_qwen = qw\<rparr>,
        st_updated = clk 5\<rparr> db = Inr db1"
      and 2: "insert_receipt_row \<lparr>id_id = receipt_id, id_operation = ISSUE_OPERATION, id_scope = rt_household (gr_route g),
        id_key = rt_attempt (gr_route g), id_seen = clk 5, id_expires = rt_expires_at (gr_route g)\<rparr> db1 = Inr db'"
    using p by (auto simp: persist_authorization_def bindE_eq_Inr Let_def aid)
  show thesis
    by (rule that [of "\<lparr>ae_grant = g, ae_generation = gen, ae_qwen = qw\<rparr>"
          "\<lparr>st_key = runtime_key aid, st_value = w_print env \<lparr>ae_grant = g, ae_generation = gen, ae_qwen = qw\<rparr>, st_updated = clk 5\<rparr>"])
       (use 1 2 aid ex in \<open>auto simp: insert_setting_row_def insert_receipt_row_def sql_insert_def bindE_eq_Inr list_all_iff split: if_splits\<close>)
qed

lemma consume_Inr:
  assumes "consume env ports clk aid receipt_id cs db = (Inr u, db')"
  obtains s en r where "s \<in> set (rd_settings db)" "st_key s = runtime_key aid" "parse_persisted_route_envelope env (st_value s) = Inr en"
    "rt_authorization (ae_route en) = aid" "\<not> used db (ae_route en)" "verify_route_consumption (ae_route en) cs (clk 3) = Inr ()"
    "rd_settings db' = rd_settings db" "rd_receipts db' = rd_receipts db @ [r]" "id_operation r = CONSUME_OPERATION"
    "id_scope r = rt_household (ae_route en)" "id_key r = aid"
proof -
  have "consume_locked env ports clk aid receipt_id cs db = Inr (u, db')"
    using assms by (auto simp: consume_def route_uow_def split: sum.splits)
  then obtain s en where s: "select_setting (runtime_key aid) db = Some s" and en: "parse_persisted_route_envelope env (st_value s) = Inr en"
      and aid: "rt_authorization (ae_route en) = aid" and c: "consumption_exists (rt_household (ae_route en)) (rt_authorization (ae_route en)) db = Inr False"
      and p: "persist_consumption env ports clk receipt_id en cs db = Inr db'"
    by (auto simp: consume_locked_def bindE_eq_Inr Let_def split: option.splits)
  have v: "verify_route_consumption (ae_route en) cs (clk 3) = Inr ()"
    and i: "insert_receipt_row \<lparr>id_id = receipt_id, id_operation = CONSUME_OPERATION, id_scope = rt_household (ae_route en),
        id_key = rt_authorization (ae_route en), id_seen = clk 3, id_expires = rt_expires_at (ae_route en)\<rparr> db = Inr db'"
    using p by (auto simp: persist_consumption_def bindE_eq_Inr Let_def)
  show thesis
    by (rule that [of s en])
       (use select_setting_Some [OF s] en aid consumption_exists_used [OF c] v i in
         \<open>auto simp: insert_receipt_row_def sql_insert_def bindE_eq_Inr split: if_splits\<close>)
qed

definition swept :: "(setting_row \<Rightarrow> route_db \<Rightarrow> budget_error + uuid list option) \<Rightarrow> setting_row list \<Rightarrow> route_db \<Rightarrow> uuid list \<Rightarrow> route_db \<Rightarrow> bool" where
  "swept F rows db ids db' \<longleftrightarrow> (\<exists>ks. fates F rows db = Inr (ks, ids) \<and> db' = without ks db)"

lemma invalidate_swept:
  assumes "distinct (map st_key (rd_settings db))"
  shows "invalidate_subject_purpose env subject purpose db = (Inr ids, db') \<longleftrightarrow>
    swept (invalidate_fate env subject purpose) (ahead env subject purpose [] db) db ids db'"
  by (auto simp: invalidate_subject_purpose_def route_uow_def invalidate_loop_fates [OF assms] swept_def bindE_def split: sum.splits)

lemma select_routes_rows:
  assumes "distinct (map st_key (rd_settings db))"
  shows "set (select_routes env subject purpose db) \<subseteq> set (rd_settings db)" "distinct (map st_key (select_routes env subject purpose db))"
  using assms by (auto simp: select_routes_def distinct_map_filter)

lemma revoke_fates:
  assumes "distinct (map st_key (rd_settings db))"
  shows "invalidate_rows (revoke_row env subject purpose) (select_routes env subject purpose db) db =
    bindE (fates (revoke_fate env subject purpose) (select_routes env subject purpose db) db) (\<lambda>(ks, ids). Inr (ids, without ks db))"
  using assms select_routes_rows [OF assms] by (intro one_pass.rows_fates)

lemma revoke_swept:
  assumes "distinct (map st_key (rd_settings db))"
  shows "revoke_subject_purpose env subject purpose db = (Inr ids, db') \<longleftrightarrow>
    swept (revoke_fate env subject purpose) (select_routes env subject purpose db) db ids db'"
  by (auto simp: revoke_subject_purpose_def route_uow_def revoke_fates [OF assms] swept_def bindE_def split: sum.splits)

lemma sweep_Inl:
  "invalidate_subject_purpose env subject purpose db = (Inl e, db') \<Longrightarrow> db' = db"
  "revoke_subject_purpose env subject purpose db = (Inl e, db') \<Longrightarrow> db' = db"
  "authorize env ports clk aid receipt_id q db = (Inl e, db') \<Longrightarrow> db' = db"
  "consume env ports clk aid receipt_id cs db = (Inl e, db') \<Longrightarrow> db' = db"
  by (auto simp: invalidate_subject_purpose_def revoke_subject_purpose_def authorize_def consume_def route_uow_def split: sum.splits)

lemma swept_effect:
  assumes "swept F rows db ids db'" "set rows \<subseteq> set (rd_settings db)" "distinct (map st_key (rd_settings db))"
  shows "rd_receipts db' = rd_receipts db" "distinct (map st_key (rd_settings db'))"
    "set (rd_settings db') = {s \<in> set (rd_settings db). \<not> (s \<in> set rows \<and> (\<exists>i. F s db = Inr (Some i)))}"
    "s \<in> set rows \<Longrightarrow> \<exists>f. F s db = Inr f"
proof -
  obtain ks where f: "fates F rows db = Inr (ks, ids)" and d: "db' = without ks db" using assms(1) by (auto simp: swept_def)
  show "rd_receipts db' = rd_receipts db" by (simp add: d)
  show "distinct (map st_key (rd_settings db'))" using assms(3) by (simp add: d without_def distinct_map_filter)
  have inj: "inj_on st_key (set (rd_settings db))" using assms(3) by (simp add: distinct_map)
  have key: "st_key x \<in> set ks \<longleftrightarrow> x \<in> set rows \<and> (\<exists>i. F x db = Inr (Some i))" if "x \<in> set (rd_settings db)" for x
    using inj_on_image_mem_iff [OF inj that, of "{s \<in> set rows. \<exists>i. F s db = Inr (Some i)}"] assms(2) fates_keys [OF f] by auto
  show "set (rd_settings db') = {s \<in> set (rd_settings db). \<not> (s \<in> set rows \<and> (\<exists>i. F s db = Inr (Some i)))}"
    using key by (auto simp: d)
  show "s \<in> set rows \<Longrightarrow> \<exists>f. F s db = Inr f" by (rule fates_total [OF f])
qed

subsection \<open>The invariant\<close>

lemma snoc_split: "xs @ y # ys = tr @ [e] \<longleftrightarrow> (ys = [] \<and> xs = tr \<and> y = e) \<or> (\<exists>zs. ys = zs @ [e] \<and> tr = xs @ y # zs)"
  by (cases ys rule: rev_cases) auto

lemma justified_snoc:
  assumes "justified tr"
    "\<And>aid cs t. e = Consumed aid cs t \<Longrightarrow> \<exists>g t0. Authorized g t0 \<in> set tr \<and> rt_authorization (gr_route g) = aid
       \<and> verify_route_consumption (gr_route g) cs t = Inr () \<and> t < t0 + ROUTE_TTL"
  shows "justified (tr @ [e])"
  unfolding justified_def
proof (intro allI impI)
  fix xs aid cs t ys
  assume "tr @ [e] = xs @ Consumed aid cs t # ys"
  then consider "xs = tr" "e = Consumed aid cs t" | zs where "tr = xs @ Consumed aid cs t # zs"
    by (metis snoc_split)
  then show "\<exists>g t0. Authorized g t0 \<in> set xs \<and> rt_authorization (gr_route g) = aid \<and> verify_route_consumption (gr_route g) cs t = Inr ()
       \<and> t < t0 + ROUTE_TTL"
    by cases (use assms(2) in blast, use assms(1) in \<open>simp add: justified_def\<close>)
qed

lemma justified_other: "justified tr \<Longrightarrow> (\<And>aid cs t. e \<noteq> Consumed aid cs t) \<Longrightarrow> justified (tr @ [e])"
  by (rule justified_snoc) blast+

lemma issued_mono: "issued env tr s \<Longrightarrow> set tr \<subseteq> set tr' \<Longrightarrow> issued env tr' s"
  unfolding issued_def by blast

lemma route_inv_authorize:
  assumes inv: "route_inv env tr db" and a: "authorize env ports clk aid receipt_id q db = (Inr g, db')"
  shows "route_inv env (tr @ [Authorized g (clk 3)]) db'"
proof -
  obtain en s r where e: "ae_grant en = g" "rt_authorization (ae_route en) = aid" "rt_expires_at (ae_route en) = clk 3 + ROUTE_TTL"
    and s: "st_key s = runtime_key aid" "st_value s = w_print env en" "rd_settings db' = rd_settings db @ [s]"
    and fresh: "\<forall>x \<in> set (rd_settings db). st_key x \<noteq> runtime_key aid" and r: "rd_receipts db' = rd_receipts db @ [r]"
    using authorize_Inr [OF a] by metis
  have new: "issued env (tr @ [Authorized g (clk 3)]) s" unfolding issued_def using e s by (intro exI [of _ en]) auto
  have "spent env db' i" if "spent env db i" for i using that unfolding spent_def used_def by (auto simp: s r)
  moreover have "distinct (map st_key (rd_settings db'))" using inv fresh by (auto simp: route_inv_def s)
  moreover have "\<forall>x \<in> set (rd_settings db'). is_route_key (st_key x) \<longrightarrow> issued env (tr @ [Authorized g (clk 3)]) x"
    using inv new by (auto simp: route_inv_def s(3) intro: issued_mono)
  moreover have "justified (tr @ [Authorized g (clk 3)])" using inv by (intro justified_other) (auto simp: route_inv_def)
  ultimately show ?thesis using inv by (auto simp: route_inv_def)
qed

lemma parse_printed: "route_law env \<Longrightarrow> parse_persisted_route_envelope env (w_print env en) = Inr en' \<Longrightarrow> en' = en"
  by (auto simp: parse_persisted_route_envelope_def route_law_def split: option.splits sum.splits)

lemma same_row: "distinct (map st_key rows) \<Longrightarrow> s \<in> set rows \<Longrightarrow> s' \<in> set rows \<Longrightarrow> st_key s = st_key s' \<Longrightarrow> s = s'"
  by (simp add: distinct_map inj_on_def)

lemma route_inv_consume:
  assumes law: "route_law env" and inv: "route_inv env tr db" and c: "consume env ports clk aid receipt_id cs db = (Inr u, db')"
  shows "route_inv env (tr @ [Consumed aid cs (clk 3)]) db'"
proof -
  obtain s en r where s: "s \<in> set (rd_settings db)" "st_key s = runtime_key aid" and p: "parse_persisted_route_envelope env (st_value s) = Inr en"
    and aid: "rt_authorization (ae_route en) = aid" and nu: "\<not> used db (ae_route en)" and v: "verify_route_consumption (ae_route en) cs (clk 3) = Inr ()"
    and db': "rd_settings db' = rd_settings db" "rd_receipts db' = rd_receipts db @ [r]"
    and r: "id_operation r = CONSUME_OPERATION" "id_scope r = rt_household (ae_route en)" "id_key r = aid"
    using consume_Inr [OF c] by metis
  have d: "distinct (map st_key (rd_settings db))" using inv by (simp add: route_inv_def)
  have "issued env tr s" using inv s by (simp add: route_inv_def)
  then obtain en0 t where i: "st_value s = w_print env en0" "Authorized (ae_grant en0) t \<in> set tr" "rt_expires_at (ae_route en0) = t + ROUTE_TTL"
    by (auto simp: issued_def)
  have en0: "en = en0" using parse_printed [OF law] p i(1) by metis
  have "\<exists>g t0. Authorized g t0 \<in> set tr \<and> rt_authorization (gr_route g) = aid \<and> verify_route_consumption (gr_route g) cs (clk 3) = Inr ()
      \<and> clk 3 < t0 + ROUTE_TTL"
    using i(2,3) aid v en0 by (intro exI [of _ "ae_grant en0"] exI [of _ t]) (auto simp: verify_route_consumption_def split: if_splits)
  then have j: "justified (tr @ [Consumed aid cs (clk 3)])" using inv by (intro justified_snoc) (auto simp: route_inv_def)
  have fresh: "\<not> spent env db aid"
  proof
    assume "spent env db aid"
    then obtain s' en' where s': "s' \<in> set (rd_settings db)" "st_key s' = runtime_key aid" "parse_persisted_route_envelope env (st_value s') = Inr en'"
        "used db (ae_route en')" by (auto simp: spent_def)
    then have "s' = s" using same_row [OF d] s by metis
    then show False using s' p nu by simp
  qed
  have "spent env db' i" if "spent env db i" for i using that unfolding spent_def used_def by (auto simp: db')
  moreover have "spent env db' aid" unfolding spent_def used_def using s p aid r by (auto simp: db')
  moreover have "\<forall>x \<in> set (rd_settings db'). is_route_key (st_key x) \<longrightarrow> issued env (tr @ [Consumed aid cs (clk 3)]) x"
    using inv by (auto simp: route_inv_def db' intro: issued_mono)
  ultimately show ?thesis using inv j fresh d by (auto simp: route_inv_def db')
qed

lemma unused_fate_cases:
  "unused_fate subject purpose rt db = Inr (Some i) \<Longrightarrow> \<not> used db rt"
  "unused_fate subject purpose rt db = Inr None \<Longrightarrow> rt_subject rt = Some subject \<Longrightarrow> rt_purpose rt = purpose \<Longrightarrow> used db rt"
  using consumption_exists_used [of rt db] by (auto simp: unused_fate_def bindE_eq_Inr split: if_splits)

definition spares_used :: "route_env \<Rightarrow> (setting_row \<Rightarrow> route_db \<Rightarrow> budget_error + uuid list option) \<Rightarrow> bool" where
  "spares_used env F \<longleftrightarrow> (\<forall>s en db i. parse_persisted_route_envelope env (st_value s) = Inr en \<longrightarrow>
     st_key s = runtime_key (rt_authorization (ae_route en)) \<longrightarrow> F s db = Inr (Some i) \<longrightarrow> \<not> used db (ae_route en))"

lemma fates_spare_used: "spares_used env (invalidate_fate env subject purpose)" "spares_used env (revoke_fate env subject purpose)"
  using unused_fate_cases(1) by (auto simp: spares_used_def invalidate_fate_def revoke_fate_def)

lemma route_inv_swept:
  assumes inv: "route_inv env tr db" and sw: "swept F rows db ids db'" and rows: "set rows \<subseteq> set (rd_settings db)" and F: "spares_used env F"
  shows "route_inv env (tr @ [Revoked subject purpose ids]) db'"
proof -
  have d: "distinct (map st_key (rd_settings db))" using inv by (simp add: route_inv_def)
  note e = swept_effect [OF sw rows d]
  have "spent env db' i" if sp: "spent env db i" for i
  proof -
    obtain s en where s: "s \<in> set (rd_settings db)" "st_key s = runtime_key i" "parse_persisted_route_envelope env (st_value s) = Inr en"
        "rt_authorization (ae_route en) = i" "used db (ae_route en)" using sp by (auto simp: spent_def)
    then have "s \<in> set (rd_settings db')" using F unfolding e(3) spares_used_def by blast
    moreover have "used db' (ae_route en)" using s(5) by (simp add: used_def e(1))
    ultimately show ?thesis using s unfolding spent_def by blast
  qed
  moreover have "\<forall>x \<in> set (rd_settings db'). is_route_key (st_key x) \<longrightarrow> issued env (tr @ [Revoked subject purpose ids]) x"
    using inv unfolding e(3) by (auto simp: route_inv_def intro: issued_mono)
  moreover have "justified (tr @ [Revoked subject purpose ids])" using inv by (intro justified_other) (auto simp: route_inv_def)
  ultimately show ?thesis using inv e(2) by (auto simp: route_inv_def)
qed

lemma filter_member: "filter P xs = filter P ys \<Longrightarrow> P x \<Longrightarrow> x \<in> set xs \<longleftrightarrow> x \<in> set ys"
  by (metis (mono_tags, lifting) filter_set mem_Collect_eq set_filter)

lemma used_other:
  assumes "filter (\<lambda>r. id_operation r = CONSUME_OPERATION) (rd_receipts db') = filter (\<lambda>r. id_operation r = CONSUME_OPERATION) (rd_receipts db)"
  shows "used db' rt \<longleftrightarrow> used db rt"
  using filter_member [OF assms] unfolding used_def by blast

lemma route_inv_step:
  assumes law: "route_law env" and inv: "route_inv env tr db" and step: "route_step env db evs db'"
  shows "route_inv env (tr @ evs) db'"
  using step
proof cases
  case (step_authorize ports clk aid receipt_id q r)
  then show ?thesis using route_inv_authorize [OF inv] sweep_Inl(3) inv by (cases r) (auto, metis)
next
  case (step_consume ports clk aid receipt_id cs r)
  then show ?thesis using route_inv_consume [OF law inv] sweep_Inl(4) inv by (cases r) (auto, metis)
next
  case (step_invalidate subject purpose r)
  have d: "distinct (map st_key (rd_settings db))" using inv by (simp add: route_inv_def)
  show ?thesis
    using step_invalidate route_inv_swept [OF inv _ ahead_keys(3) [OF d] fates_spare_used(1)] invalidate_swept [OF d] sweep_Inl(1) inv
    by (cases r) (auto, metis)
next
  case (step_revoke subject purpose r)
  have d: "distinct (map st_key (rd_settings db))" using inv by (simp add: route_inv_def)
  show ?thesis
    using step_revoke route_inv_swept [OF inv _ select_routes_rows(1) [OF d] fates_spare_used(2)] revoke_swept [OF d] sweep_Inl(2) inv
    by (cases r) (auto, metis)
next
  case step_other
  have rows: "s \<in> set (rd_settings db') \<longleftrightarrow> s \<in> set (rd_settings db)" if "is_route_key (st_key s)" for s
    using filter_member [OF step_other(2)] that by blast
  have "spent env db' i" if sp: "spent env db i" for i
    using sp rows used_other [OF step_other(3)] unfolding spent_def by (metis runtime_key_route)
  then show ?thesis using inv step_other(1,4) rows by (auto simp: route_inv_def)
qed

lemma route_inv_run:
  assumes "route_law env" "route_run env db tr' db'" "route_inv env tr db"
  shows "route_inv env (tr @ tr') db'"
  using assms(2,3) by (induction) (auto dest: route_inv_step [OF assms(1)] simp flip: append_assoc)

lemma route_inv_start: "no_routes db \<Longrightarrow> route_inv env [] db"
  by (auto simp: no_routes_def route_inv_def justified_def list_all_iff)

subsection \<open>After a revocation\<close>

definition sealed :: "route_env \<Rightarrow> uuid \<Rightarrow> route_purpose \<Rightarrow> route_db \<Rightarrow> bool" where
  "sealed env subject purpose db \<longleftrightarrow> (\<forall>x \<in> set (rd_settings db). \<forall>en. is_route_key (st_key x) \<longrightarrow> parse_persisted_route_envelope env (st_value x) = Inr en \<longrightarrow>
     rt_subject (ae_route en) = Some subject \<longrightarrow> rt_purpose (ae_route en) = purpose \<longrightarrow> used db (ae_route en))"

abbreviation of_subject :: "uuid \<Rightarrow> route_purpose \<Rightarrow> route_event \<Rightarrow> bool" where
  "of_subject subject purpose e \<equiv> (case e of
     Authorized g _ \<Rightarrow> rt_subject (gr_route g) = Some subject \<and> rt_purpose (gr_route g) = purpose
   | Consumed _ cs _ \<Rightarrow> cs_subject cs = Some subject \<and> cs_purpose cs = purpose
   | Revoked _ _ _ \<Rightarrow> False)"

lemma sealed_less:
  assumes "sealed env subject purpose db" "set (rd_settings db') \<subseteq> set (rd_settings db)" "\<And>rt. used db rt \<Longrightarrow> used db' rt"
  shows "sealed env subject purpose db'"
  using assms unfolding sealed_def by blast

lemma sealed_authorize:
  assumes law: "route_law env" and s: "sealed env subject purpose db" and a: "authorize env ports clk aid receipt_id q db = (Inr g, db')"
    and n: "\<not> of_subject subject purpose (Authorized g t)"
  shows "sealed env subject purpose db'"
proof -
  obtain en x r where e: "ae_grant en = g" and x: "st_value x = w_print env en" "rd_settings db' = rd_settings db @ [x]"
    and r: "rd_receipts db' = rd_receipts db @ [r]"
    using authorize_Inr [OF a] by metis
  have u: "used db rt \<Longrightarrow> used db' rt" for rt by (auto simp: used_def r)
  have "en' = en" if "parse_persisted_route_envelope env (st_value x) = Inr en'" for en' using parse_printed [OF law] that x(1) by metis
  then show ?thesis using s n u e unfolding sealed_def by (auto simp: x(2))
qed

lemma sealed_consume:
  assumes s: "sealed env subject purpose db" and c: "consume env ports clk aid receipt_id cs db = (Inr u, db')"
  shows "sealed env subject purpose db'" "\<not> of_subject subject purpose (Consumed aid cs t)"
proof -
  obtain x en r where x: "x \<in> set (rd_settings db)" "st_key x = runtime_key aid" "parse_persisted_route_envelope env (st_value x) = Inr en"
    and nu: "\<not> used db (ae_route en)" and v: "verify_route_consumption (ae_route en) cs (clk 3) = Inr ()"
    and db': "rd_settings db' = rd_settings db" "rd_receipts db' = rd_receipts db @ [r]"
    using consume_Inr [OF c] by metis
  show "sealed env subject purpose db'" using s by (rule sealed_less) (auto simp: db' used_def)
  have "\<not> (rt_subject (ae_route en) = Some subject \<and> rt_purpose (ae_route en) = purpose)"
    using s x nu unfolding sealed_def by (metis runtime_key_route)
  then show "\<not> of_subject subject purpose (Consumed aid cs t)" using v by (auto simp: verify_route_consumption_def split: if_splits)
qed

lemma sealed_swept:
  assumes "sealed env subject purpose db" "swept F rows db ids db'" "set rows \<subseteq> set (rd_settings db)" "distinct (map st_key (rd_settings db))"
  shows "sealed env subject purpose db'"
  using assms(1) by (rule sealed_less) (use swept_effect [OF assms(2-4)] in \<open>auto simp: used_def\<close>)

lemma sealed_step:
  assumes law: "route_law env" and d: "distinct (map st_key (rd_settings db))" and s: "sealed env subject purpose db"
    and step: "route_step env db evs db'" and n: "\<forall>g t. Authorized g t \<in> set evs \<longrightarrow> \<not> of_subject subject purpose (Authorized g t)"
  shows "sealed env subject purpose db' \<and> (\<forall>e \<in> set evs. \<not> of_subject subject purpose e)"
  using step
proof cases
  case (step_authorize ports clk aid receipt_id q r)
  show ?thesis
  proof (cases r)
    case (Inl e)
    then show ?thesis using step_authorize s by (auto dest!: sweep_Inl)
  next
    case (Inr g)
    then have evs: "evs = [Authorized g (clk 3)]" using step_authorize by simp
    then have ng: "\<not> of_subject subject purpose (Authorized g (clk 3))" using n by simp
    have "sealed env subject purpose db'"
      by (rule sealed_authorize [OF law s _ ng]) (use step_authorize Inr in simp)
    then show ?thesis using ng evs by simp
  qed
next
  case (step_consume ports clk aid receipt_id cs r)
  show ?thesis
  proof (cases r)
    case (Inl e)
    then show ?thesis using step_consume s by (auto dest!: sweep_Inl)
  next
    case (Inr u)
    then have "consume env ports clk aid receipt_id cs db = (Inr u, db')" using step_consume by simp
    from sealed_consume [OF s this] show ?thesis using step_consume Inr by simp
  qed
next
  case (step_invalidate subj purp r)
  then show ?thesis using sealed_swept [OF s _ ahead_keys(3) [OF d] d] invalidate_swept [OF d] sweep_Inl(1) s by (cases r) (auto, metis)
next
  case (step_revoke subj purp r)
  then show ?thesis using sealed_swept [OF s _ select_routes_rows(1) [OF d] d] revoke_swept [OF d] sweep_Inl(2) s by (cases r) (auto, metis)
next
  case step_other
  have rows: "x \<in> set (rd_settings db') \<longleftrightarrow> x \<in> set (rd_settings db)" if "is_route_key (st_key x)" for x
    using filter_member [OF step_other(2)] that by blast
  then show ?thesis using s used_other [OF step_other(3)] step_other(1) unfolding sealed_def by auto
qed

lemma sealed_run:
  assumes law: "route_law env" and "route_run env db tr' db'" and "route_inv env tr db" "sealed env subject purpose db"
    and "\<forall>g t. Authorized g t \<in> set tr' \<longrightarrow> \<not> of_subject subject purpose (Authorized g t)"
  shows "sealed env subject purpose db' \<and> (\<forall>e \<in> set tr'. \<not> of_subject subject purpose e)"
  using assms(2-)
proof (induction)
  case (run_step db tr' db1 evs db2)
  have i: "route_inv env (tr @ tr') db1" using route_inv_run [OF law run_step.hyps(1) run_step.prems(1)] .
  have ih: "sealed env subject purpose db1 \<and> (\<forall>e \<in> set tr'. \<not> of_subject subject purpose e)"
    using run_step.IH run_step.prems by auto
  have "sealed env subject purpose db2 \<and> (\<forall>e \<in> set evs. \<not> of_subject subject purpose e)"
    by (rule sealed_step [OF law _ _ run_step.hyps(2)]) (use i ih run_step.prems in \<open>auto simp: route_inv_def\<close>)
  then show ?case using ih by auto
qed auto

lemma matching_fates:
  assumes law: "route_law env" and inv: "route_inv env tr db" and x: "x \<in> set (rd_settings db)" "is_route_key (st_key x)"
  shows "invalidate_fate env subject purpose x db' = revoke_fate env subject purpose x db'"
    and "parse_persisted_route_envelope env (st_value x) = Inr en \<Longrightarrow> rt_subject (ae_route en) = Some subject \<Longrightarrow> rt_purpose (ae_route en) = purpose \<Longrightarrow>
      x \<in> set (select_routes env subject purpose db) \<and> invalidate_fate env subject purpose x db' = unused_fate subject purpose (ae_route en) db'"
proof -
  obtain en0 where i: "st_value x = w_print env en0" "st_key x = runtime_key (rt_authorization (ae_route en0))"
    using inv x by (auto simp: route_inv_def issued_def)
  have p: "en = en0" if "parse_persisted_route_envelope env (st_value x) = Inr en" for en using parse_printed [OF law] that i(1) by metis
  show "invalidate_fate env subject purpose x db' = revoke_fate env subject purpose x db'"
    using p i(2) by (auto simp: invalidate_fate_def revoke_fate_def split: sum.split)
  assume a: "parse_persisted_route_envelope env (st_value x) = Inr en" "rt_subject (ae_route en) = Some subject" "rt_purpose (ae_route en) = purpose"
  have "w_route_text env (st_value x) = (Some (uuid_text subject), Some (purpose_text purpose))"
    using law a p [OF a(1)] i(1) by (simp add: route_law_def)
  then show "x \<in> set (select_routes env subject purpose db) \<and> invalidate_fate env subject purpose x db' = unused_fate subject purpose (ae_route en) db'"
    using x a p [OF a(1)] i(2) by (simp add: select_routes_def invalidate_fate_def)
qed

lemma invalidate_seals:
  assumes law: "route_law env" and inv: "route_inv env tr db" and "invalidate_subject_purpose env subject purpose db = (Inr ids, db')"
  shows "sealed env subject purpose db'"
  unfolding sealed_def
proof (intro ballI allI impI)
  fix x en
  assume x: "x \<in> set (rd_settings db')" "is_route_key (st_key x)" "parse_persisted_route_envelope env (st_value x) = Inr en"
    "rt_subject (ae_route en) = Some subject" "rt_purpose (ae_route en) = purpose"
  have d: "distinct (map st_key (rd_settings db))" using inv by (simp add: route_inv_def)
  have sw: "swept (invalidate_fate env subject purpose) (ahead env subject purpose [] db) db ids db'" using invalidate_swept [OF d] assms(3) by blast
  note e = swept_effect [OF sw ahead_keys(3) [OF d] d]
  have xd: "x \<in> set (rd_settings db)" using x(1) unfolding e(3) by simp
  have m: "x \<in> set (ahead env subject purpose [] db)" "invalidate_fate env subject purpose x db = unused_fate subject purpose (ae_route en) db"
    using matching_fates(2) [OF law inv xd x(2-5)] ahead_start_set by auto
  obtain f where f: "invalidate_fate env subject purpose x db = Inr f" using e(4) [OF m(1)] by blast
  then have "f = None" using x(1) m(1) unfolding e(3) by (cases f) auto
  then have "used db (ae_route en)" using f m(2) unused_fate_cases(2) x(4,5) by simp
  then show "used db' (ae_route en)" by (simp add: used_def e(1))
qed

subsection \<open>Properties\<close>

text \<open>
  C9: A route authorization is good for one call. In every run that starts without routes, whatever other transactions do in between,
  no authorization is consumed twice, and each consumption is for an authorization issued earlier in the run, matches the request it was
  issued for in every bound field, and comes less than thirty seconds after the issue.
\<close>

theorem route_single_use:
  assumes "route_law env" "no_routes db" "route_run env db tr db'"
  shows "distinct (consumed_ids tr) \<and>
    (\<forall>xs aid cs t ys. tr = xs @ Consumed aid cs t # ys \<longrightarrow>
      (\<exists>g t0. Authorized g t0 \<in> set xs \<and> rt_authorization (gr_route g) = aid \<and> verify_route_consumption (gr_route g) cs t = Inr ()
        \<and> t < t0 + ROUTE_TTL))"
  using route_inv_run [OF assms(1,3) route_inv_start [OF assms(2)]] by (auto simp: route_inv_def justified_def)

text \<open>
  C11: A revocation is final. After the routes of a subject and purpose were invalidated, no later consumption in that subject's name and
  for that purpose succeeds until a new authorization is issued for them.
\<close>

theorem revocation_final:
  assumes "route_law env" "no_routes db" "route_run env db tr db1" "invalidate_subject_purpose env subject purpose db1 = (Inr ids, db2)"
    "route_run env db2 tr' db3"
    "\<forall>g t. Authorized g t \<in> set tr' \<longrightarrow> \<not> (rt_subject (gr_route g) = Some subject \<and> rt_purpose (gr_route g) = purpose)"
  shows "\<forall>aid cs t. Consumed aid cs t \<in> set tr' \<longrightarrow> \<not> (cs_subject cs = Some subject \<and> cs_purpose cs = purpose)"
proof (intro allI impI)
  fix aid cs t
  assume c: "Consumed aid cs t \<in> set tr'"
  have i1: "route_inv env tr db1" using route_inv_run [OF assms(1,3) route_inv_start [OF assms(2)]] by simp
  have step: "route_step env db1 [Revoked subject purpose ids] db2" using step_invalidate [OF assms(4)] by simp
  have "\<forall>e \<in> set tr'. \<not> of_subject subject purpose e"
    using sealed_run [OF assms(1,5) route_inv_step [OF assms(1) i1 step] invalidate_seals [OF assms(1) i1 assms(4)]] assms(6) by simp
  then show "\<not> (cs_subject cs = Some subject \<and> cs_purpose cs = purpose)" using c by force
qed

text \<open>
  C40: The two revocation routines agree. On every reachable store the batched scan of the route service and the single pass of the
  identity service fail together or leave the same store and report the same identifiers, up to order; the scan always ends.
\<close>

theorem revocation_scans_agree:
  assumes "route_law env" "no_routes db0" "route_run env db0 tr db"
  shows "case invalidate_subject_purpose env subject purpose db of
      (Inl e, db') \<Rightarrow> revoke_subject_purpose env subject purpose db = (Inl e, db')
    | (Inr ids, db') \<Rightarrow> \<exists>ids'. revoke_subject_purpose env subject purpose db = (Inr ids', db') \<and> mset ids' = mset ids"
proof -
  have i: "route_inv env tr db" using route_inv_run [OF assms(1,3) route_inv_start [OF assms(2)]] by simp
  then have d: "distinct (map st_key (rd_settings db))" by (simp add: route_inv_def)
  let ?F = "invalidate_fate env subject purpose" and ?S = "select_routes env subject purpose db"
  have "fates (revoke_fate env subject purpose) ?S db = fates ?F ?S db"
    using matching_fates(1) [OF assms(1) i] by (intro fates_cong) (simp add: select_routes_def)
  then have r: "revoke_subject_purpose env subject purpose db = route_uow (\<lambda>db. bindE (fates ?F ?S db) (\<lambda>(ks, ids). Inr (ids, without ks db))) db"
    by (simp add: revoke_subject_purpose_def route_uow_def revoke_fates [OF d])
  have e0: "\<forall>s e. ?F s db = Inl e \<longrightarrow> e = RuntimeErr ''invalid route consumption state''" using invalidate_fate_Inl by blast
  note perm = fates_perm [where F = ?F and db = db, OF ahead_start [of env subject purpose db] e0]
  show ?thesis
  proof (cases "fates ?F (ahead env subject purpose [] db) db")
    case (Inl e)
    then show ?thesis using perm(1) [OF Inl] r
      by (simp add: invalidate_subject_purpose_def route_uow_def invalidate_loop_fates [OF d])
  next
    case (Inr p)
    obtain ks ids where p: "p = (ks, ids)" by (cases p)
    obtain ks' ids' where "fates ?F ?S db = Inr (ks', ids')" "set ks' = set ks" "mset ids' = mset ids" using perm(2) [OF Inr [unfolded p]] by blast
    then show ?thesis using r Inr p
      by (simp add: invalidate_subject_purpose_def route_uow_def invalidate_loop_fates [OF d] without_def)
  qed
qed

subsection \<open>A run\<close>

text \<open>One authorization issued at instant 1000 for subject 7, then consumed, or revoked and refused.\<close>

definition ex_rq :: route_request where
  "ex_rq = \<lparr>rr_request = 2, rr_attempt = 3, rr_purpose = CloudReasoning, rr_household = 1, rr_subject = Some 7, rr_session = 4, rr_turn = 5,
     rr_provider = ''openai'', rr_model = ''gpt-5.6-sol'', rr_commitment = (''hmac-sha256'', ''key'', ''value''), rr_max_input_bytes = 100,
     rr_max_input_units = 10, rr_privacy = 6, rr_consents = [8], rr_reservation = 11, rr_sensitivity = 1\<rparr>"

definition ex_grant :: route_grant where "ex_grant = authorization_from_request ex_rq 9 (1000 + ROUTE_TTL)"

definition ex_envelope :: authorization_envelope where "ex_envelope = \<lparr>ae_grant = ex_grant, ae_generation = Some 1, ae_qwen = None\<rparr>"

definition ex_print :: "authorization_envelope \<Rightarrow> string" where
  "ex_print en = (if en = ex_envelope then CHR ''x'' else CHR ''y'')
     # (case rt_purpose (ae_route en) of CloudStt \<Rightarrow> CHR ''s'' | CloudReasoning \<Rightarrow> CHR ''r'' | CloudTts \<Rightarrow> CHR ''t'')
     # (case rt_subject (ae_route en) of None \<Rightarrow> [] | Some u \<Rightarrow> uuid_text u)"

definition ex_route_text :: "string \<Rightarrow> string option \<times> string option" where
  "ex_route_text s = (case s of _ # p # u \<Rightarrow> (if u = [] then None else Some u,
       Some (purpose_text (if p = CHR ''s'' then CloudStt else if p = CHR ''r'' then CloudReasoning else CloudTts))) | _ \<Rightarrow> (None, None))"

definition ex_limit :: hard_limit where
  "ex_limit = \<lparr>hl_project = replicate 64 CHR ''a'', hl_threshold = 1, hl_evidence = ''e'', hl_settings = ''c'',
     hl_credential_kind = ''project_service_account'', hl_admin_key = False\<rparr>"

definition ex_route_env :: route_env where
  "ex_route_env = \<lparr>w_print = ex_print, w_parse_envelope = (\<lambda>s. if s = ex_print ex_envelope then Some ex_envelope else None),
     w_route_text = ex_route_text, w_json_valid = (\<lambda>_. True),
     w_parse_privacy = (\<lambda>s. if s = ''p'' then Some \<lparr>pb_receipt = 6, pb_turn = 5, pb_expires_at = 2000\<rparr> else None),
     w_parse_review = (\<lambda>s. if s = ''v'' then Some \<lparr>pv_expires_at = 2000, pv_purposes = [CloudReasoning], pv_models = [''gpt-5.6-sol''], pv_limit = ex_limit\<rparr> else None),
     w_limit_commitment = (\<lambda>_. ''c''), w_parse_usage = (\<lambda>_ _. Some (LlmUsageUnits 10 10))\<rparr>"

definition ex_ports :: route_ports where
  "ex_ports = \<lparr>o_subject = (\<lambda>_ _ _. Some 1), o_consent = (\<lambda>_ _ _ _ _. Inr ()),
     o_identity = (\<lambda>_. Some \<lparr>pi_project = replicate 64 CHR ''a'', pi_credential_kind = ''project_service_account'', pi_admin_key = False\<rparr>)\<rparr>"

definition ex_price :: price_columns where
  "ex_price = \<lparr>p_snapshot_json = ''{}'', p_basis = ProviderReportedExact, p_policy = FreezeUnknownOverage, p_version = ''1'', p_source_sha256 = ''s'', p_fx_version = ''1'',
     p_fx_source_sha256 = ''s'', p_key_id = ''k'', p_hmac = ''h''\<rparr>"

definition ex_route_db :: route_db where
  "ex_route_db = \<lparr>rd_settings = [\<lparr>st_key = ''privacy.receipt.'' @ uuid_text 6, st_value = ''p'', st_updated = 0\<rparr>, \<lparr>st_key = OPENAI_REVIEW_KEY, st_value = ''v'', st_updated = 0\<rparr>],
     rd_receipts = [], rd_sessions = [\<lparr>ss_id = 4, ss_household = 1, ss_state = ''active'', ss_speaker = Some 7, ss_closed = None\<rparr>],
     rd_reservations = [\<lparr>r_id = 11, r_request = 2, r_attempt = 3, r_month = ''2026-09'', r_category = Cat_llm, r_provider = ''openai'', r_model = ''gpt-5.6-sol'',
       r_outcome = Allow, r_reserved = 5, r_charged = None, r_usage_json = ''u'', r_price = Some ex_price, r_overrun = False, r_state = Reserved, r_ordering = 1,
       r_phase = NotClaimed, r_created_at = 0, r_expires_at = 5000, r_settled_at = None, r_reconciled_at = None\<rparr>]\<rparr>"

definition ex_use :: route_consumption where
  "ex_use = \<lparr>cs_request = 2, cs_attempt = 3, cs_purpose = CloudReasoning, cs_household = 1, cs_subject = Some 7, cs_session = 4, cs_turn = 5,
     cs_provider = ''openai'', cs_model = ''gpt-5.6-sol'', cs_commitment = (''hmac-sha256'', ''key'', ''value''), cs_input_bytes = 50, cs_input_units = 10,
     cs_consumed_at = 1000\<rparr>"

lemma ex_route_law: "route_law ex_route_env"
proof -
  have ne: "uuid_text u \<noteq> []" for u by (simp add: uuid_text_def Let_def)
  have "ex_print en = ex_print ex_envelope \<Longrightarrow> en = ex_envelope" for en by (simp add: ex_print_def split: if_splits)
  moreover have "ex_route_text (ex_print en) = (map_option uuid_text (rt_subject (ae_route en)), Some (purpose_text (rt_purpose (ae_route en))))" for en
    using ne by (cases "rt_purpose (ae_route en)") (auto simp: ex_route_text_def ex_print_def split: option.splits)
  ultimately show ?thesis by (auto simp: route_law_def ex_route_env_def split: if_splits)
qed

lemma ex_no_routes: "no_routes ex_route_db"
  by (simp add: no_routes_def ex_route_db_def OPENAI_REVIEW_KEY_def is_route_key_def starts_with_def ROUTE_PREFIX_def)

definition ex_row :: setting_row where "ex_row = \<lparr>st_key = runtime_key 9, st_value = ex_print ex_envelope, st_updated = 1000\<rparr>"

definition ex_issued :: route_db where
  "ex_issued = ex_route_db\<lparr>rd_settings := rd_settings ex_route_db @ [ex_row],
     rd_receipts := [\<lparr>id_id = 100, id_operation = ISSUE_OPERATION, id_scope = 1, id_key = 3, id_seen = 1000, id_expires = 1000 + ROUTE_TTL\<rparr>]\<rparr>"

lemma ex_gates:
  assumes "rd_sessions db = rd_sessions ex_route_db" "rd_reservations db = rd_reservations ex_route_db" "t < 2000" "0 \<le> t"
    "select_setting (''privacy.receipt.'' @ uuid_text 6) db = Some \<lparr>st_key = ''privacy.receipt.'' @ uuid_text 6, st_value = ''p'', st_updated = 0\<rparr>"
    "select_setting OPENAI_REVIEW_KEY db = Some \<lparr>st_key = OPENAI_REVIEW_KEY, st_value = ''v'', st_updated = 0\<rparr>"
  shows "require_privacy_receipt ex_route_env 6 5 t db = Inr ()" "provider_review_gate ex_route_env ex_ports ''openai'' ''gpt-5.6-sol'' CloudReasoning t db = Inr ()"
    "require_active_session (gr_route ex_grant) db = Inr ()" "require_budget_reservation ex_route_env (gr_route ex_grant) t db = Inr ()"
proof -
  show "require_privacy_receipt ex_route_env 6 5 t db = Inr ()" using assms by (simp add: require_privacy_receipt_def ex_route_env_def)
  have h: "valid_public_hash (replicate 64 CHR ''a'')" by (simp add: valid_public_hash_def HEX_DIGITS_def list_all_iff)
  show "provider_review_gate ex_route_env ex_ports ''openai'' ''gpt-5.6-sol'' CloudReasoning t db = Inr ()"
    using assms h by (simp add: provider_review_gate_def review_require_current_def ex_route_env_def ex_ports_def REVIEW_MAX_AGE_def OPENAI_ROUTES_def ex_limit_def Let_def)
  show "require_active_session (gr_route ex_grant) db = Inr ()"
    using assms(1) by (simp add: require_active_session_def ex_grant_def ex_rq_def authorization_from_request_def ex_route_db_def)
  show "require_budget_reservation ex_route_env (gr_route ex_grant) t db = Inr ()"
    using assms by (simp add: require_budget_reservation_def ex_grant_def ex_rq_def authorization_from_request_def ex_route_db_def ex_route_env_def reservation_open_def ex_price_def Let_def)
qed

lemma ex_select:
  "select_setting (''privacy.receipt.'' @ uuid_text 6) ex_route_db = Some \<lparr>st_key = ''privacy.receipt.'' @ uuid_text 6, st_value = ''p'', st_updated = 0\<rparr>"
  "select_setting OPENAI_REVIEW_KEY ex_route_db = Some \<lparr>st_key = OPENAI_REVIEW_KEY, st_value = ''v'', st_updated = 0\<rparr>"
  "select_setting (''privacy.receipt.'' @ uuid_text 6) ex_issued = Some \<lparr>st_key = ''privacy.receipt.'' @ uuid_text 6, st_value = ''p'', st_updated = 0\<rparr>"
  "select_setting OPENAI_REVIEW_KEY ex_issued = Some \<lparr>st_key = OPENAI_REVIEW_KEY, st_value = ''v'', st_updated = 0\<rparr>"
  "select_setting (runtime_key 9) ex_issued = Some ex_row"
  by (simp_all add: select_setting_def ex_issued_def ex_route_db_def ex_row_def runtime_key_def ROUTE_PREFIX_def OPENAI_REVIEW_KEY_def)

lemma ex_grant_simps:
  "rt_authorization (gr_route ex_grant) = 9" "rt_household (gr_route ex_grant) = 1" "rt_subject (gr_route ex_grant) = Some 7" "rt_turn (gr_route ex_grant) = 5"
  "rt_provider (gr_route ex_grant) = ''openai''" "rt_model (gr_route ex_grant) = ''gpt-5.6-sol''" "rt_purpose (gr_route ex_grant) = CloudReasoning"
  "rt_attempt (gr_route ex_grant) = 3" "rt_expires_at (gr_route ex_grant) = 1000 + ROUTE_TTL" "gr_privacy ex_grant = 6"
  by (simp_all add: ex_grant_def ex_rq_def authorization_from_request_def)

lemma ex_state: "0 \<le> t \<Longrightarrow> t < 2000 \<Longrightarrow> require_runtime_state ex_route_env ex_ports ex_envelope t ex_route_db = Inr ()"
  "0 \<le> t \<Longrightarrow> t < 2000 \<Longrightarrow> require_runtime_state ex_route_env ex_ports ex_envelope t ex_issued = Inr ()"
  using ex_gates [of ex_route_db t] ex_gates [of ex_issued t] ex_select
  by (simp_all add: require_runtime_state_def ex_envelope_def ex_grant_simps Let_def ex_issued_def)

lemma ex_authorize: "authorize ex_route_env ex_ports (\<lambda>_. 1000) 9 100 ex_rq ex_route_db = (Inr ex_grant, ex_issued)"
proof -
  let ?db1 = "ex_route_db\<lparr>rd_settings := rd_settings ex_route_db @ [ex_row]\<rparr>"
  have w: "w_print ex_route_env ex_envelope = ex_print ex_envelope" by (simp add: ex_route_env_def)
  have i1: "insert_setting_row ex_route_env ex_row ex_route_db = Inr ?db1"
    by (simp add: insert_setting_row_def sql_insert_def ex_route_env_def ex_row_def ex_route_db_def runtime_key_def ROUTE_PREFIX_def OPENAI_REVIEW_KEY_def)
  have i2: "insert_receipt_row \<lparr>id_id = 100, id_operation = ISSUE_OPERATION, id_scope = 1, id_key = 3, id_seen = 1000, id_expires = 1000 + ROUTE_TTL\<rparr> ?db1 = Inr ex_issued"
    by (simp add: insert_receipt_row_def sql_insert_def ex_issued_def ex_route_db_def)
  have g: "ae_grant ex_envelope = ex_grant" by (simp add: ex_envelope_def)
  have p: "persist_authorization ex_route_env ex_ports (\<lambda>_. 1000) 100 ex_envelope ex_route_db = Inr ex_issued"
    using ex_state(1) [of 1000] i1 i2 w by (simp add: persist_authorization_def g ex_grant_simps Let_def ex_row_def ROUTE_TTL_def)
  have pre: "idempotency_exists ISSUE_OPERATION (rr_household ex_rq) (rr_attempt ex_rq) ex_route_db = Inr False"
      "require_current_subject_authority ex_ports (rr_household ex_rq) (rr_subject ex_rq) None = Inr (Some 1)"
      "require_current_consent ex_ports (rr_household ex_rq) (rr_subject ex_rq) (rr_session ex_rq) (rr_purpose ex_rq) (rr_consents ex_rq) = Inr ()"
      "require_provider_activation (rr_provider ex_rq) None = Inr None" "bindings_match_route ex_envelope = Inr ()"
    by (simp_all add: idempotency_exists_def zero_or_one_def ex_route_db_def require_current_subject_authority_def require_current_consent_def ex_ports_def
        require_provider_activation_def ex_rq_def bindings_match_route_def g ex_grant_simps) (simp_all add: ex_envelope_def)
  have q: "rr_privacy ex_rq = 6" "rr_turn ex_rq = 5" "rr_provider ex_rq = ''openai''" "rr_model ex_rq = ''gpt-5.6-sol''" "rr_purpose ex_rq = CloudReasoning"
    by (simp_all add: ex_rq_def)
  note gates = ex_gates [of ex_route_db 1000, OF refl refl _ _ ex_select(1,2), simplified]
  show ?thesis using pre gates p
    by (simp add: authorize_def route_uow_def authorize_locked_def require_provider_review_def q Let_def
        ex_grant_def [symmetric] ex_envelope_def [symmetric])
qed

lemma ex_parse: "parse_persisted_route_envelope ex_route_env (st_value ex_row) = Inr ex_envelope"
  by (simp add: parse_persisted_route_envelope_def ex_route_env_def ex_row_def ex_envelope_def bindings_match_route_def ex_grant_simps)

definition ex_spent :: route_db where
  "ex_spent = ex_issued\<lparr>rd_receipts := rd_receipts ex_issued @
     [\<lparr>id_id = 101, id_operation = CONSUME_OPERATION, id_scope = 1, id_key = 9, id_seen = 1500, id_expires = 1000 + ROUTE_TTL\<rparr>]\<rparr>"

lemma ex_consume: "consume ex_route_env ex_ports (\<lambda>_. 1500) 9 101 ex_use ex_issued = (Inr (), ex_spent)"
proof -
  have g: "ae_grant ex_envelope = ex_grant" "ae_generation ex_envelope = Some 1" by (simp_all add: ex_envelope_def)
  have v: "verify_route_consumption (gr_route ex_grant) ex_use 1500 = Inr ()"
    by (simp add: verify_route_consumption_def ex_grant_def authorization_from_request_def ex_rq_def ex_use_def ROUTE_TTL_def)
  have c: "consumption_exists 1 9 ex_issued = Inr False"
    by (simp add: exists_defs zero_or_one_def ex_issued_def ISSUE_OPERATION_def CONSUME_OPERATION_def)
  have a: "require_current_subject_authority ex_ports 1 (Some 7) (Some 1) = Inr (Some 1)"
      "require_current_consent ex_ports 1 (Some 7) (rt_session (gr_route ex_grant)) CloudReasoning (gr_consents ex_grant) = Inr ()"
    by (simp_all add: require_current_subject_authority_def require_current_consent_def ex_ports_def)
  have i: "insert_receipt_row \<lparr>id_id = 101, id_operation = CONSUME_OPERATION, id_scope = 1, id_key = 9, id_seen = 1500, id_expires = 1000 + ROUTE_TTL\<rparr> ex_issued = Inr ex_spent"
    by (simp add: insert_receipt_row_def sql_insert_def idempotency_conflict_def ex_issued_def ex_spent_def ISSUE_OPERATION_def CONSUME_OPERATION_def)
  have p: "persist_consumption ex_route_env ex_ports (\<lambda>_. 1500) 101 ex_envelope ex_use ex_issued = Inr ex_spent"
    using ex_state(2) [of 1500] v i by (simp add: persist_consumption_def g ex_grant_simps Let_def)
  show ?thesis using ex_select(5) ex_parse c v a p by (simp add: consume_def route_uow_def consume_locked_def g ex_grant_simps Let_def)
qed

lemma ex_run:
  "route_run ex_route_env ex_route_db [Authorized ex_grant 1000] ex_issued"
  "route_run ex_route_env ex_route_db [Authorized ex_grant 1000, Consumed 9 ex_use 1500] ex_spent"
proof -
  show 1: "route_run ex_route_env ex_route_db [Authorized ex_grant 1000] ex_issued"
    using run_step [OF run_start step_authorize [OF ex_authorize]] by simp
  show "route_run ex_route_env ex_route_db [Authorized ex_grant 1000, Consumed 9 ex_use 1500] ex_spent"
    using run_step [OF 1 step_consume [OF ex_consume]] by simp
qed

theorem route_single_use_witness:
  "consumed_ids [Authorized ex_grant 1000, Consumed 9 ex_use 1500] = [9] \<and> distinct (consumed_ids [Authorized ex_grant 1000, Consumed 9 ex_use 1500])
   \<and> (\<exists>g t0. Authorized g t0 \<in> set [Authorized ex_grant 1000] \<and> rt_authorization (gr_route g) = 9
        \<and> verify_route_consumption (gr_route g) ex_use 1500 = Inr () \<and> 1500 < t0 + ROUTE_TTL)"
proof -
  note t = route_single_use [OF ex_route_law ex_no_routes ex_run(2)]
  from t [THEN conjunct2, rule_format, of "[Authorized ex_grant 1000]" 9 ex_use 1500 "[]"] t [THEN conjunct1] show ?thesis by simp
qed

definition ex_withdrawn :: route_db where
  "ex_withdrawn = ex_issued\<lparr>rd_settings := rd_settings ex_route_db\<rparr>"

lemma ex_distinct: "distinct (map st_key (rd_settings ex_issued))"
  by (simp add: ex_issued_def ex_route_db_def ex_row_def runtime_key_def ROUTE_PREFIX_def OPENAI_REVIEW_KEY_def)

lemma ex_invalidate: "invalidate_subject_purpose ex_route_env 7 CloudReasoning ex_issued = (Inr [9], ex_withdrawn)"
proof -
  have t: "w_route_text ex_route_env (st_value ex_row) = (Some (uuid_text 7), Some (purpose_text CloudReasoning))"
    using ex_route_law by (simp add: route_law_def ex_route_env_def ex_row_def ex_envelope_def ex_grant_simps)
  have k: "st_key ex_row = runtime_key 9" by (simp add: ex_row_def)
  have o: "\<not> is_route_key (st_key x)" if "x \<in> set (rd_settings ex_route_db)" for x
    using that ex_no_routes by (auto simp: no_routes_def list_all_iff)
  have r: "rd_settings ex_issued = rd_settings ex_route_db @ [ex_row]" by (simp add: ex_issued_def)
  have s: "select_routes ex_route_env 7 CloudReasoning ex_issued = [ex_row]"
    using o t k by (simp add: select_routes_def r filter_empty_conv)
  then have a: "ahead ex_route_env 7 CloudReasoning [] ex_issued = [ex_row]" using ahead_start [of ex_route_env 7 CloudReasoning ex_issued] by simp
  have c: "consumption_exists 1 9 ex_issued = Inr False"
    by (simp add: exists_defs zero_or_one_def ex_issued_def ISSUE_OPERATION_def CONSUME_OPERATION_def)
  have f: "invalidate_fate ex_route_env 7 CloudReasoning ex_row ex_issued = Inr (Some [9])"
    using ex_parse c k by (simp add: invalidate_fate_def unused_fate_def ex_envelope_def ex_grant_simps)
  have "filter (\<lambda>x. st_key x \<noteq> runtime_key 9) (rd_settings ex_route_db) = rd_settings ex_route_db"
    unfolding filter_id_conv using o runtime_key_route by metis
  then have "without [runtime_key 9] ex_issued = ex_withdrawn" by (simp add: without_def ex_withdrawn_def r k)
  then show ?thesis by (simp add: invalidate_subject_purpose_def route_uow_def invalidate_loop_fates [OF ex_distinct] a f k)
qed

lemma ex_refused: "consume ex_route_env ex_ports (\<lambda>_. 1500) 9 101 ex_use ex_withdrawn = (Inl (PermissionErr ''route_authorization_unknown''), ex_withdrawn)"
  by (simp add: consume_def route_uow_def consume_locked_def select_setting_def ex_withdrawn_def ex_issued_def ex_route_db_def runtime_key_def
      ROUTE_PREFIX_def OPENAI_REVIEW_KEY_def)

lemma ex_invalidate_other: "invalidate_subject_purpose ex_route_env 8 CloudReasoning ex_issued = (Inr [], ex_issued)"
proof -
  have "w_route_text ex_route_env (st_value ex_row) = (Some (uuid_text 7), Some (purpose_text CloudReasoning))"
    using ex_route_law by (simp add: route_law_def ex_route_env_def ex_row_def ex_envelope_def ex_grant_simps)
  then have "select_routes ex_route_env 8 CloudReasoning ex_issued = []"
    using ex_no_routes by (auto simp: select_routes_def ex_issued_def no_routes_def list_all_iff filter_empty_conv uuid_text_inj)
  then have "ahead ex_route_env 8 CloudReasoning [] ex_issued = []" using ahead_start [of ex_route_env 8 CloudReasoning ex_issued] by simp
  then show ?thesis by (simp add: invalidate_subject_purpose_def route_uow_def invalidate_loop_fates [OF ex_distinct])
qed

theorem revocation_final_witness:
  "invalidate_subject_purpose ex_route_env 8 CloudReasoning ex_issued = (Inr [], ex_issued)
   \<and> route_run ex_route_env ex_issued [Consumed 9 ex_use 1500] ex_spent \<and> \<not> (cs_subject ex_use = Some 8 \<and> cs_purpose ex_use = CloudReasoning)
   \<and> fst (consume ex_route_env ex_ports (\<lambda>_. 1500) 9 101 ex_use ex_withdrawn) = Inl (PermissionErr ''route_authorization_unknown'')"
proof -
  have r: "route_run ex_route_env ex_issued [Consumed 9 ex_use 1500] ex_spent"
    using run_step [OF run_start step_consume [OF ex_consume]] by simp
  show ?thesis using revocation_final [OF ex_route_law ex_no_routes ex_run(1) ex_invalidate_other r] r ex_invalidate_other ex_refused by auto
qed

theorem revocation_scans_agree_witness:
  "\<exists>ids'. revoke_subject_purpose ex_route_env 7 CloudReasoning ex_issued = (Inr ids', ex_withdrawn) \<and> mset ids' = mset [9]"
  using revocation_scans_agree [OF ex_route_law ex_no_routes ex_run(1), of 7 CloudReasoning] ex_invalidate by simp

end
